(* ===== verification/Prelude.thy ===== *)
theory Prelude
  imports Main "HOL-Library.Word" "HOL-Library.Code_Target_Nat"
begin

text \<open>
  What the components share: the fixed-width integers of the sources
  (\<open>src/ddsnap/ddsnap.h\<close>, \<open>src/ddsnap/buffer.h\<close>,
  \<open>src/ddsnap/kernel/dm-ddsnap.h\<close>), the errors the code returns, and the
  generic lemmas on lists, bit masks and modular arithmetic that the component
  proofs use.

  Chunk and sector numbers are natural numbers; wherever the C code relies on
  the wrap-around of an unsigned type the modulus is written out
  (\<open>u32_sub\<close>, \<open>u64_sub\<close>).  Bit masks are 64 bit words.
\<close>

unbundle bit_operations_syntax

named_theorems bits_simps \<open>rewriting of snapshot masks\<close>

type_synonym u8 = "8 word"
type_synonym u16 = "16 word"
type_synonym u32 = "32 word"
type_synonym u64 = "64 word"
type_synonym chunk_t = nat
type_synonym sector_t = nat

subsection \<open>Constants and errors\<close>

definition SECTOR_BITS :: nat where [simp]: "SECTOR_BITS = 9"
definition MAX_SNAPSHOTS :: nat where [simp]: "MAX_SNAPSHOTS = 64"
definition SNAPSHOT_SQUASHED :: nat where [simp]: "SNAPSHOT_SQUASHED = 64"

datatype errno = EPERM | ENOMEM | EEXIST | EINVAL | EIO | ERANGE | EPIPE

text \<open>The sources define \<open>EFULL\<close> as \<open>ENOMEM\<close>.\<close>

abbreviation EFULL :: errno where "EFULL \<equiv> ENOMEM"

text \<open>
  What can keep a routine from returning: the process exits (\<open>error\<close>, a failed
  assertion), or a walk with a bounded number of rounds has used them up.
\<close>

datatype fate = Exit | Rounds

type_synonym 'r run = "fate + 'r"

subsection \<open>Unsigned subtraction\<close>

definition u32_sub :: "nat \<Rightarrow> nat \<Rightarrow> nat" where
  "u32_sub a b = (a + 2 ^ 32 - b mod 2 ^ 32) mod 2 ^ 32"

definition u64_sub :: "nat \<Rightarrow> nat \<Rightarrow> nat" where
  "u64_sub a b = (a + 2 ^ 64 - b mod 2 ^ 64) mod 2 ^ 64"

lemma u32_sub_less [simp]: "u32_sub a b < 2 ^ 32"
  by (simp add: u32_sub_def)

lemma u64_sub_less [simp]: "u64_sub a b < 2 ^ 64"
  by (simp add: u64_sub_def)

lemma u32_sub_eq: "b \<le> a \<Longrightarrow> a < 2 ^ 32 \<Longrightarrow> u32_sub a b = a - b"
  by (simp add: u32_sub_def mod_if)

lemma u64_sub_eq: "b \<le> a \<Longrightarrow> a < 2 ^ 64 \<Longrightarrow> u64_sub a b = a - b"
  by (simp add: u64_sub_def mod_if)

end
