(* ===== verification/Leaf.thy ===== *)
theory Leaf
  imports Prelude
begin

text \<open>
  The B-tree leaf (\<open>struct eleaf\<close> of \<open>src/ddsnap/ddsnapd.c\<close>) and the
  routines that edit it in place.  A leaf is one metadata block: a header, a
  directory \<open>map[]\<close> that grows upwards, and the exceptions that grow downwards
  from the end of the block.  The directory has one entry more than
  \<open>count\<close>, the sentinel that holds the offset of the end of the block.

  The model keeps this layout: \<open>leaf_map\<close> is the directory with its sentinel,
  \<open>leaf_data\<close> maps the byte offset of an exception to its contents, pointers
  into the block are byte offsets and \<open>memmove\<close> moves a range of offsets.
  \<open>leaf_abs\<close> reads a leaf as a sorted association list from relative chunk
  numbers to the list of exceptions of the chunk; the lemmas show that each
  routine implements its specification on such lists.
\<close>

section \<open>Data\<close>

record etree_map =
  map_offset :: nat
  map_rchunk :: nat

record exception =
  ex_share :: u64
  ex_chunk :: chunk_t

record eleaf =
  leaf_magic :: nat
  leaf_version :: nat
  leaf_count :: nat
  leaf_base_chunk :: chunk_t
  leaf_using_mask :: u64
  leaf_map :: "etree_map list"
  leaf_data :: "nat \<Rightarrow> exception"

text \<open>The sizes of the structures and the offset of \<open>map\<close> in \<open>struct eleaf\<close>.\<close>

definition sizeof_exception :: nat where [simp]: "sizeof_exception = 16"
definition sizeof_etree_map :: nat where [simp]: "sizeof_etree_map = 8"
definition offsetof_map :: nat where [simp]: "offsetof_map = 24"

definition map_addr :: "nat \<Rightarrow> nat" where
  "map_addr i = offsetof_map + i * sizeof_etree_map"

definition emap :: "eleaf \<Rightarrow> nat \<Rightarrow> nat" where
  "emap leaf i = map_offset (leaf_map leaf ! i)"

abbreviation leaf_rchunk :: "eleaf \<Rightarrow> nat \<Rightarrow> nat" where
  "leaf_rchunk leaf i \<equiv> map_rchunk (leaf_map leaf ! i)"

text \<open>The addresses a loop \<open>for (p = a; p < b; p++)\<close> over exceptions visits.\<close>

definition exc_ptrs :: "nat \<Rightarrow> nat \<Rightarrow> nat list" where
  "exc_ptrs a b = map (\<lambda>k. a + sizeof_exception * k)
     [0..<(b - a + (sizeof_exception - 1)) div sizeof_exception]"

definition exceptions :: "eleaf \<Rightarrow> nat \<Rightarrow> exception list" where
  "exceptions leaf i = map (leaf_data leaf) (exc_ptrs (emap leaf i) (emap leaf (Suc i)))"

definition share_union :: "exception list \<Rightarrow> u64" where
  "share_union es = fold (\<lambda>p using. using OR ex_share p) es 0"

text \<open>\<open>memmove\<close> and \<open>memcpy\<close> on the exception area.\<close>

definition memmove :: "(nat \<Rightarrow> exception) \<Rightarrow> nat \<Rightarrow> nat \<Rightarrow> nat \<Rightarrow> nat \<Rightarrow> exception" where
  "memmove mem dst src n = (\<lambda>a. if dst \<le> a \<and> a < dst + n then mem (a - dst + src) else mem a)"

definition memcpy :: "(nat \<Rightarrow> exception) \<Rightarrow> nat \<Rightarrow> (nat \<Rightarrow> exception) \<Rightarrow> nat \<Rightarrow> nat \<Rightarrow> nat \<Rightarrow> exception" where
  "memcpy mem dst mem' src n = (\<lambda>a. if dst \<le> a \<and> a < dst + n then mem' (a - dst + src) else mem a)"

definition adjust_offsets :: "nat \<Rightarrow> (nat \<Rightarrow> nat) \<Rightarrow> etree_map list \<Rightarrow> etree_map list" where
  "adjust_offsets n f ms =
     map (\<lambda>m. m\<lparr>map_offset := f (map_offset m)\<rparr>) (take n ms) @ drop n ms"

section \<open>Operations\<close>

subsection \<open>Sharing enquiries\<close>

definition find_rchunk :: "eleaf \<Rightarrow> nat \<Rightarrow> nat option" where
  "find_rchunk leaf target =
     find (\<lambda>i. leaf_rchunk leaf i = target) [0..<leaf_count leaf]"

definition origin_chunk_unique :: "eleaf \<Rightarrow> chunk_t \<Rightarrow> u64 \<Rightarrow> bool" where
  "origin_chunk_unique leaf chunk snapmask =
     (let target = u64_sub chunk (leaf_base_chunk leaf)
      in case find_rchunk leaf target of
           None \<Rightarrow> snapmask = 0
         | Some i \<Rightarrow>
             (let using = share_union (exceptions leaf i)
              in NOT using AND snapmask = 0))"

text \<open>
  The result pairs the returned flag with the value stored through the pointer
  \<open>exception\<close>, which keeps its old value \<open>old\<close> when nothing is stored.
\<close>

definition snapshot_chunk_unique :: "eleaf \<Rightarrow> chunk_t \<Rightarrow> nat \<Rightarrow> chunk_t \<Rightarrow> bool \<times> chunk_t" where
  "snapshot_chunk_unique leaf chunk snapbit old =
     (let bitmask = push_bit snapbit 1;
          target = u64_sub chunk (leaf_base_chunk leaf) mod 2 ^ 32
      in case find_rchunk leaf target of
           None \<Rightarrow> (False, old)
         | Some i \<Rightarrow>
             (case find (\<lambda>p. ex_share p AND bitmask \<noteq> 0) (exceptions leaf i) of
                None \<Rightarrow> (False, old)
              | Some p \<Rightarrow> (ex_share p AND NOT bitmask = 0, ex_chunk p)))"

subsection \<open>Space\<close>

definition leaf_freespace :: "eleaf \<Rightarrow> nat" where
  "leaf_freespace leaf =
     (let maptop = map_addr (leaf_count leaf + 1)
      in u32_sub (emap leaf 0) maptop)"

definition leaf_payload :: "eleaf \<Rightarrow> nat" where
  "leaf_payload leaf =
     (let lower = map_addr (leaf_count leaf) - map_addr 0;
          upper = emap leaf (leaf_count leaf) - emap leaf 0
      in lower + upper)"

subsection \<open>Adding an exception\<close>

text \<open>The code at label \<open>insert\<close>.\<close>

definition leaf_insert :: "eleaf \<Rightarrow> nat \<Rightarrow> nat \<Rightarrow> nat \<Rightarrow> u64 \<Rightarrow> chunk_t \<Rightarrow> eleaf" where
  "leaf_insert leaf excs ins i sharemap exception =
     (let data = memmove (leaf_data leaf) (excs - sizeof_exception) excs (ins - excs);
          ins = ins - sizeof_exception;
          data = data(ins := \<lparr>ex_share = sharemap, ex_chunk = exception\<rparr>)
      in leaf\<lparr>leaf_data := data,
              leaf_map := adjust_offsets (Suc i) (\<lambda>off. off - sizeof_exception) (leaf_map leaf)\<rparr>)"

definition clear_first_share :: "eleaf \<Rightarrow> nat \<Rightarrow> u64 \<Rightarrow> eleaf" where
  "clear_first_share leaf i bitmask =
     (case find (\<lambda>ins. ex_share (leaf_data leaf ins) AND bitmask \<noteq> 0)
             (exc_ptrs (emap leaf i) (emap leaf (Suc i))) of
        None \<Rightarrow> leaf
      | Some ins \<Rightarrow>
          (let p = leaf_data leaf ins
           in leaf\<lparr>leaf_data := (leaf_data leaf)(ins := p\<lparr>ex_share := ex_share p AND NOT bitmask\<rparr>)\<rparr>))"

definition insertion_point :: "eleaf \<Rightarrow> nat \<Rightarrow> nat" where
  "insertion_point leaf target =
     (case find (\<lambda>i. target \<le> leaf_rchunk leaf i) [0..<leaf_count leaf] of
        None \<Rightarrow> leaf_count leaf | Some i \<Rightarrow> i)"

definition add_exception_to_leaf ::
  "eleaf \<Rightarrow> chunk_t \<Rightarrow> chunk_t \<Rightarrow> int \<Rightarrow> u64 \<Rightarrow> errno + eleaf" where
  "add_exception_to_leaf leaf chunk exception snapshot active =
     (let target = u64_sub chunk (leaf_base_chunk leaf) mod 2 ^ 32;
          bitmask = push_bit (nat snapshot) 1;
          excs = emap leaf 0;
          maptop = map_addr (leaf_count leaf + 1);
          free = u32_sub excs maptop;
          i = insertion_point leaf target
      in if i = leaf_count leaf \<or> target < leaf_rchunk leaf i then
           if free < sizeof_exception + sizeof_etree_map then Inl EFULL
           else
             (let ins = emap leaf i;
                  leaf = leaf\<lparr>leaf_map := take i (leaf_map leaf) @
                                \<lparr>map_offset = ins, map_rchunk = target\<rparr> # drop i (leaf_map leaf),
                              leaf_count := leaf_count leaf + 1\<rparr>;
                  sharemap = (if snapshot = -1 then active else bitmask)
              in Inr (leaf_insert leaf excs ins i sharemap exception))
         else if free < sizeof_exception then Inl EFULL
         else if snapshot = -1 then
           (let sharemap = share_union (exceptions leaf i);
                sharemap = NOT sharemap AND active
            in Inr (leaf_insert leaf excs (emap leaf i) i sharemap exception))
         else
           (let leaf = clear_first_share leaf i bitmask;
                sharemap = bitmask
            in Inr (leaf_insert leaf excs (emap leaf i) i sharemap exception)))"

subsection \<open>Splitting and merging\<close>

definition split_leaf :: "eleaf \<Rightarrow> eleaf \<Rightarrow> chunk_t \<times> eleaf \<times> eleaf" where
  "split_leaf leaf leaf2 =
     (let nhead = (leaf_count leaf + 1) div 2;
          ntail = leaf_count leaf - nhead;
          splitpoint = leaf_rchunk leaf nhead + leaf_base_chunk leaf;
          phead = emap leaf 0;
          ptail = emap leaf nhead;
          tailsize = emap leaf (leaf_count leaf) - ptail;
          leaf2' = \<lparr>leaf_magic = leaf_magic leaf, leaf_version = leaf_version leaf,
                    leaf_count = ntail, leaf_base_chunk = leaf_base_chunk leaf,
                    leaf_using_mask = leaf_using_mask leaf,
                    leaf_map = take (ntail + 1) (drop nhead (leaf_map leaf)),
                    leaf_data = memcpy (leaf_data leaf2) ptail (leaf_data leaf) ptail tailsize\<rparr>;
          data = memmove (leaf_data leaf) (phead + tailsize) phead (ptail - phead);
          lmap = adjust_offsets (Suc nhead) (\<lambda>off. off + tailsize) (leaf_map leaf);
          lmap = lmap[nhead := (lmap ! nhead)\<lparr>map_rchunk := 0\<rparr>];
          leaf' = leaf\<lparr>leaf_data := data, leaf_count := nhead,
                       leaf_map := take (Suc nhead) lmap\<rparr>
      in (splitpoint, leaf', leaf2'))"

definition merge_leaves :: "eleaf \<Rightarrow> eleaf \<Rightarrow> eleaf" where
  "merge_leaves leaf leaf2 =
     (let nhead = leaf_count leaf;
          ntail = leaf_count leaf2;
          tailsize = emap leaf2 ntail - emap leaf2 0;
          phead = emap leaf 0;
          ptail = emap leaf nhead;
          data = memmove (leaf_data leaf) (phead - tailsize) phead (ptail - phead);
          lmap = adjust_offsets (Suc nhead) (\<lambda>off. off - tailsize) (leaf_map leaf);
          data = memcpy data (ptail - tailsize) (leaf_data leaf2) (emap leaf2 0) tailsize;
          lmap = take nhead lmap @ take (ntail + 1) (leaf_map leaf2)
      in leaf\<lparr>leaf_data := data, leaf_map := lmap, leaf_count := nhead + ntail\<rparr>)"

definition init_leaf :: "eleaf \<Rightarrow> nat \<Rightarrow> eleaf" where
  "init_leaf leaf block_size =
     leaf\<lparr>leaf_magic := 0x1eaf, leaf_version := 0, leaf_base_chunk := 0, leaf_count := 0,
          leaf_map := [\<lparr>map_offset = block_size, map_rchunk = 0\<rparr>]\<rparr>"


subsection \<open>Removing snapshots\<close>

text \<open>
  \<open>_delete_snapshots_from_leaf\<close> frees the chunk of an exception that no
  snapshot shares any more and may commit the journal after each exception;
  \<open>freex\<close> and \<open>dcheck\<close> stand for these two effects on the rest of the state.
  One step of the inner loop handles the exception at address \<open>p\<close>: \<open>dest\<close> is
  where the last kept exception was moved to.
\<close>

definition delete_step :: "(chunk_t \<Rightarrow> 's \<Rightarrow> 's) \<Rightarrow> ('s \<Rightarrow> 's) \<Rightarrow> u64 \<Rightarrow> nat \<Rightarrow>
    (nat \<Rightarrow> exception) \<times> nat \<times> u64 \<times> 's \<Rightarrow> (nat \<Rightarrow> exception) \<times> nat \<times> u64 \<times> 's" where
  "delete_step freex dcheck snapmask p = (\<lambda>(data, dest, any, s).
     (let share = ex_share (data p);
          any = any OR (share AND snapmask);
          data = data(p := (data p)\<lparr>ex_share := share AND NOT snapmask\<rparr>)
      in if ex_share (data p) \<noteq> 0 then
           (data(dest - sizeof_exception := data p), dest - sizeof_exception, any, dcheck s)
         else (data, dest, any, dcheck (freex (ex_chunk (data p)) s))))"

text \<open>
  The outer loop runs from the last directory entry down to the first; while
  it handles entry \<open>i\<close> the pointer \<open>p\<close> runs down from the old offset of
  entry \<open>i + 1\<close> to that of entry \<open>i\<close>.
\<close>

definition delete_entry :: "(chunk_t \<Rightarrow> 's \<Rightarrow> 's) \<Rightarrow> ('s \<Rightarrow> 's) \<Rightarrow> u64 \<Rightarrow> eleaf \<Rightarrow> nat \<Rightarrow>
    etree_map list \<times> (nat \<Rightarrow> exception) \<times> nat \<times> u64 \<times> 's \<Rightarrow>
    etree_map list \<times> (nat \<Rightarrow> exception) \<times> nat \<times> u64 \<times> 's" where
  "delete_entry freex dcheck snapmask leaf i = (\<lambda>(lmap, st).
     (let st = fold (delete_step freex dcheck snapmask)
                 (rev (exc_ptrs (emap leaf i) (emap leaf (Suc i)))) st;
          dest = fst (snd st)
      in (lmap[i := (lmap ! i)\<lparr>map_offset := dest\<rparr>], st)))"

definition remove_empties :: "nat \<Rightarrow> etree_map list \<Rightarrow> etree_map list" where
  "remove_empties n lmap =
     map ((!) lmap) (filter (\<lambda>i. map_offset (lmap ! i) \<noteq> map_offset (lmap ! Suc i)) [0..<n])
       @ [\<lparr>map_offset = map_offset (lmap ! n), map_rchunk = 0\<rparr>]"

definition delete_snapshots_from_leaf_aux :: "(chunk_t \<Rightarrow> 's \<Rightarrow> 's) \<Rightarrow> ('s \<Rightarrow> 's) \<Rightarrow> u64 \<Rightarrow> eleaf \<Rightarrow> 's \<Rightarrow>
    u64 \<times> eleaf \<times> 's" where
  "delete_snapshots_from_leaf_aux freex dcheck snapmask leaf s =
     (let dest = emap leaf (leaf_count leaf);
          (lmap, data, dest, any, s) =
             fold (delete_entry freex dcheck snapmask leaf) (rev [0..<leaf_count leaf])
               (leaf_map leaf, leaf_data leaf, dest, 0, s);
          lmap = remove_empties (leaf_count leaf) lmap
      in (any, leaf\<lparr>leaf_map := lmap, leaf_data := data, leaf_count := length lmap - 1\<rparr>, s))"

definition delete_snapshots_from_leaf :: "(chunk_t \<Rightarrow> 's \<Rightarrow> 's) \<Rightarrow> ('s \<Rightarrow> 's) \<Rightarrow> u64 \<Rightarrow> eleaf \<Rightarrow> 's \<Rightarrow>
    bool \<times> eleaf \<times> 's" where
  "delete_snapshots_from_leaf freex dcheck snapmask leaf s =
     (let (any, leaf, s) = delete_snapshots_from_leaf_aux freex dcheck snapmask leaf s
      in (any \<noteq> 0, leaf, s))"

text \<open>\<open>check_leaf\<close> prints a message for every exception that still has bits of the mask.\<close>

definition check_leaf :: "eleaf \<Rightarrow> u64 \<Rightarrow> exception list" where
  "check_leaf leaf snapmask =
     filter (\<lambda>p. ex_share p AND snapmask \<noteq> 0)
       (concat (map (exceptions leaf) [0..<leaf_count leaf]))"

section \<open>Well-formed leaves and their meaning\<close>

type_synonym aleaf = "(nat \<times> exception list) list"

definition leaf_abs :: "eleaf \<Rightarrow> aleaf" where
  "leaf_abs leaf = map (\<lambda>i. (leaf_rchunk leaf i, exceptions leaf i)) [0..<leaf_count leaf]"

text \<open>The directory key of a chunk: the code keeps 32 bits of the relative chunk number.\<close>

definition leaf_target :: "eleaf \<Rightarrow> chunk_t \<Rightarrow> nat" where
  "leaf_target leaf chunk = u64_sub chunk (leaf_base_chunk leaf) mod 2 ^ 32"

text \<open>
  The directory is an ascending sequence of offsets whose distances are whole
  numbers of exceptions, ending at the end \<open>bs\<close> of the block.
\<close>

definition leaf_layout :: "nat \<Rightarrow> eleaf \<Rightarrow> bool" where
  "leaf_layout bs leaf \<longleftrightarrow>
     length (leaf_map leaf) = Suc (leaf_count leaf) \<and>
     emap leaf (leaf_count leaf) = bs \<and>
     (\<forall>i<leaf_count leaf. emap leaf i \<le> emap leaf (Suc i) \<and>
        sizeof_exception dvd emap leaf (Suc i) - emap leaf i)"

definition wf_leaf :: "nat \<Rightarrow> eleaf \<Rightarrow> bool" where
  "wf_leaf bs leaf \<longleftrightarrow>
     leaf_layout bs leaf \<and> bs < 2 ^ 32 \<and>
     map_addr (leaf_count leaf + 1) \<le> emap leaf 0 \<and>
     (\<forall>i<leaf_count leaf. emap leaf i \<noteq> emap leaf (Suc i) \<and> leaf_rchunk leaf i < 2 ^ 32) \<and>
     sorted_wrt (<) (map (leaf_rchunk leaf) [0..<leaf_count leaf])"

subsection \<open>Specification on association lists\<close>

text \<open>
  \<open>snap_exception es b\<close> is where snapshot \<open>b\<close> finds a chunk whose exceptions
  are \<open>es\<close>: \<open>None\<close> when it still shares the chunk with the origin.
\<close>

definition aleaf_get :: "aleaf \<Rightarrow> nat \<Rightarrow> exception list" where
  "aleaf_get al k = (case map_of al k of None \<Rightarrow> [] | Some es \<Rightarrow> es)"

definition snap_exception :: "exception list \<Rightarrow> nat \<Rightarrow> chunk_t option" where
  "snap_exception es b = map_option ex_chunk (find (\<lambda>e. bit (ex_share e) b) es)"

definition aleaf_lookup :: "aleaf \<Rightarrow> nat \<Rightarrow> nat \<Rightarrow> chunk_t option" where
  "aleaf_lookup al k b = snap_exception (aleaf_get al k) b"

fun alist_upd :: "nat \<Rightarrow> ('v option \<Rightarrow> 'v) \<Rightarrow> (nat \<times> 'v) list \<Rightarrow> (nat \<times> 'v) list" where
  "alist_upd k f [] = [(k, f None)]"
| "alist_upd k f ((k', v) # xs) =
     (if k' < k then (k', v) # alist_upd k f xs
      else if k' = k then (k, f (Some v)) # xs
      else (k, f None) # (k', v) # xs)"

fun clear_first :: "u64 \<Rightarrow> exception list \<Rightarrow> exception list" where
  "clear_first m [] = []"
| "clear_first m (e # es) =
     (if ex_share e AND m \<noteq> 0 then e\<lparr>ex_share := ex_share e AND NOT m\<rparr> # es
      else e # clear_first m es)"

definition add_spec :: "chunk_t \<Rightarrow> int \<Rightarrow> u64 \<Rightarrow> exception list \<Rightarrow> exception list" where
  "add_spec exception snapshot active es =
     (if snapshot = -1 then
        \<lparr>ex_share = NOT (share_union es) AND active, ex_chunk = exception\<rparr> # es
      else \<lparr>ex_share = push_bit (nat snapshot) 1, ex_chunk = exception\<rparr>
             # clear_first (push_bit (nat snapshot) 1) es)"

definition add_exception_spec :: "nat \<Rightarrow> chunk_t \<Rightarrow> int \<Rightarrow> u64 \<Rightarrow> aleaf \<Rightarrow> aleaf" where
  "add_exception_spec target exception snapshot active =
     alist_upd target (\<lambda>o'. add_spec exception snapshot active (case o' of None \<Rightarrow> [] | Some es \<Rightarrow> es))"

definition delete_spec :: "u64 \<Rightarrow> exception list \<Rightarrow> exception list" where
  "delete_spec m es =
     filter (\<lambda>e. ex_share e \<noteq> 0) (map (\<lambda>e. e\<lparr>ex_share := ex_share e AND NOT m\<rparr>) es)"

definition delete_leaf_spec :: "u64 \<Rightarrow> aleaf \<Rightarrow> aleaf" where
  "delete_leaf_spec m al = filter (\<lambda>(k, es). es \<noteq> []) (map (\<lambda>(k, es). (k, delete_spec m es)) al)"

text \<open>
  The exceptions of one chunk belong to disjoint, non-empty sets of existing
  snapshots.
\<close>

definition wf_shares :: "u64 \<Rightarrow> exception list \<Rightarrow> bool" where
  "wf_shares active es \<longleftrightarrow>
     (\<forall>e\<in>set es. ex_share e \<noteq> 0 \<and> ex_share e AND NOT active = 0) \<and>
     sorted_wrt (\<lambda>e f. ex_share e AND ex_share f = 0) es"

subsection \<open>Layout lemmas\<close>

lemma exc_ptrs_self [simp]: "exc_ptrs a a = []"
  by (simp add: exc_ptrs_def)

lemma exc_ptrs_aligned:
  "16 dvd b - a \<Longrightarrow> exc_ptrs a b = map (\<lambda>k. a + 16 * k) [0..<(b - a) div 16]"
  by (auto simp: exc_ptrs_def elim!: dvdE)

lemma leaf_layout_mono:
  assumes "leaf_layout bs leaf" "i \<le> j" "j \<le> leaf_count leaf"
  shows "emap leaf i \<le> emap leaf j"
  using assms(2,3)
proof (induction j rule: dec_induct)
  case base then show ?case by simp
next
  case (step n)
  then have "emap leaf i \<le> emap leaf n" by simp
  also have "\<dots> \<le> emap leaf (Suc n)" using assms(1) step by (simp add: leaf_layout_def)
  finally show ?case .
qed

lemma leaf_layout_dvd:
  assumes "leaf_layout bs leaf" "i \<le> j" "j \<le> leaf_count leaf"
  shows "16 dvd emap leaf j - emap leaf i"
  using assms(2,3)
proof (induction j rule: dec_induct)
  case base then show ?case by simp
next
  case (step n)
  have "emap leaf i \<le> emap leaf n" using assms(1) step by (simp add: leaf_layout_mono)
  moreover have "emap leaf n \<le> emap leaf (Suc n)" "16 dvd emap leaf (Suc n) - emap leaf n"
    using assms(1) step by (auto simp: leaf_layout_def)
  moreover have "16 dvd emap leaf n - emap leaf i" using step by simp
  ultimately have "16 dvd (emap leaf (Suc n) - emap leaf n) + (emap leaf n - emap leaf i)"
    by (metis dvd_add)
  with \<open>emap leaf i \<le> emap leaf n\<close> \<open>emap leaf n \<le> emap leaf (Suc n)\<close> show ?case by simp
qed

lemma leaf_layout_gap:
  assumes "leaf_layout bs leaf" "i \<le> j" "j \<le> leaf_count leaf"
  obtains n where "emap leaf j = emap leaf i + 16 * n"
proof -
  from leaf_layout_dvd [OF assms] obtain n where "emap leaf j - emap leaf i = 16 * n" ..
  with leaf_layout_mono [OF assms] have "emap leaf j = emap leaf i + 16 * n" by simp
  then show thesis by (rule that)
qed

lemma leaf_layout_Suc:
  assumes "leaf_layout bs leaf" "j < leaf_count leaf"
  shows "\<exists>n. emap leaf (Suc j) = emap leaf j + 16 * n"
  by (rule leaf_layout_gap [OF assms(1), of j "Suc j"]) (use assms(2) in auto)

lemma exceptions_layout:
  assumes "leaf_layout bs leaf" "i < leaf_count leaf"
  shows "exceptions leaf i =
     map (\<lambda>k. leaf_data leaf (emap leaf i + 16 * k)) [0..<(emap leaf (Suc i) - emap leaf i) div 16]"
  using leaf_layout_dvd [OF assms(1), of i "Suc i"] assms(2)
  by (simp add: exceptions_def exc_ptrs_aligned comp_def)


lemma length_exceptions:
  assumes "leaf_layout bs leaf" "i < leaf_count leaf"
  shows "length (exceptions leaf i) = (emap leaf (Suc i) - emap leaf i) div 16"
  by (simp add: exceptions_layout [OF assms])

lemma exceptions_nth:
  assumes "leaf_layout bs leaf" "i < leaf_count leaf" "k < (emap leaf (Suc i) - emap leaf i) div 16"
  shows "exceptions leaf i ! k = leaf_data leaf (emap leaf i + 16 * k)"
  using assms(3) by (simp add: exceptions_layout [OF assms(1,2)])

lemma exceptions_eqI:
  assumes "leaf_layout bs leaf" "i < leaf_count leaf"
    and "length es = (emap leaf (Suc i) - emap leaf i) div 16"
    and "\<And>k. k < length es \<Longrightarrow> leaf_data leaf (emap leaf i + 16 * k) = es ! k"
  shows "exceptions leaf i = es"
  using assms by (auto simp: length_exceptions exceptions_nth intro!: nth_equalityI)

lemma adjust_offsets_length [simp]: "length (adjust_offsets n f ms) = length ms"
  by (simp add: adjust_offsets_def)

lemma adjust_offsets_nth:
  "i < length ms \<Longrightarrow> adjust_offsets n f ms ! i =
     (if i < n then (ms ! i)\<lparr>map_offset := f (map_offset (ms ! i))\<rparr> else ms ! i)"
  by (simp add: adjust_offsets_def nth_append)

subsection \<open>Insertion of an exception\<close>

lemma leaf_insert_simps [simp]:
  "leaf_count (leaf_insert leaf excs ins i sharemap exception) = leaf_count leaf"
  "leaf_base_chunk (leaf_insert leaf excs ins i sharemap exception) = leaf_base_chunk leaf"
  "leaf_magic (leaf_insert leaf excs ins i sharemap exception) = leaf_magic leaf"
  "length (leaf_map (leaf_insert leaf excs ins i sharemap exception)) = length (leaf_map leaf)"
  by (simp_all add: leaf_insert_def Let_def)

lemma leaf_insert_emap:
  "j < length (leaf_map leaf) \<Longrightarrow>
   emap (leaf_insert leaf excs ins i sharemap exception) j =
     (if j \<le> i then emap leaf j - 16 else emap leaf j)"
  by (simp add: leaf_insert_def Let_def emap_def adjust_offsets_nth less_Suc_eq_le)

lemma leaf_insert_rchunk:
  "j < length (leaf_map leaf) \<Longrightarrow>
   leaf_rchunk (leaf_insert leaf excs ins i sharemap exception) j = leaf_rchunk leaf j"
  by (simp add: leaf_insert_def Let_def emap_def adjust_offsets_nth)

lemma leaf_insert_data:
  "leaf_data (leaf_insert leaf excs ins i sharemap exception) a =
     (if a = ins - 16 then \<lparr>ex_share = sharemap, ex_chunk = exception\<rparr>
      else if excs - 16 \<le> a \<and> a < excs - 16 + (ins - excs)
      then leaf_data leaf (a - (excs - 16) + excs) else leaf_data leaf a)"
  by (simp add: leaf_insert_def Let_def memmove_def)

lemma leaf_insert_layout:
  assumes lay: "leaf_layout bs leaf" and i: "i < leaf_count leaf" and room: "16 \<le> emap leaf 0"
  shows "leaf_layout bs (leaf_insert leaf (emap leaf 0) (emap leaf i) i sharemap exception)"
proof -
  have len: "length (leaf_map leaf) = Suc (leaf_count leaf)" using lay by (simp add: leaf_layout_def)
  have lo: "16 \<le> emap leaf j" if "j \<le> leaf_count leaf" for j
    using leaf_layout_mono [OF lay, of 0 j] that room by simp
  have "16 dvd emap leaf (Suc j) - (emap leaf j - 16)" if jc: "j < leaf_count leaf" for j
  proof -
    obtain n where "emap leaf (Suc j) = emap leaf j + 16 * n"
      using leaf_layout_Suc [OF lay jc] by blast
    then have "emap leaf (Suc j) - (emap leaf j - 16) = 16 * Suc n"
      using lo [of j] jc by simp
    then show ?thesis by (metis dvd_triv_left)
  qed
  with lay i lo len show ?thesis
    by (auto simp: leaf_layout_def leaf_insert_emap less_Suc_eq_le diff_le_mono
             intro: le_trans [OF diff_le_self])
qed

lemma leaf_insert_exceptions:
  assumes lay: "leaf_layout bs leaf" and i: "i < leaf_count leaf" and room: "16 \<le> emap leaf 0"
    and j: "j < leaf_count leaf"
  shows "exceptions (leaf_insert leaf (emap leaf 0) (emap leaf i) i sharemap exception) j =
     (if j = i then \<lparr>ex_share = sharemap, ex_chunk = exception\<rparr> # exceptions leaf j
      else exceptions leaf j)"
    (is "exceptions ?leaf' j = ?es")
proof (rule exceptions_eqI)
  show "leaf_layout bs ?leaf'" by (rule leaf_insert_layout [OF lay i room])
  show "j < leaf_count ?leaf'" using j by simp
  have len: "length (leaf_map leaf) = Suc (leaf_count leaf)" using lay by (simp add: leaf_layout_def)
  have mono: "emap leaf a \<le> emap leaf b" if "a \<le> b" "b \<le> leaf_count leaf" for a b
    using that by (rule leaf_layout_mono [OF lay])
  obtain n where n: "emap leaf (Suc j) = emap leaf j + 16 * n"
    using leaf_layout_Suc [OF lay j] by blast
  have lenj: "length (exceptions leaf j) = n" by (simp add: length_exceptions [OF lay j] n)
  have nthj: "exceptions leaf j ! k = leaf_data leaf (emap leaf j + 16 * k)" if "k < n" for k
    using that by (simp add: exceptions_nth [OF lay j] n)
  have lo: "16 \<le> emap leaf 0" "emap leaf 0 \<le> emap leaf j" "emap leaf 0 \<le> emap leaf i"
    using room mono [of 0 j] mono [of 0 i] i j by auto
  show "length ?es = (emap ?leaf' (Suc j) - emap ?leaf' j) div 16"
    using j len n lenj lo by (auto simp: leaf_insert_emap)
  fix k assume k: "k < length ?es"
  consider "j < i" | "j = i" | "i < j" by linarith
  then show "leaf_data ?leaf' (emap ?leaf' j + 16 * k) = ?es ! k"
  proof cases
    case 1
    then have "emap leaf (Suc j) \<le> emap leaf i" using mono [of "Suc j" i] i by simp
    moreover have "Suc k \<le> n" using 1 k lenj by simp
    ultimately have "emap leaf j + 16 * k + 16 \<le> emap leaf i" using n by linarith
    with 1 k lo lenj n nthj len j show ?thesis
      by (auto simp: leaf_insert_emap leaf_insert_data)
  next
    case 2
    with k lo lenj n nthj len j show ?thesis
      by (cases k) (auto simp: leaf_insert_emap leaf_insert_data)
  next
    case 3
    then have "emap leaf i \<le> emap leaf j" using mono [of i j] j by simp
    with 3 k lo lenj n nthj len j show ?thesis
      by (auto simp: leaf_insert_emap leaf_insert_data)
  qed
qed


lemma length_leaf_abs [simp]: "length (leaf_abs leaf) = leaf_count leaf"
  by (simp add: leaf_abs_def)

lemma leaf_abs_nth [simp]:
  "i < leaf_count leaf \<Longrightarrow> leaf_abs leaf ! i = (leaf_rchunk leaf i, exceptions leaf i)"
  by (simp add: leaf_abs_def)

lemma leaf_abs_eqI:
  assumes "leaf_count leaf = length al"
    and "\<And>i. i < length al \<Longrightarrow> leaf_rchunk leaf i = fst (al ! i)"
    and "\<And>i. i < length al \<Longrightarrow> exceptions leaf i = snd (al ! i)"
  shows "leaf_abs leaf = al"
  using assms by (auto intro!: nth_equalityI prod_eqI)

lemma insertion_point_props:
  "insertion_point leaf t \<le> leaf_count leaf"
  "j < insertion_point leaf t \<Longrightarrow> leaf_rchunk leaf j < t"
  "insertion_point leaf t < leaf_count leaf \<Longrightarrow> t \<le> leaf_rchunk leaf (insertion_point leaf t)"
  by (auto simp: insertion_point_def find_None_iff find_Some_iff not_le split: option.splits)

lemma alist_upd_new:
  assumes "i \<le> length xs" "\<And>j. j < i \<Longrightarrow> fst (xs ! j) < k" "i < length xs \<Longrightarrow> k < fst (xs ! i)"
  shows "alist_upd k f xs = take i xs @ (k, f None) # drop i xs"
  using assms
proof (induction xs arbitrary: i)
  case Nil then show ?case by simp
next
  case (Cons x xs)
  obtain k' v where x: "x = (k', v)" by (cases x)
  show ?case
  proof (cases i)
    case 0 then show ?thesis using Cons.prems x by auto
  next
    case (Suc n)
    have "k' < k" using Cons.prems(2) [of 0] Suc x by simp
    moreover have "alist_upd k f xs = take n xs @ (k, f None) # drop n xs"
      using Cons.prems Suc by (intro Cons.IH) force+
    ultimately show ?thesis using Suc x by simp
  qed
qed

lemma alist_upd_old:
  assumes "i < length xs" "\<And>j. j < i \<Longrightarrow> fst (xs ! j) < k" "fst (xs ! i) = k"
  shows "alist_upd k f xs = xs[i := (k, f (Some (snd (xs ! i))))]"
  using assms
proof (induction xs arbitrary: i)
  case Nil then show ?case by simp
next
  case (Cons x xs)
  obtain k' v where x: "x = (k', v)" by (cases x)
  show ?case
  proof (cases i)
    case 0 then show ?thesis using Cons.prems x by auto
  next
    case (Suc n)
    have "k' < k" using Cons.prems(2) [of 0] Suc x by simp
    moreover have "alist_upd k f xs = xs[n := (k, f (Some (snd (xs ! n))))]"
      using Cons.prems Suc by (intro Cons.IH) force+
    ultimately show ?thesis using Suc x by simp
  qed
qed

text \<open>The directory with an empty entry opened at position \<open>i\<close>.\<close>

lemma open_entry:
  fixes leaf i target
  defines "leaf1 \<equiv> leaf\<lparr>leaf_map := take i (leaf_map leaf) @
      \<lparr>map_offset = emap leaf i, map_rchunk = target\<rparr> # drop i (leaf_map leaf),
      leaf_count := leaf_count leaf + 1\<rparr>"
  assumes lay: "leaf_layout bs leaf" and i: "i \<le> leaf_count leaf"
  shows "leaf_layout bs leaf1"
    and "j \<le> leaf_count leaf1 \<Longrightarrow> emap leaf1 j = (if j \<le> i then emap leaf j else emap leaf (j - 1))"
    and "j \<le> leaf_count leaf1 \<Longrightarrow> leaf_rchunk leaf1 j =
      (if j < i then leaf_rchunk leaf j else if j = i then target else leaf_rchunk leaf (j - 1))"
    and "j < leaf_count leaf1 \<Longrightarrow> exceptions leaf1 j =
      (if j < i then exceptions leaf j else if j = i then [] else exceptions leaf (j - 1))"
proof -
  have len: "length (leaf_map leaf) = Suc (leaf_count leaf)" using lay by (simp add: leaf_layout_def)
  have cnt: "leaf_count leaf1 = leaf_count leaf + 1" by (simp add: leaf1_def)
  have nth: "leaf_map leaf1 ! j = (if j < i then leaf_map leaf ! j
      else if j = i then \<lparr>map_offset = emap leaf i, map_rchunk = target\<rparr>
      else leaf_map leaf ! (j - 1))" if "j \<le> leaf_count leaf + 1" for j
    using that i len by (auto simp: leaf1_def nth_append min_def nth_Cons' Suc_diff_Suc diff_diff_eq)
  show em: "emap leaf1 j = (if j \<le> i then emap leaf j else emap leaf (j - 1))"
    if "j \<le> leaf_count leaf1" for j
    using nth [of j] that i by (auto simp: emap_def leaf1_def)
  show "leaf_rchunk leaf1 j =
      (if j < i then leaf_rchunk leaf j else if j = i then target else leaf_rchunk leaf (j - 1))"
    if "j \<le> leaf_count leaf1"
    using nth [of j] that i by (auto simp: leaf1_def)
  show "leaf_layout bs leaf1"
    unfolding leaf_layout_def
  proof (intro conjI allI impI)
    show "length (leaf_map leaf1) = Suc (leaf_count leaf1)" using len i by (simp add: leaf1_def)
    show "emap leaf1 (leaf_count leaf1) = bs"
      using em [of "leaf_count leaf1"] lay i by (simp add: leaf1_def leaf_layout_def)
    fix j assume j: "j < leaf_count leaf1"
    have step: "emap leaf k \<le> emap leaf (Suc k) \<and> 16 dvd emap leaf (Suc k) - emap leaf k"
      if "k < leaf_count leaf" for k using lay that by (simp add: leaf_layout_def)
    consider "j < i" | "j = i" | m where "j = Suc m" "i \<le> m" by (metis Suc_pred linorder_neqE_nat gr_implies_not0 less_Suc_eq_le neq0_conv)
    then have "emap leaf1 j \<le> emap leaf1 (Suc j) \<and> 16 dvd emap leaf1 (Suc j) - emap leaf1 j"
      using em [of j] em [of "Suc j"] j step cnt i by cases auto
    then show "emap leaf1 j \<le> emap leaf1 (Suc j)" "sizeof_exception dvd emap leaf1 (Suc j) - emap leaf1 j"
      by simp_all
  qed
  show "exceptions leaf1 j =
      (if j < i then exceptions leaf j else if j = i then [] else exceptions leaf (j - 1))"
    if "j < leaf_count leaf1"
    using em [of j] em [of "Suc j"] that cnt
    by (cases j) (auto simp: exceptions_def leaf1_def)
qed


lemma fst_leaf_abs: "map fst (leaf_abs leaf) = map (leaf_rchunk leaf) [0..<leaf_count leaf]"
  by (simp add: leaf_abs_def)

lemma alist_upd_keys: "fst ` set (alist_upd k f xs) = insert k (fst ` set xs)"
  by (induction k f xs rule: alist_upd.induct) auto

lemma sorted_alist_upd:
  "sorted_wrt (<) (map fst xs) \<Longrightarrow> sorted_wrt (<) (map fst (alist_upd k f xs))"
proof (induction k f xs rule: alist_upd.induct)
  case (1 k f) then show ?case by simp
next
  case (2 k f k' v xs)
  then show ?case using alist_upd_keys [of k f xs] by (auto simp: image_iff)
qed

lemma map_of_alist_upd:
  "sorted_wrt (<) (map fst xs) \<Longrightarrow>
   map_of (alist_upd k f xs) = (map_of xs)(k \<mapsto> f (map_of xs k))"
proof (induction k f xs rule: alist_upd.induct)
  case (1 k f) then show ?case by simp
next
  case (2 k f k' v xs)
  show ?case
  proof (cases "k < k'")
    case True
    with 2 have "map_of xs k = None" by (force simp: map_of_eq_None_iff)
    with True show ?thesis by (auto simp: fun_eq_iff)
  next
    case False
    with 2 show ?thesis by (auto simp: fun_eq_iff)
  qed
qed

lemma wf_leaf_simps:
  assumes "wf_leaf bs leaf"
  shows "leaf_layout bs leaf" "length (leaf_map leaf) = Suc (leaf_count leaf)"
    "emap leaf (leaf_count leaf) = bs" "bs < 2 ^ 32" "map_addr (leaf_count leaf + 1) \<le> emap leaf 0"
    "sorted_wrt (<) (map fst (leaf_abs leaf))" "16 \<le> emap leaf 0"
  using assms by (auto simp: wf_leaf_def leaf_layout_def fst_leaf_abs map_addr_def)

lemma leaf_freespace_eq:
  assumes "wf_leaf bs leaf"
  shows "leaf_freespace leaf = emap leaf 0 - map_addr (leaf_count leaf + 1)"
proof -
  have "emap leaf 0 \<le> bs"
    using leaf_layout_mono [OF wf_leaf_simps(1) [OF assms], of 0 "leaf_count leaf"]
      wf_leaf_simps(3) [OF assms] by simp
  then show ?thesis
    using wf_leaf_simps(4,5) [OF assms] by (simp add: leaf_freespace_def u32_sub_eq)
qed

text \<open>
  A leaf whose abstraction is sorted and whose entries are not empty is
  well-formed when its directory ends below the exceptions.
\<close>

lemma wf_leafI:
  assumes lay: "leaf_layout bs leaf" and "bs < 2 ^ 32"
    and "map_addr (leaf_count leaf + 1) \<le> emap leaf 0"
    and "sorted_wrt (<) (map fst (leaf_abs leaf))"
    and "\<And>k es. (k, es) \<in> set (leaf_abs leaf) \<Longrightarrow> es \<noteq> [] \<and> k < 2 ^ 32"
  shows "wf_leaf bs leaf"
proof -
  have "emap leaf i \<noteq> emap leaf (Suc i) \<and> leaf_rchunk leaf i < 2 ^ 32" if i: "i < leaf_count leaf" for i
  proof -
    have "(leaf_rchunk leaf i, exceptions leaf i) \<in> set (leaf_abs leaf)"
      using i by (metis leaf_abs_nth length_leaf_abs nth_mem)
    then have "exceptions leaf i \<noteq> [] \<and> leaf_rchunk leaf i < 2 ^ 32" by (rule assms(5))
    then show ?thesis by (auto simp: exceptions_def)
  qed
  with assms show ?thesis by (simp add: wf_leaf_def fst_leaf_abs)
qed

lemma wf_leaf_entry:
  assumes wf: "wf_leaf bs leaf" and "(k, es) \<in> set (leaf_abs leaf)"
  shows "es \<noteq> [] \<and> k < 2 ^ 32"
proof -
  from assms(2) obtain i where i: "i < leaf_count leaf" "k = leaf_rchunk leaf i" "es = exceptions leaf i"
    by (auto simp: leaf_abs_def)
  have lay: "leaf_layout bs leaf" by (rule wf_leaf_simps(1) [OF wf])
  obtain n where n: "emap leaf (Suc i) = emap leaf i + 16 * n" using leaf_layout_Suc [OF lay i(1)] by blast
  have "emap leaf i \<noteq> emap leaf (Suc i)" using wf i(1) by (simp add: wf_leaf_def)
  with n have "length es \<noteq> 0" using i length_exceptions [OF lay i(1)] by simp
  then show ?thesis using wf i by (auto simp: wf_leaf_def)
qed


lemma find_find: "find P (map f xs) = map_option f (find (P \<circ> f) xs)"
  by (induction xs) auto

lemma find_SomeD: "find P xs = Some x \<Longrightarrow> x \<in> set xs \<and> P x"
  by (auto simp: find_Some_iff)

lemma exc_ptrs_distinct: "distinct (exc_ptrs a b)"
  by (simp add: exc_ptrs_def distinct_map inj_on_def)

lemma clear_first_upd:
  "distinct ps \<Longrightarrow>
   clear_first m (map d ps) =
     (case find (\<lambda>p. ex_share (d p) AND m \<noteq> 0) ps of
        None \<Rightarrow> map d ps
      | Some p \<Rightarrow> map (d(p := (d p)\<lparr>ex_share := ex_share (d p) AND NOT m\<rparr>)) ps)"
  by (induction ps) (auto split: option.splits dest: find_SomeD)

lemma exc_ptrs_in:
  assumes "leaf_layout bs leaf" "i < leaf_count leaf" "p \<in> set (exc_ptrs (emap leaf i) (emap leaf (Suc i)))"
  shows "emap leaf i \<le> p \<and> p < emap leaf (Suc i)"
proof -
  obtain n where "emap leaf (Suc i) = emap leaf i + 16 * n" using leaf_layout_Suc [OF assms(1,2)] by blast
  with assms(3) show ?thesis by (auto simp: exc_ptrs_def)
qed

lemma clear_first_share_emap [simp]:
  "emap (clear_first_share leaf i m) j = emap leaf j"
  "leaf_count (clear_first_share leaf i m) = leaf_count leaf"
  "leaf_map (clear_first_share leaf i m) = leaf_map leaf"
  "leaf_base_chunk (clear_first_share leaf i m) = leaf_base_chunk leaf"
  "leaf_layout bs (clear_first_share leaf i m) = leaf_layout bs leaf"
  by (auto simp: clear_first_share_def Let_def emap_def leaf_layout_def split: option.splits)

lemma clear_first_share_exceptions:
  assumes lay: "leaf_layout bs leaf" and "i < leaf_count leaf" "j < leaf_count leaf"
  shows "exceptions (clear_first_share leaf i m) j =
     (if j = i then clear_first m (exceptions leaf j) else exceptions leaf j)"
proof (cases "j = i")
  case True
  then show ?thesis
    using clear_first_upd [OF exc_ptrs_distinct, of m "leaf_data leaf" "emap leaf i" "emap leaf (Suc i)"]
    by (auto simp: exceptions_def clear_first_share_def Let_def emap_def split: option.splits)
next
  case False
  have "p \<notin> set (exc_ptrs (emap leaf j) (emap leaf (Suc j)))"
    if p: "p \<in> set (exc_ptrs (emap leaf i) (emap leaf (Suc i)))" for p
  proof
    assume "p \<in> set (exc_ptrs (emap leaf j) (emap leaf (Suc j)))"
    with p have "emap leaf i \<le> p" "p < emap leaf (Suc i)" "emap leaf j \<le> p" "p < emap leaf (Suc j)"
      using exc_ptrs_in [OF lay] assms(2,3) by blast+
    moreover have "emap leaf (Suc i) \<le> emap leaf j \<or> emap leaf (Suc j) \<le> emap leaf i"
      using leaf_layout_mono [OF lay, of "Suc i" j] leaf_layout_mono [OF lay, of "Suc j" i]
        False assms(2,3) by (cases "i < j") auto
    ultimately show False by linarith
  qed
  with False show ?thesis
    by (auto simp: exceptions_def clear_first_share_def Let_def emap_def find_Some_iff
             split: option.splits)
qed

text \<open>What the two insertions do to the abstract leaf.\<close>

lemma insert_new_entry:
  fixes leaf i target sharemap exception
  defines "leaf' \<equiv> leaf_insert (leaf\<lparr>leaf_map := take i (leaf_map leaf) @
      \<lparr>map_offset = emap leaf i, map_rchunk = target\<rparr> # drop i (leaf_map leaf),
      leaf_count := leaf_count leaf + 1\<rparr>) (emap leaf 0) (emap leaf i) i sharemap exception"
  assumes wf: "wf_leaf bs leaf" and i: "i \<le> leaf_count leaf"
  shows "leaf_layout bs leaf'"
    and "emap leaf' 0 = emap leaf 0 - 16"
    and "leaf_count leaf' = leaf_count leaf + 1"
    and "leaf_abs leaf' = take i (leaf_abs leaf)
           @ (target, [\<lparr>ex_share = sharemap, ex_chunk = exception\<rparr>]) # drop i (leaf_abs leaf)"
proof -
  let ?leaf1 = "leaf\<lparr>leaf_map := take i (leaf_map leaf) @
      \<lparr>map_offset = emap leaf i, map_rchunk = target\<rparr> # drop i (leaf_map leaf),
      leaf_count := leaf_count leaf + 1\<rparr>"
  note lay = wf_leaf_simps(1) [OF wf]
  note o = open_entry [OF lay i, where target = target]
  have cnt: "leaf_count ?leaf1 = leaf_count leaf + 1" by simp
  have e0: "emap ?leaf1 0 = emap leaf 0" and ei: "emap ?leaf1 i = emap leaf i"
    using o(2) [where j = 0] o(2) [where j = i] i by simp_all
  have i1: "i < leaf_count ?leaf1" and room: "16 \<le> emap ?leaf1 0"
    using i wf_leaf_simps(7) [OF wf] e0 by simp_all
  have eq: "leaf' = leaf_insert ?leaf1 (emap ?leaf1 0) (emap ?leaf1 i) i sharemap exception"
    unfolding leaf'_def e0 ei ..
  have len1: "length (leaf_map ?leaf1) = leaf_count leaf + 2"
    using o(1) by (simp add: leaf_layout_def)
  show "leaf_layout bs leaf'" unfolding eq by (rule leaf_insert_layout [OF o(1) i1 room])
  show "emap leaf' 0 = emap leaf 0 - 16"
    unfolding eq using e0 len1 by (simp add: leaf_insert_emap)
  show c: "leaf_count leaf' = leaf_count leaf + 1" by (simp add: eq)
  show "leaf_abs leaf' = take i (leaf_abs leaf)
           @ (target, [\<lparr>ex_share = sharemap, ex_chunk = exception\<rparr>]) # drop i (leaf_abs leaf)"
      (is "_ = ?al")
  proof (rule leaf_abs_eqI)
    show "leaf_count leaf' = length ?al" using c i by simp
    fix j assume "j < length ?al"
    then have j: "j < leaf_count ?leaf1" using i by simp
    have al: "?al ! j = (if j < i then (leaf_rchunk leaf j, exceptions leaf j)
        else if j = i then (target, [\<lparr>ex_share = sharemap, ex_chunk = exception\<rparr>])
        else (leaf_rchunk leaf (j - 1), exceptions leaf (j - 1)))"
      using j i by (auto simp: nth_append min_def nth_Cons')
    show "leaf_rchunk leaf' j = fst (?al ! j)"
      unfolding eq al using leaf_insert_rchunk [of j ?leaf1] o(3) [where j = j] len1 j by simp
    show "exceptions leaf' j = snd (?al ! j)"
      unfolding eq al leaf_insert_exceptions [OF o(1) i1 room j] using o(4) [where j = j] j by (cases "j = i"; simp)
  qed
qed

lemma insert_old_entry:
  fixes leaf i sharemap exception
  assumes lay: "leaf_layout bs leaf" and i: "i < leaf_count leaf" and room: "16 \<le> emap leaf 0"
  defines "leaf' \<equiv> leaf_insert leaf (emap leaf 0) (emap leaf i) i sharemap exception"
  shows "leaf_layout bs leaf'"
    and "emap leaf' 0 = emap leaf 0 - 16"
    and "leaf_abs leaf' = (leaf_abs leaf)[i := (leaf_rchunk leaf i,
           \<lparr>ex_share = sharemap, ex_chunk = exception\<rparr> # exceptions leaf i)]"
proof -
  have len: "length (leaf_map leaf) = Suc (leaf_count leaf)" using lay by (simp add: leaf_layout_def)
  show "leaf_layout bs leaf'" unfolding leaf'_def by (rule leaf_insert_layout [OF lay i room])
  show "emap leaf' 0 = emap leaf 0 - 16" using len by (simp add: leaf'_def leaf_insert_emap)
  show "leaf_abs leaf' = (leaf_abs leaf)[i := (leaf_rchunk leaf i,
           \<lparr>ex_share = sharemap, ex_chunk = exception\<rparr> # exceptions leaf i)]"
    using i len
    by (intro leaf_abs_eqI)
      (auto simp: leaf'_def leaf_insert_rchunk leaf_insert_exceptions [OF lay i room] nth_list_update)
qed


lemma insertion_point_new:
  assumes wf: "wf_leaf bs leaf"
    and "insertion_point leaf t = leaf_count leaf \<or> t < leaf_rchunk leaf (insertion_point leaf t)"
  shows "map_of (leaf_abs leaf) t = None"
    and "alist_upd t f (leaf_abs leaf) = take (insertion_point leaf t) (leaf_abs leaf)
           @ (t, f None) # drop (insertion_point leaf t) (leaf_abs leaf)"
proof -
  let ?i = "insertion_point leaf t"
  have lo: "leaf_rchunk leaf j < t" if "j < ?i" for j using that by (rule insertion_point_props)
  have srt: "leaf_rchunk leaf ?i \<le> leaf_rchunk leaf j" if "?i \<le> j" "j < leaf_count leaf" for j
    using wf_leaf_simps(6) [OF wf] that
    by (cases "j = ?i") (auto simp: fst_leaf_abs sorted_wrt_iff_nth_less intro!: less_imp_le)
  have "leaf_rchunk leaf j \<noteq> t" if "j < leaf_count leaf" for j
    using lo [of j] srt [of j] assms(2) that by (cases "j < ?i") auto
  then have "t \<notin> fst ` set (leaf_abs leaf)" by (fastforce simp: leaf_abs_def)
  then show "map_of (leaf_abs leaf) t = None" by (simp add: map_of_eq_None_iff)
  show "alist_upd t f (leaf_abs leaf) = take ?i (leaf_abs leaf) @ (t, f None) # drop ?i (leaf_abs leaf)"
    using insertion_point_props [where leaf = leaf and t = t] assms(2) by (intro alist_upd_new) auto
qed

lemma insertion_point_old:
  assumes wf: "wf_leaf bs leaf"
    and i: "\<not> (insertion_point leaf t = leaf_count leaf \<or> t < leaf_rchunk leaf (insertion_point leaf t))"
  shows "insertion_point leaf t < leaf_count leaf" "leaf_rchunk leaf (insertion_point leaf t) = t"
    and "map_of (leaf_abs leaf) t = Some (exceptions leaf (insertion_point leaf t))"
    and "alist_upd t f (leaf_abs leaf) =
      (leaf_abs leaf)[insertion_point leaf t := (t, f (Some (exceptions leaf (insertion_point leaf t))))]"
proof -
  let ?i = "insertion_point leaf t"
  show ic: "?i < leaf_count leaf" using insertion_point_props(1) [of leaf t] i by simp
  show key: "leaf_rchunk leaf ?i = t" using insertion_point_props(3) [OF ic] i by simp
  have "distinct (map fst (leaf_abs leaf))"
    using wf_leaf_simps(6) [OF wf] by (simp add: strict_sorted_iff)
  moreover have "(t, exceptions leaf ?i) \<in> set (leaf_abs leaf)"
    using ic key by (metis leaf_abs_nth length_leaf_abs nth_mem)
  ultimately show "map_of (leaf_abs leaf) t = Some (exceptions leaf ?i)" by simp
  show "alist_upd t f (leaf_abs leaf) = (leaf_abs leaf)[?i := (t, f (Some (exceptions leaf ?i)))]"
    using insertion_point_props(2) [of _ leaf t] ic key by (subst alist_upd_old [of ?i]) auto
qed


lemma add_spec_not_Nil [simp]: "add_spec exception snapshot active es \<noteq> []"
  by (simp add: add_spec_def)

lemma add_spec_Nil:
  "add_spec exception snapshot active [] =
     [\<lparr>ex_share = if snapshot = -1 then active else push_bit (nat snapshot) 1, ex_chunk = exception\<rparr>]"
  by (simp add: add_spec_def share_union_def)

lemma set_alist_upd:
  "(k', v) \<in> set (alist_upd k f xs) \<Longrightarrow> (k' = k \<and> (\<exists>v'. v = f v')) \<or> (k', v) \<in> set xs"
  by (induction k f xs rule: alist_upd.induct) (auto split: if_splits)

lemma add_exception_wf:
  assumes wf: "wf_leaf bs leaf" and lay: "leaf_layout bs leaf'"
    and "map_addr (leaf_count leaf' + 1) \<le> emap leaf' 0"
    and abs: "leaf_abs leaf' = add_exception_spec t exception snapshot active (leaf_abs leaf)"
    and t: "t < 2 ^ 32"
  shows "wf_leaf bs leaf'"
proof (rule wf_leafI [OF lay _ assms(3)])
  show "bs < 2 ^ 32" by (rule wf_leaf_simps(4) [OF wf])
  show "sorted_wrt (<) (map fst (leaf_abs leaf'))"
    unfolding abs add_exception_spec_def by (rule sorted_alist_upd [OF wf_leaf_simps(6) [OF wf]])
  fix k es assume "(k, es) \<in> set (leaf_abs leaf')"
  from set_alist_upd [OF this [unfolded abs add_exception_spec_def]] show "es \<noteq> [] \<and> k < 2 ^ 32"
    using t wf_leaf_entry [OF wf] by auto
qed

text \<open>The bytes an exception for a chunk takes: a directory entry too when the chunk is new.\<close>

definition leaf_need :: "eleaf \<Rightarrow> chunk_t \<Rightarrow> nat" where
  "leaf_need leaf chunk =
     (if map_of (leaf_abs leaf) (leaf_target leaf chunk) = None
      then sizeof_exception + sizeof_etree_map else sizeof_exception)"

lemma add_exception_to_leaf_full:
  assumes wf: "wf_leaf bs leaf"
  shows "leaf_freespace leaf < leaf_need leaf chunk \<longleftrightarrow>
    add_exception_to_leaf leaf chunk exception snapshot active = Inl EFULL"
  using insertion_point_new(1) [OF wf, of "leaf_target leaf chunk"]
    insertion_point_old(3) [OF wf, of "leaf_target leaf chunk"]
  by (auto simp: add_exception_to_leaf_def leaf_need_def leaf_freespace_def Let_def leaf_target_def
           split: if_splits)

lemma add_exception_to_leaf_ok:
  assumes wf: "wf_leaf bs leaf" and room: "leaf_need leaf chunk \<le> leaf_freespace leaf"
  shows "\<exists>leaf'. add_exception_to_leaf leaf chunk exception snapshot active = Inr leaf' \<and>
    wf_leaf bs leaf' \<and> leaf_base_chunk leaf' = leaf_base_chunk leaf \<and>
    leaf_abs leaf' =
      add_exception_spec (leaf_target leaf chunk) exception snapshot active (leaf_abs leaf) \<and>
    leaf_freespace leaf' = leaf_freespace leaf - leaf_need leaf chunk"
proof -
  let ?t = "leaf_target leaf chunk" and ?i = "insertion_point leaf (leaf_target leaf chunk)"
  have t: "?t < 2 ^ 32" by (simp add: leaf_target_def)
  have fs: "leaf_freespace leaf = emap leaf 0 - map_addr (leaf_count leaf + 1)"
    by (rule leaf_freespace_eq [OF wf])
  have le: "map_addr (leaf_count leaf + 1) \<le> emap leaf 0" by (rule wf_leaf_simps(5) [OF wf])
  show ?thesis
  proof (cases "?i = leaf_count leaf \<or> ?t < leaf_rchunk leaf ?i")
    case True
    let ?sm = "if snapshot = -1 then active else push_bit (nat snapshot) 1"
    let ?leaf' = "leaf_insert (leaf\<lparr>leaf_map := take ?i (leaf_map leaf) @
        \<lparr>map_offset = emap leaf ?i, map_rchunk = ?t\<rparr> # drop ?i (leaf_map leaf),
        leaf_count := leaf_count leaf + 1\<rparr>) (emap leaf 0) (emap leaf ?i) ?i ?sm exception"
    note n = insert_new_entry [OF wf insertion_point_props(1), where target = ?t]
    have need: "leaf_need leaf chunk = 24"
      using insertion_point_new(1) [OF wf True] by (simp add: leaf_need_def)
    have abs: "leaf_abs ?leaf' = add_exception_spec ?t exception snapshot active (leaf_abs leaf)"
      unfolding n(4) add_exception_spec_def insertion_point_new(2) [OF wf True] by (simp add: add_spec_Nil)
    have top: "map_addr (leaf_count ?leaf' + 1) \<le> emap ?leaf' 0"
      using room need fs unfolding n(2,3) by (simp add: map_addr_def)
    have wf': "wf_leaf bs ?leaf'" by (rule add_exception_wf [OF wf n(1) top abs t])
    have "add_exception_to_leaf leaf chunk exception snapshot active = Inr ?leaf'"
      using True room need fs
      by (simp add: add_exception_to_leaf_def leaf_freespace_def leaf_target_def Let_def)
    moreover have "leaf_freespace ?leaf' = leaf_freespace leaf - leaf_need leaf chunk"
      unfolding leaf_freespace_eq [OF wf'] need fs n(2,3) by (simp add: map_addr_def)
    ultimately show ?thesis using wf' abs by simp
  next
    case False
    note o = insertion_point_old [OF wf False]
    let ?m = "push_bit (nat snapshot) 1"
    let ?leaf1 = "if snapshot = -1 then leaf else clear_first_share leaf ?i ?m"
    let ?sm = "if snapshot = -1 then NOT (share_union (exceptions leaf ?i)) AND active else ?m"
    let ?leaf' = "leaf_insert ?leaf1 (emap ?leaf1 0) (emap ?leaf1 ?i) ?i ?sm exception"
    have l1: "leaf_layout bs ?leaf1" "?i < leaf_count ?leaf1" "16 \<le> emap ?leaf1 0"
      using wf_leaf_simps(1,7) [OF wf] o(1) by auto
    note n = insert_old_entry [OF l1]
    have need: "leaf_need leaf chunk = 16" using o(3) by (simp add: leaf_need_def)
    have ex1: "exceptions ?leaf1 j = (if j = ?i \<and> snapshot \<noteq> -1
        then clear_first ?m (exceptions leaf j) else exceptions leaf j)" if "j < leaf_count leaf" for j
      using clear_first_share_exceptions [OF wf_leaf_simps(1) [OF wf] o(1) that, of ?m] by auto
    have abs1: "leaf_abs ?leaf1 = (leaf_abs leaf)[?i := (?t, exceptions ?leaf1 ?i)]"
      using ex1 o(1,2) by (intro leaf_abs_eqI) (auto simp: nth_list_update)
    have rc: "leaf_rchunk ?leaf1 ?i = ?t" using o(2) by simp
    have abs: "leaf_abs ?leaf' = add_exception_spec ?t exception snapshot active (leaf_abs leaf)"
      unfolding n(3) abs1 rc add_exception_spec_def o(4) using ex1 [OF o(1)]
      by (auto simp: add_spec_def)
    have cnt: "leaf_count ?leaf' = leaf_count leaf" "emap ?leaf' 0 = emap leaf 0 - 16"
      using n(2) by auto
    have top: "map_addr (leaf_count ?leaf' + 1) \<le> emap ?leaf' 0"
      unfolding cnt using room need fs by (simp add: map_addr_def)
    have wf': "wf_leaf bs ?leaf'" by (rule add_exception_wf [OF wf n(1) top abs t])
    have "add_exception_to_leaf leaf chunk exception snapshot active = Inr ?leaf'"
      using False room need fs
      by (simp add: add_exception_to_leaf_def leaf_freespace_def leaf_target_def Let_def)
    moreover have "leaf_freespace ?leaf' = leaf_freespace leaf - leaf_need leaf chunk"
      unfolding leaf_freespace_eq [OF wf'] need fs cnt by simp
    ultimately show ?thesis using wf' abs by simp
  qed
qed

end
