(* ===== verification/Leaf_Split.thy ===== *)
theory Leaf_Split
  imports Leaf
begin

text \<open>
  Splitting a leaf at its middle directory entry and merging a leaf into its
  predecessor (\<open>split_leaf\<close> and \<open>merge_leaves\<close> of \<open>src/ddsnap/ddsnapd.c\<close>) on
  the block layout of theory Leaf: a split cuts the association list of the
  leaf in two, a merge appends two such lists, and the free space of the
  results is what the cut or the append leaves.
\<close>

section \<open>Splitting\<close>

definition split_head :: "eleaf \<Rightarrow> nat" where
  "split_head leaf = (leaf_count leaf + 1) div 2"

lemma split_head_le: "split_head leaf \<le> leaf_count leaf"
  by (simp add: split_head_def)

lemma split_head_pos: "0 < leaf_count leaf \<Longrightarrow> 0 < split_head leaf"
  by (simp add: split_head_def)

lemma split_leaf_eq:
  assumes "split_leaf leaf leaf2 = (splitpoint, leaf', leaf2')"
  shows "splitpoint = leaf_rchunk leaf (split_head leaf) + leaf_base_chunk leaf"
    and "leaf_count leaf' = split_head leaf"
    and "leaf_count leaf2' = leaf_count leaf - split_head leaf"
    and "leaf_base_chunk leaf' = leaf_base_chunk leaf"
    and "leaf_base_chunk leaf2' = leaf_base_chunk leaf"
    and "leaf_magic leaf' = leaf_magic leaf"
    and "leaf_magic leaf2' = leaf_magic leaf"
  using assms by (auto simp: split_leaf_def Let_def split_head_def)

lemma split_leaf_head:
  assumes sp: "split_leaf leaf leaf2 = (splitpoint, leaf', leaf2')" and lay: "leaf_layout bs leaf"
  shows "leaf_layout bs leaf'"
    and "j \<le> split_head leaf \<Longrightarrow>
      emap leaf' j = emap leaf j + (emap leaf (leaf_count leaf) - emap leaf (split_head leaf))"
    and "j < split_head leaf \<Longrightarrow> leaf_rchunk leaf' j = leaf_rchunk leaf j"
    and "j < split_head leaf \<Longrightarrow> exceptions leaf' j = exceptions leaf j"
proof -
  let ?h = "split_head leaf"
  let ?ts = "emap leaf (leaf_count leaf) - emap leaf ?h"
  have len: "length (leaf_map leaf) = Suc (leaf_count leaf)" using lay by (simp add: leaf_layout_def)
  have h: "?h \<le> leaf_count leaf" by (rule split_head_le)
  have mono: "emap leaf a \<le> emap leaf b" if "a \<le> b" "b \<le> leaf_count leaf" for a b
    using that by (rule leaf_layout_mono [OF lay])
  have cnt: "leaf_count leaf' = ?h" by (rule split_leaf_eq(2) [OF sp])
  show em: "emap leaf' j = emap leaf j + ?ts" if "j \<le> ?h" for j
    using sp that h len
    by (auto simp: split_leaf_def Let_def split_head_def emap_def adjust_offsets_nth nth_list_update)
  show "leaf_rchunk leaf' j = leaf_rchunk leaf j" if "j < ?h"
    using sp that h len
    by (auto simp: split_leaf_def Let_def split_head_def emap_def adjust_offsets_nth nth_list_update)
  have dt: "leaf_data leaf' a = (if emap leaf 0 + ?ts \<le> a \<and> a < emap leaf 0 + ?ts + (emap leaf ?h - emap leaf 0)
      then leaf_data leaf (a - (emap leaf 0 + ?ts) + emap leaf 0) else leaf_data leaf a)" for a
    using sp by (auto simp: split_leaf_def Let_def split_head_def memmove_def)
  show lay': "leaf_layout bs leaf'"
    unfolding leaf_layout_def cnt
  proof (intro conjI allI impI)
    show "length (leaf_map leaf') = Suc ?h"
      using sp len h by (auto simp: split_leaf_def Let_def split_head_def)
    show "emap leaf' ?h = bs"
      using em [of ?h] mono [of ?h "leaf_count leaf"] h lay by (simp add: leaf_layout_def)
    fix j assume "j < ?h"
    then show "emap leaf' j \<le> emap leaf' (Suc j)" "sizeof_exception dvd emap leaf' (Suc j) - emap leaf' j"
      using em [of j] em [of "Suc j"] h lay by (auto simp: leaf_layout_def)
  qed
  show "exceptions leaf' j = exceptions leaf j" if j: "j < ?h"
  proof (rule exceptions_eqI [OF lay'])
    have jc: "j < leaf_count leaf" using j h by simp
    obtain n where n: "emap leaf (Suc j) = emap leaf j + 16 * n" using leaf_layout_Suc [OF lay jc] by blast
    show "j < leaf_count leaf'" using j cnt by simp
    show "length (exceptions leaf j) = (emap leaf' (Suc j) - emap leaf' j) div 16"
      using em [of j] em [of "Suc j"] j by (simp add: length_exceptions [OF lay jc])
    fix k assume "k < length (exceptions leaf j)"
    then have k: "k < n" by (simp add: length_exceptions [OF lay jc] n)
    have "Suc k \<le> n" using k by simp
    then have "emap leaf j + 16 * k < emap leaf ?h" "emap leaf 0 \<le> emap leaf j"
      using n mono [of "Suc j" ?h] mono [of 0 j] j h by auto
    then show "leaf_data leaf' (emap leaf' j + 16 * k) = exceptions leaf j ! k"
      using em [of j] j k n by (auto simp: dt exceptions_nth [OF lay jc])
  qed
qed

lemma split_leaf_tail:
  assumes sp: "split_leaf leaf leaf2 = (splitpoint, leaf', leaf2')" and lay: "leaf_layout bs leaf"
  shows "leaf_layout bs leaf2'"
    and "j \<le> leaf_count leaf - split_head leaf \<Longrightarrow> emap leaf2' j = emap leaf (split_head leaf + j)"
    and "j < leaf_count leaf - split_head leaf \<Longrightarrow> leaf_rchunk leaf2' j = leaf_rchunk leaf (split_head leaf + j)"
    and "j < leaf_count leaf - split_head leaf \<Longrightarrow> exceptions leaf2' j = exceptions leaf (split_head leaf + j)"
proof -
  let ?h = "split_head leaf" and ?n = "leaf_count leaf - split_head leaf"
  have len: "length (leaf_map leaf) = Suc (leaf_count leaf)" using lay by (simp add: leaf_layout_def)
  have h: "?h \<le> leaf_count leaf" by (rule split_head_le)
  have mono: "emap leaf a \<le> emap leaf b" if "a \<le> b" "b \<le> leaf_count leaf" for a b
    using that by (rule leaf_layout_mono [OF lay])
  have cnt: "leaf_count leaf2' = ?n" by (rule split_leaf_eq(3) [OF sp])
  have mp: "leaf_map leaf2' = take (?n + 1) (drop ?h (leaf_map leaf))"
    using sp by (auto simp: split_leaf_def Let_def split_head_def)
  show em: "emap leaf2' j = emap leaf (?h + j)" if "j \<le> ?n" for j
    using that h len by (simp add: mp emap_def)
  show "leaf_rchunk leaf2' j = leaf_rchunk leaf (?h + j)" if "j < ?n"
    using that h len by (simp add: mp)
  have dt: "leaf_data leaf2' a = leaf_data leaf a" if "emap leaf ?h \<le> a" "a < emap leaf (leaf_count leaf)" for a
    using sp that by (auto simp: split_leaf_def Let_def split_head_def memcpy_def)
  show lay': "leaf_layout bs leaf2'"
    unfolding leaf_layout_def cnt
  proof (intro conjI allI impI)
    show "length (leaf_map leaf2') = Suc ?n" using len h by (simp add: mp)
    show "emap leaf2' ?n = bs" using em [of ?n] h lay by (simp add: leaf_layout_def)
    fix j assume "j < ?n"
    then show "emap leaf2' j \<le> emap leaf2' (Suc j)" "sizeof_exception dvd emap leaf2' (Suc j) - emap leaf2' j"
      using em [of j] em [of "Suc j"] h lay by (auto simp: leaf_layout_def)
  qed
  show "exceptions leaf2' j = exceptions leaf (?h + j)" if j: "j < ?n"
  proof (rule exceptions_eqI [OF lay'])
    have jc: "?h + j < leaf_count leaf" using j h by simp
    obtain n where n: "emap leaf (Suc (?h + j)) = emap leaf (?h + j) + 16 * n"
      using leaf_layout_Suc [OF lay jc] by blast
    show "j < leaf_count leaf2'" using j cnt by simp
    show "length (exceptions leaf (?h + j)) = (emap leaf2' (Suc j) - emap leaf2' j) div 16"
      using em [of j] em [of "Suc j"] j by (simp add: length_exceptions [OF lay jc])
    fix k assume "k < length (exceptions leaf (?h + j))"
    then have k: "k < n" by (simp add: length_exceptions [OF lay jc] n)
    have "emap leaf ?h \<le> emap leaf (?h + j)" "emap leaf (Suc (?h + j)) \<le> emap leaf (leaf_count leaf)"
      using mono [of ?h "?h + j"] mono [of "Suc (?h + j)" "leaf_count leaf"] jc by auto
    then show "leaf_data leaf2' (emap leaf2' j + 16 * k) = exceptions leaf (?h + j) ! k"
      using em [of j] j k n by (simp add: dt exceptions_nth [OF lay jc])
  qed
qed

lemma split_leaf_abs:
  assumes sp: "split_leaf leaf leaf2 = (splitpoint, leaf', leaf2')" and lay: "leaf_layout bs leaf"
  shows "leaf_abs leaf' = take (split_head leaf) (leaf_abs leaf)"
    and "leaf_abs leaf2' = drop (split_head leaf) (leaf_abs leaf)"
proof -
  have h: "split_head leaf \<le> leaf_count leaf" by (rule split_head_le)
  show "leaf_abs leaf' = take (split_head leaf) (leaf_abs leaf)"
    using split_leaf_eq(2) [OF sp] split_leaf_head(3,4) [OF sp lay] h
    by (intro leaf_abs_eqI) auto
  show "leaf_abs leaf2' = drop (split_head leaf) (leaf_abs leaf)"
    using split_leaf_eq(3) [OF sp] split_leaf_tail(3,4) [OF sp lay] h
    by (intro leaf_abs_eqI) auto
qed

lemma split_leaf_wf:
  assumes sp: "split_leaf leaf leaf2 = (splitpoint, leaf', leaf2')" and wf: "wf_leaf bs leaf"
  shows "wf_leaf bs leaf'" "wf_leaf bs leaf2'"
    and "leaf_freespace leaf' = leaf_freespace leaf + leaf_payload leaf2'"
    and "leaf_freespace leaf2' = leaf_freespace leaf + leaf_payload leaf'"
proof -
  let ?h = "split_head leaf"
  note lay = wf_leaf_simps(1) [OF wf] and top = wf_leaf_simps(5) [OF wf]
  note abs = split_leaf_abs [OF sp lay] and eqs = split_leaf_eq [OF sp]
  have h: "?h \<le> leaf_count leaf" by (rule split_head_le)
  have mono: "emap leaf a \<le> emap leaf b" if "a \<le> b" "b \<le> leaf_count leaf" for a b
    using that by (rule leaf_layout_mono [OF lay])
  have m: "emap leaf 0 \<le> emap leaf ?h" "emap leaf ?h \<le> emap leaf (leaf_count leaf)"
    using mono h by auto
  have e: "emap leaf' 0 = emap leaf 0 + (emap leaf (leaf_count leaf) - emap leaf ?h)"
    "emap leaf' ?h = emap leaf (leaf_count leaf)"
    "emap leaf2' 0 = emap leaf ?h" "emap leaf2' (leaf_count leaf - ?h) = emap leaf (leaf_count leaf)"
    using split_leaf_head(2) [OF sp lay, of 0] split_leaf_head(2) [OF sp lay, of ?h]
      split_leaf_tail(2) [OF sp lay, of 0] split_leaf_tail(2) [OF sp lay, of "leaf_count leaf - ?h"] h m
    by simp_all
  have srt: "sorted_wrt (<) (map fst (leaf_abs leaf))" by (rule wf_leaf_simps(6) [OF wf])
  show wf1: "wf_leaf bs leaf'"
  proof (rule wf_leafI [OF split_leaf_head(1) [OF sp lay] wf_leaf_simps(4) [OF wf]])
    show "map_addr (leaf_count leaf' + 1) \<le> emap leaf' 0"
      using top h by (simp add: e eqs map_addr_def)
    show "sorted_wrt (<) (map fst (leaf_abs leaf'))"
      unfolding abs take_map [symmetric] using srt by (rule sorted_wrt_take)
    show "es \<noteq> [] \<and> k < 2 ^ 32" if "(k, es) \<in> set (leaf_abs leaf')" for k es
      using that wf_leaf_entry [OF wf] unfolding abs by (blast dest: in_set_takeD)
  qed
  show wf2: "wf_leaf bs leaf2'"
  proof (rule wf_leafI [OF split_leaf_tail(1) [OF sp lay] wf_leaf_simps(4) [OF wf]])
    show "map_addr (leaf_count leaf2' + 1) \<le> emap leaf2' 0"
      using top h m by (simp add: e eqs map_addr_def)
    show "sorted_wrt (<) (map fst (leaf_abs leaf2'))"
      unfolding abs drop_map [symmetric] using srt by (rule sorted_wrt_drop)
    show "es \<noteq> [] \<and> k < 2 ^ 32" if "(k, es) \<in> set (leaf_abs leaf2')" for k es
      using that wf_leaf_entry [OF wf] unfolding abs by (blast dest: in_set_dropD)
  qed
  show "leaf_freespace leaf' = leaf_freespace leaf + leaf_payload leaf2'"
    "leaf_freespace leaf2' = leaf_freespace leaf + leaf_payload leaf'"
    unfolding leaf_freespace_eq [OF wf1] leaf_freespace_eq [OF wf2] leaf_freespace_eq [OF wf]
    using top h m by (simp_all add: leaf_payload_def e eqs map_addr_def)
qed

section \<open>Merging\<close>

lemma merge_leaves_layout:
  fixes leaf leaf2
  defines "m \<equiv> merge_leaves leaf leaf2"
  assumes lay: "leaf_layout bs leaf" and lay2: "leaf_layout bs leaf2"
    and room: "emap leaf2 (leaf_count leaf2) - emap leaf2 0 \<le> emap leaf 0"
  shows "leaf_layout bs m"
    and "leaf_count m = leaf_count leaf + leaf_count leaf2"
    and "emap m 0 = emap leaf 0 - (emap leaf2 (leaf_count leaf2) - emap leaf2 0)"
    and "leaf_abs m = leaf_abs leaf @ leaf_abs leaf2"
proof -
  let ?n = "leaf_count leaf" and ?n2 = "leaf_count leaf2"
  let ?ts = "emap leaf2 ?n2 - emap leaf2 0"
  have len: "length (leaf_map leaf) = Suc ?n" "length (leaf_map leaf2) = Suc ?n2"
    and bs: "emap leaf ?n = bs" "emap leaf2 ?n2 = bs"
    using lay lay2 by (auto simp: leaf_layout_def)
  have mono: "emap leaf a \<le> emap leaf b" if "a \<le> b" "b \<le> ?n" for a b
    using that by (rule leaf_layout_mono [OF lay])
  have mono2: "emap leaf2 a \<le> emap leaf2 b" if "a \<le> b" "b \<le> ?n2" for a b
    using that by (rule leaf_layout_mono [OF lay2])
  have ts: "emap leaf2 0 = bs - ?ts" "?ts \<le> bs" using mono2 [of 0 ?n2] bs by auto
  show cnt: "leaf_count m = ?n + ?n2" by (simp add: m_def merge_leaves_def Let_def)
  have mp: "leaf_map m = take ?n (adjust_offsets (Suc ?n) (\<lambda>off. off - ?ts) (leaf_map leaf))
       @ leaf_map leaf2"
    using len by (simp add: m_def merge_leaves_def Let_def)
  have em1: "emap m j = emap leaf j - ?ts" if "j < ?n" for j
    using that len by (simp add: mp emap_def nth_append adjust_offsets_nth)
  have em2: "emap m (?n + j) = emap leaf2 j" for j
    using len by (simp add: mp emap_def nth_append)
  have em2': "emap m j = emap leaf2 (j - ?n)" if "?n \<le> j" for j using em2 [of "j - ?n"] that by simp
  have emS: "emap m (Suc j) = emap leaf (Suc j) - ?ts" if "j < ?n" for j
    using em1 [of "Suc j"] em2' [of "Suc j"] that bs ts by (cases "Suc j = ?n") auto
  show e0: "emap m 0 = emap leaf 0 - ?ts"
    using em1 [of 0] em2 [of 0] bs ts by (cases "?n = 0") auto
  have dt: "leaf_data m a = (if bs - ?ts \<le> a \<and> a < bs then leaf_data leaf2 a
      else if emap leaf 0 - ?ts \<le> a \<and> a < emap leaf 0 - ?ts + (bs - emap leaf 0)
      then leaf_data leaf (a - (emap leaf 0 - ?ts) + emap leaf 0) else leaf_data leaf a)" for a
    using bs ts by (auto simp: m_def merge_leaves_def Let_def memcpy_def memmove_def)
  have ge: "?ts \<le> emap leaf j" if "j \<le> ?n" for j using room mono [of 0 j] that by simp
  show lay': "leaf_layout bs m"
    unfolding leaf_layout_def cnt
  proof (intro conjI allI impI)
    show "length (leaf_map m) = Suc (?n + ?n2)" using len by (simp add: mp)
    show "emap m (?n + ?n2) = bs" using em2 [of ?n2] bs by simp
    fix j assume j: "j < ?n + ?n2"
    have "emap m j \<le> emap m (Suc j) \<and> 16 dvd emap m (Suc j) - emap m j"
    proof (cases "j < ?n")
      case True
      then show ?thesis
        using em1 [OF True] emS [OF True] mono [of j "Suc j"] leaf_layout_dvd [OF lay, of j "Suc j"] ge [of j]
        by simp
    next
      case False
      then show ?thesis
        using em2' [of j] em2' [of "Suc j"] j mono2 [of "j - ?n" "Suc (j - ?n)"]
          leaf_layout_dvd [OF lay2, of "j - ?n" "Suc (j - ?n)"] by (simp add: Suc_diff_le)
    qed
    then show "emap m j \<le> emap m (Suc j)" "sizeof_exception dvd emap m (Suc j) - emap m j" by simp_all
  qed
  have ex1: "exceptions m j = exceptions leaf j" if j: "j < ?n" for j
  proof (rule exceptions_eqI [OF lay'])
    obtain n where n: "emap leaf (Suc j) = emap leaf j + 16 * n" using leaf_layout_Suc [OF lay j] by blast
    show "j < leaf_count m" using j cnt by simp
    show "length (exceptions leaf j) = (emap m (Suc j) - emap m j) div 16"
      using em1 [OF j] emS [OF j] ge [of j] j n by (simp add: length_exceptions [OF lay j])
    fix k assume "k < length (exceptions leaf j)"
    then have k: "k < n" by (simp add: length_exceptions [OF lay j] n)
    then have "Suc k \<le> n" by simp
    then have "emap leaf j + 16 * k < bs" "emap leaf 0 \<le> emap leaf j"
      using n mono [of "Suc j" ?n] mono [of 0 j] j bs by auto
    then show "leaf_data m (emap m j + 16 * k) = exceptions leaf j ! k"
      using em1 [OF j] k n ge [of j] ge [of 0] j by (auto simp: dt exceptions_nth [OF lay j])
  qed
  have ex2: "exceptions m (?n + j) = exceptions leaf2 j" if j: "j < ?n2" for j
  proof (rule exceptions_eqI [OF lay'])
    obtain n where n: "emap leaf2 (Suc j) = emap leaf2 j + 16 * n" using leaf_layout_Suc [OF lay2 j] by blast
    show "?n + j < leaf_count m" using j cnt by simp
    show "length (exceptions leaf2 j) = (emap m (Suc (?n + j)) - emap m (?n + j)) div 16"
      using em2 [of j] em2 [of "Suc j"] by (simp add: length_exceptions [OF lay2 j])
    fix k assume "k < length (exceptions leaf2 j)"
    then have k: "k < n" by (simp add: length_exceptions [OF lay2 j] n)
    then have "emap leaf2 j + 16 * k < bs" "bs - ?ts \<le> emap leaf2 j"
      using n mono2 [of "Suc j" ?n2] mono2 [of 0 j] j bs ts by auto
    then show "leaf_data m (emap m (?n + j) + 16 * k) = exceptions leaf2 j ! k"
      using em2 [of j] k n by (auto simp: dt exceptions_nth [OF lay2 j])
  qed
  show "leaf_abs m = leaf_abs leaf @ leaf_abs leaf2"
  proof (rule leaf_abs_eqI)
    show "leaf_count m = length (leaf_abs leaf @ leaf_abs leaf2)" by (simp add: cnt)
    fix j assume "j < length (leaf_abs leaf @ leaf_abs leaf2)"
    then have j: "j < ?n + ?n2" by simp
    show "leaf_rchunk m j = fst ((leaf_abs leaf @ leaf_abs leaf2) ! j)"
      using j len by (auto simp: mp nth_append adjust_offsets_nth)
    show "exceptions m j = snd ((leaf_abs leaf @ leaf_abs leaf2) ! j)"
      using j ex1 [of j] ex2 [of "j - ?n"] by (auto simp: nth_append)
  qed
qed

lemma merge_leaves_wf:
  assumes wf: "wf_leaf bs leaf" and wf2: "wf_leaf bs leaf2"
    and room: "leaf_payload leaf2 \<le> leaf_freespace leaf"
    and ord: "\<And>k k'. k \<in> fst ` set (leaf_abs leaf) \<Longrightarrow> k' \<in> fst ` set (leaf_abs leaf2) \<Longrightarrow> k < k'"
  shows "wf_leaf bs (merge_leaves leaf leaf2)"
    and "leaf_abs (merge_leaves leaf leaf2) = leaf_abs leaf @ leaf_abs leaf2"
    and "leaf_freespace (merge_leaves leaf leaf2) = leaf_freespace leaf - leaf_payload leaf2"
proof -
  let ?m = "merge_leaves leaf leaf2"
  note lay = wf_leaf_simps(1) [OF wf] and lay2 = wf_leaf_simps(1) [OF wf2]
  have pay: "leaf_payload leaf2 = 8 * leaf_count leaf2 + (emap leaf2 (leaf_count leaf2) - emap leaf2 0)"
    by (simp add: leaf_payload_def map_addr_def)
  have fs: "leaf_freespace leaf = emap leaf 0 - map_addr (leaf_count leaf + 1)"
    by (rule leaf_freespace_eq [OF wf])
  have "emap leaf2 (leaf_count leaf2) - emap leaf2 0 \<le> emap leaf 0" using room pay fs by simp
  note l = merge_leaves_layout [OF lay lay2 this]
  show abs: "leaf_abs ?m = leaf_abs leaf @ leaf_abs leaf2" by (rule l)
  show wf': "wf_leaf bs ?m"
  proof (rule wf_leafI [OF l(1) wf_leaf_simps(4) [OF wf]])
    show "map_addr (leaf_count ?m + 1) \<le> emap ?m 0"
      unfolding l(2,3) using room pay fs wf_leaf_simps(5) [OF wf] by (simp add: map_addr_def)
    show "sorted_wrt (<) (map fst (leaf_abs ?m))"
      using wf_leaf_simps(6) [OF wf] wf_leaf_simps(6) [OF wf2] ord
      by (auto simp: abs sorted_wrt_append)
    show "es \<noteq> [] \<and> k < 2 ^ 32" if "(k, es) \<in> set (leaf_abs ?m)" for k es
      using that wf_leaf_entry [OF wf] wf_leaf_entry [OF wf2] by (auto simp: abs)
  qed
  show "leaf_freespace ?m = leaf_freespace leaf - leaf_payload leaf2"
    unfolding leaf_freespace_eq [OF wf'] l(2,3) fs pay by (simp add: map_addr_def)
qed

end
