(* ===== verification/Leaf_Delete.thy ===== *)
theory Leaf_Delete
  imports Leaf
begin

text \<open>
  Removing snapshots from a leaf (\<open>_delete_snapshots_from_leaf\<close> of
  \<open>src/ddsnap/ddsnapd.c\<close>): the downward compaction of the exceptions and the
  removal of empty directory entries compute \<open>delete_leaf_spec\<close>, and the
  chunks that are freed are those of the exceptions no other snapshot shares.
\<close>

section \<open>The effect on the rest of the state\<close>

definition delete_effect :: "(chunk_t \<Rightarrow> 's \<Rightarrow> 's) \<Rightarrow> ('s \<Rightarrow> 's) \<Rightarrow> u64 \<Rightarrow> exception \<Rightarrow> 's \<Rightarrow> 's" where
  "delete_effect freex dcheck m e s =
     dcheck (if ex_share e AND NOT m \<noteq> 0 then s else freex (ex_chunk e) s)"

definition leaf_exceptions :: "eleaf \<Rightarrow> exception list" where
  "leaf_exceptions leaf = concat (map (exceptions leaf) [0..<leaf_count leaf])"

text \<open>Where the exceptions of entry \<open>i\<close> start after the compaction.\<close>

definition new_offset :: "u64 \<Rightarrow> eleaf \<Rightarrow> nat \<Rightarrow> nat" where
  "new_offset m leaf i = emap leaf (leaf_count leaf) -
     16 * (\<Sum>k = i..<leaf_count leaf. length (delete_spec m (exceptions leaf k)))"

section \<open>One directory entry\<close>

lemma share_union_fold: "fold (\<lambda>p using. using OR ex_share p) es u = u OR share_union es"
proof (induction es arbitrary: u)
  case Nil then show ?case by (simp add: share_union_def)
next
  case (Cons e es)
  show ?case using Cons [of "u OR ex_share e"] Cons [of "ex_share e"]
    by (simp add: share_union_def or.assoc)
qed

lemma share_union_simps [simp]:
  "share_union [] = 0"
  "share_union (e # es) = ex_share e OR share_union es"
  "share_union (es @ fs) = share_union es OR share_union fs"
proof -
  show "share_union [] = 0" by (simp add: share_union_def)
  show "share_union (e # es) = ex_share e OR share_union es"
    using share_union_fold [of es "ex_share e"] by (simp add: share_union_def)
  show "share_union (es @ fs) = share_union es OR share_union fs"
    using share_union_fold [of fs "share_union es"] by (simp add: share_union_def)
qed

lemma delete_spec_simps [simp]:
  "delete_spec m [] = []"
  "delete_spec m (es @ fs) = delete_spec m es @ delete_spec m fs"
  by (simp_all add: delete_spec_def)

lemma delete_spec_single:
  "delete_spec m [e] = (if ex_share e AND NOT m \<noteq> 0 then [e\<lparr>ex_share := ex_share e AND NOT m\<rparr>] else [])"
  by (simp add: delete_spec_def)

lemma length_delete_spec: "length (delete_spec m es) \<le> length es"
  by (simp add: delete_spec_def)

lemma exc_ptrs_Suc: "exc_ptrs a (a + 16 * Suc n) = exc_ptrs a (a + 16 * n) @ [a + 16 * n]"
  by (simp add: exc_ptrs_def)

lemma delete_entry_loop:
  assumes "a + 16 * n \<le> dest"
    and "fold (delete_step freex dcheck m) (rev (exc_ptrs a (a + 16 * n))) (data, dest, any, s)
           = (data', dest', any', s')"
    and "es = map (\<lambda>k. data (a + 16 * k)) [0..<n]"
  shows "dest' = dest - 16 * length (delete_spec m es) \<and>
    (\<forall>k<length (delete_spec m es). data' (dest' + 16 * k) = delete_spec m es ! k) \<and>
    (\<forall>x. x < a \<or> dest \<le> x \<longrightarrow> data' x = data x) \<and>
    any' = any OR (share_union es AND m) \<and>
    s' = fold (delete_effect freex dcheck m) (rev es) s"
  using assms
proof (induction n arbitrary: data dest any s es)
  case 0 then show ?case by simp
next
  case (Suc n)
  let ?p = "a + 16 * n"
  let ?e = "data ?p"
  let ?keep = "ex_share ?e AND NOT m \<noteq> 0"
  let ?lo = "map (\<lambda>k. data (a + 16 * k)) [0..<n]"
  define data1 where "data1 = (if ?keep
    then data(?p := ?e\<lparr>ex_share := ex_share ?e AND NOT m\<rparr>, dest - 16 := ?e\<lparr>ex_share := ex_share ?e AND NOT m\<rparr>)
    else data(?p := ?e\<lparr>ex_share := ex_share ?e AND NOT m\<rparr>))"
  define dest1 where "dest1 = (if ?keep then dest - 16 else dest)"
  define any1 where "any1 = any OR (ex_share ?e AND m)"
  define s1 where "s1 = delete_effect freex dcheck m ?e s"
  have step: "delete_step freex dcheck m ?p (data, dest, any, s) = (data1, dest1, any1, s1)"
    by (auto simp: delete_step_def data1_def dest1_def any1_def s1_def delete_effect_def Let_def)
  have le: "a + 16 * n \<le> dest1" using Suc.prems(1) by (auto simp: dest1_def)
  have run: "fold (delete_step freex dcheck m) (rev (exc_ptrs a ?p)) (data1, dest1, any1, s1)
      = (data', dest', any', s')"
    using Suc.prems(2) by (simp only: exc_ptrs_Suc rev_append rev.simps append_Nil append_Cons fold_simps step)
  have lo: "?lo = map (\<lambda>k. data1 (a + 16 * k)) [0..<n]"
    using Suc.prems(1) by (auto simp: data1_def)
  note IH = Suc.IH [OF le run lo]
  have es: "es = ?lo @ [?e]" using Suc.prems(3) by simp
  let ?n = "length (delete_spec m ?lo)"
  have d': "dest' = dest1 - 16 * ?n" using IH by simp
  have fit: "16 * ?n \<le> dest1" using le length_delete_spec [of m ?lo] by simp
  have len: "length (delete_spec m es) = ?n + (if ?keep then 1 else 0)"
    by (simp add: es delete_spec_single)
  have dest: "dest' = dest - 16 * length (delete_spec m es)"
    unfolding d' len by (simp add: dest1_def add.commute)
  have content: "data' (dest' + 16 * k) = delete_spec m es ! k" if k: "k < length (delete_spec m es)" for k
  proof (cases "k < ?n")
    case True
    moreover have "data' (dest' + 16 * k) = delete_spec m ?lo ! k" using IH True by blast
    ultimately show ?thesis by (simp add: es nth_append)
  next
    case False
    with k len have keep: ?keep and kn: "k = ?n" by (auto split: if_splits)
    have "dest' + 16 * k = dest1" using d' fit kn by simp
    moreover have "data' dest1 = data1 dest1" using IH by simp
    moreover have "data1 dest1 = ?e\<lparr>ex_share := ex_share ?e AND NOT m\<rparr>"
      using keep by (simp add: data1_def dest1_def)
    moreover have "delete_spec m es ! k = ?e\<lparr>ex_share := ex_share ?e AND NOT m\<rparr>"
      using keep kn by (simp add: es nth_append delete_spec_single)
    ultimately show ?thesis by simp
  qed
  have frame: "data' x = data x" if x: "x < a \<or> dest \<le> x" for x
  proof -
    have "x < a \<or> dest1 \<le> x" using x by (auto simp: dest1_def)
    then have "data' x = data1 x" using IH by blast
    also have "data1 x = data x" using x Suc.prems(1) by (auto simp: data1_def)
    finally show ?thesis .
  qed
  have "any' = any OR (share_union es AND m)"
    using IH by (simp add: any1_def es bit.conj_disj_distrib2 or.assoc or.commute or.left_commute)
  moreover have "s' = fold (delete_effect freex dcheck m) (rev es) s"
    using IH by (simp add: s1_def es)
  ultimately show ?case using dest content frame by blast
qed


section \<open>The whole leaf\<close>

text \<open>The state of the outer loop when the entries from \<open>i\<close> on are done.\<close>

definition delete_inv :: "(chunk_t \<Rightarrow> 's \<Rightarrow> 's) \<Rightarrow> ('s \<Rightarrow> 's) \<Rightarrow> u64 \<Rightarrow> eleaf \<Rightarrow> 's \<Rightarrow> nat \<Rightarrow>
    etree_map list \<times> (nat \<Rightarrow> exception) \<times> nat \<times> u64 \<times> 's \<Rightarrow> bool" where
  "delete_inv freex dcheck m leaf s0 i = (\<lambda>(lmap, data, dest, any, s).
     dest = new_offset m leaf i \<and> emap leaf i \<le> dest \<and>
     length lmap = length (leaf_map leaf) \<and>
     (\<forall>j<length lmap. map_rchunk (lmap ! j) = leaf_rchunk leaf j) \<and>
     (\<forall>j. i \<le> j \<and> j \<le> leaf_count leaf \<longrightarrow> map_offset (lmap ! j) = new_offset m leaf j) \<and>
     (\<forall>x<emap leaf i. data x = leaf_data leaf x) \<and>
     (\<forall>j k. i \<le> j \<and> j < leaf_count leaf \<and> k < length (delete_spec m (exceptions leaf j)) \<longrightarrow>
        data (new_offset m leaf j + 16 * k) = delete_spec m (exceptions leaf j) ! k) \<and>
     any = share_union (concat (map (exceptions leaf) [i..<leaf_count leaf])) AND m \<and>
     s = fold (delete_effect freex dcheck m)
           (rev (concat (map (exceptions leaf) [i..<leaf_count leaf]))) s0)"

lemma new_offset_Suc:
  "i < leaf_count leaf \<Longrightarrow>
   new_offset m leaf i = new_offset m leaf (Suc i) - 16 * length (delete_spec m (exceptions leaf i))"
  by (simp add: new_offset_def sum.atLeast_Suc_lessThan add.commute)

lemma new_offset_mono: "i \<le> j \<Longrightarrow> new_offset m leaf i \<le> new_offset m leaf j"
  unfolding new_offset_def by (intro diff_le_mono2 mult_le_mono2 sum_mono2) auto

lemma delete_inv_init:
  "leaf_layout bs leaf \<Longrightarrow> delete_inv freex dcheck m leaf s (leaf_count leaf)
     (leaf_map leaf, leaf_data leaf, emap leaf (leaf_count leaf), 0, s)"
  by (auto simp: delete_inv_def new_offset_def emap_def)

lemma delete_inv_step:
  assumes lay: "leaf_layout bs leaf" and i: "i < leaf_count leaf"
    and inv: "delete_inv freex dcheck m leaf s0 (Suc i) (lmap, data, dest, any, s)"
  shows "delete_inv freex dcheck m leaf s0 i
    (delete_entry freex dcheck m leaf i (lmap, data, dest, any, s))"
proof -
  obtain n where n: "emap leaf (Suc i) = emap leaf i + 16 * n" using leaf_layout_Suc [OF lay i] by blast
  obtain data' dest' any' s' where run:
    "fold (delete_step freex dcheck m) (rev (exc_ptrs (emap leaf i) (emap leaf i + 16 * n)))
       (data, dest, any, s) = (data', dest', any', s')" by (metis prod_cases4)
  let ?es = "exceptions leaf i"
  have dest: "dest = new_offset m leaf (Suc i)" "emap leaf i + 16 * n \<le> dest"
    and len: "length lmap = length (leaf_map leaf)" "length (leaf_map leaf) = Suc (leaf_count leaf)"
    and old: "\<And>x. x < emap leaf (Suc i) \<Longrightarrow> data x = leaf_data leaf x"
    using inv n lay by (auto simp: delete_inv_def leaf_layout_def)
  have "?es = map (\<lambda>k. data (emap leaf i + 16 * k)) [0..<n]"
    using old n by (auto simp: exceptions_layout [OF lay i])
  note loop = delete_entry_loop [OF dest(2) run this]
  have off: "dest' = new_offset m leaf i" using loop dest(1) new_offset_Suc [OF i, of m] by simp
  have ge: "emap leaf i \<le> dest'"
    using loop dest(2) length_delete_spec [of m ?es] length_exceptions [OF lay i] n by simp
  have entry: "delete_entry freex dcheck m leaf i (lmap, data, dest, any, s)
      = (lmap[i := (lmap ! i)\<lparr>map_offset := dest'\<rparr>], data', dest', any', s')"
    unfolding delete_entry_def by (simp only: prod.case n run Let_def fst_conv snd_conv)
  have content: "data' (new_offset m leaf j + 16 * k) = delete_spec m (exceptions leaf j) ! k"
    if "i \<le> j" "j < leaf_count leaf" "k < length (delete_spec m (exceptions leaf j))" for j k
  proof (cases "j = i")
    case True
    show ?thesis using loop that unfolding True off [symmetric] by blast
  next
    case False
    then have "new_offset m leaf (Suc i) \<le> new_offset m leaf j" using that by (intro new_offset_mono) simp
    then have "data' (new_offset m leaf j + 16 * k) = data (new_offset m leaf j + 16 * k)"
      using loop dest(1) by simp
    then show ?thesis using inv that False by (simp add: delete_inv_def)
  qed
  have upt: "[i..<leaf_count leaf] = i # [Suc i..<leaf_count leaf]" using i by (rule upt_conv_Cons)
  have any: "any' = share_union (concat (map (exceptions leaf) [i..<leaf_count leaf])) AND m"
    using loop inv by (simp add: delete_inv_def upt bit.conj_disj_distrib2 or.commute)
  have s: "s' = fold (delete_effect freex dcheck m)
           (rev (concat (map (exceptions leaf) [i..<leaf_count leaf]))) s0"
    using loop inv by (simp add: delete_inv_def upt)
  show ?thesis
    unfolding entry delete_inv_def
    using off ge len content any s loop old inv i n
    by (auto simp: delete_inv_def nth_list_update)
qed

lemma delete_loop:
  assumes lay: "leaf_layout bs leaf"
  shows "i \<le> leaf_count leaf \<Longrightarrow> delete_inv freex dcheck m leaf s i
    (fold (delete_entry freex dcheck m leaf) (rev [i..<leaf_count leaf])
       (leaf_map leaf, leaf_data leaf, emap leaf (leaf_count leaf), 0, s))"
proof (induction "leaf_count leaf - i" arbitrary: i)
  case 0
  then show ?case using delete_inv_init [OF lay] by simp
next
  case (Suc d)
  then have i: "i < leaf_count leaf" by simp
  let ?st = "fold (delete_entry freex dcheck m leaf) (rev [Suc i..<leaf_count leaf])
       (leaf_map leaf, leaf_data leaf, emap leaf (leaf_count leaf), 0, s)"
  have "delete_inv freex dcheck m leaf s (Suc i) ?st" using Suc.hyps(2) i by (intro Suc.hyps(1)) auto
  then have "delete_inv freex dcheck m leaf s i (delete_entry freex dcheck m leaf i ?st)"
    using delete_inv_step [OF lay i] by (metis prod_cases5)
  then show ?case by (simp add: upt_conv_Cons [OF i])
qed

lemma filter_upt_nth:
  assumes "j < length (filter P [0..<n])" "k = filter P [0..<n] ! j"
  shows "k < n \<and> P k \<and> filter P [Suc k..<n] = drop (Suc j) (filter P [0..<n])"
  using assms
proof (induction n)
  case 0 then show ?case by simp
next
  case (Suc n)
  show ?case
  proof (cases "j < length (filter P [0..<n])")
    case True
    with Suc have "k < n \<and> P k \<and> filter P [Suc k..<n] = drop (Suc j) (filter P [0..<n])"
      by (simp add: nth_append)
    with True show ?thesis by simp
  next
    case False
    with Suc show ?thesis by (auto simp: nth_append not_less_eq split: if_splits)
  qed
qed


lemma new_offset_filter:
  assumes "i \<le> leaf_count leaf"
    and "P = (\<lambda>i. new_offset m leaf i \<noteq> new_offset m leaf (Suc i))"
  shows "(case filter P [i..<leaf_count leaf] of
       [] \<Rightarrow> new_offset m leaf (leaf_count leaf) | k # _ \<Rightarrow> new_offset m leaf k) = new_offset m leaf i"
  using assms
proof (induction "leaf_count leaf - i" arbitrary: i)
  case 0 then show ?case by simp
next
  case (Suc d)
  then have i: "i < leaf_count leaf" by simp
  then show ?case using Suc.hyps(1) [of "Suc i"] Suc.hyps(2) Suc.prems by (auto simp: upt_conv_Cons [OF i])
qed

lemma delete_snapshots_from_leaf_aux_correct:
  assumes wf: "wf_leaf bs leaf"
    and run: "delete_snapshots_from_leaf_aux freex dcheck m leaf s = (any, leaf', s')"
  shows "wf_leaf bs leaf'"
    and "leaf_abs leaf' = delete_leaf_spec m (leaf_abs leaf)"
    and "leaf_base_chunk leaf' = leaf_base_chunk leaf" "leaf_magic leaf' = leaf_magic leaf"
    and "any = share_union (leaf_exceptions leaf) AND m"
    and "s' = fold (delete_effect freex dcheck m) (rev (leaf_exceptions leaf)) s"
proof -
  note lay = wf_leaf_simps(1) [OF wf]
  let ?n = "leaf_count leaf" and ?D = "new_offset m leaf"
  let ?P = "\<lambda>i. ?D i \<noteq> ?D (Suc i)"
  let ?is = "filter ?P [0..<?n]"
  obtain lmap data dest any1 s1 where loop:
    "fold (delete_entry freex dcheck m leaf) (rev [0..<?n])
       (leaf_map leaf, leaf_data leaf, emap leaf ?n, 0, s) = (lmap, data, dest, any1, s1)"
    by (metis prod_cases5)
  have inv: "delete_inv freex dcheck m leaf s 0 (lmap, data, dest, any1, s1)"
    using delete_loop [OF lay, of 0 freex dcheck m s] unfolding loop by simp
  have len: "length lmap = Suc ?n" using inv lay by (simp add: delete_inv_def leaf_layout_def)
  have off: "map_offset (lmap ! j) = ?D j" if "j \<le> ?n" for j using inv that by (simp add: delete_inv_def)
  have rc: "map_rchunk (lmap ! j) = leaf_rchunk leaf j" if "j \<le> ?n" for j
    using inv len that by (simp add: delete_inv_def)
  have flt: "filter (\<lambda>i. map_offset (lmap ! i) \<noteq> map_offset (lmap ! Suc i)) [0..<?n] = ?is"
    by (rule filter_cong) (auto simp: off)
  have leaf': "leaf' = leaf\<lparr>leaf_map := map ((!) lmap) ?is @ [\<lparr>map_offset = ?D ?n, map_rchunk = 0\<rparr>],
      leaf_data := data, leaf_count := length ?is\<rparr>" and any: "any = any1" and s': "s' = s1"
    using run unfolding delete_snapshots_from_leaf_aux_def
    by (auto simp: loop remove_empties_def flt off)
  show "leaf_base_chunk leaf' = leaf_base_chunk leaf" "leaf_magic leaf' = leaf_magic leaf"
    by (simp_all add: leaf')
  show "any = share_union (leaf_exceptions leaf) AND m"
    "s' = fold (delete_effect freex dcheck m) (rev (leaf_exceptions leaf)) s"
    using inv any s' by (simp_all add: delete_inv_def leaf_exceptions_def)
  have cnt: "leaf_count leaf' = length ?is" by (simp add: leaf')
  have is_nth: "?is ! j < ?n" "?P (?is ! j)" "filter ?P [Suc (?is ! j)..<?n] = drop (Suc j) ?is"
    if "j < length ?is" for j using filter_upt_nth [OF that refl] by auto
  have em: "emap leaf' j = ?D (?is ! j)" if "j < length ?is" for j
    using that is_nth(1) [OF that] by (simp add: leaf' emap_def nth_append off)
  have em_end: "emap leaf' (length ?is) = ?D ?n" by (simp add: leaf' emap_def nth_append)
  have emS: "emap leaf' (Suc j) = ?D (Suc (?is ! j))" if j: "j < length ?is" for j
  proof (cases "Suc j = length ?is")
    case True
    then show ?thesis
      using new_offset_filter [of "Suc (?is ! j)" leaf ?P m] is_nth [OF j] em_end by simp
  next
    case False
    then have "Suc j < length ?is" using j by simp
    then have "drop (Suc j) ?is = ?is ! Suc j # drop (Suc (Suc j)) ?is" by (simp add: Cons_nth_drop_Suc)
    then show ?thesis
      using new_offset_filter [of "Suc (?is ! j)" leaf ?P m] is_nth [OF j] em [OF \<open>Suc j < length ?is\<close>]
      by simp
  qed
  have D0: "emap leaf 0 \<le> ?D 0" using inv by (simp add: delete_inv_def)
  have Dn: "?D ?n = bs" using wf_leaf_simps(3) [OF wf] by (simp add: new_offset_def)
  have gap: "?D (Suc i) = ?D i + 16 * length (delete_spec m (exceptions leaf i))" if i: "i < ?n" for i
  proof -
    have "0 < ?D i" using D0 new_offset_mono [of 0 i m leaf] wf_leaf_simps(7) [OF wf] by simp
    then show ?thesis using new_offset_Suc [OF i, of m] by simp
  qed
  have lay': "leaf_layout bs leaf'"
    unfolding leaf_layout_def cnt using em em_end emS Dn gap is_nth(1) by (auto simp: leaf')
  have ex: "exceptions leaf' j = delete_spec m (exceptions leaf (?is ! j))" if j: "j < length ?is" for j
  proof (rule exceptions_eqI [OF lay'])
    show "j < leaf_count leaf'" using j cnt by simp
    show "length (delete_spec m (exceptions leaf (?is ! j))) = (emap leaf' (Suc j) - emap leaf' j) div 16"
      using em [OF j] emS [OF j] gap [OF is_nth(1) [OF j]] by simp
    fix k assume "k < length (delete_spec m (exceptions leaf (?is ! j)))"
    then show "leaf_data leaf' (emap leaf' j + 16 * k) = delete_spec m (exceptions leaf (?is ! j)) ! k"
      using inv is_nth(1) [OF j] em [OF j] by (simp add: leaf' delete_inv_def)
  qed
  have P: "?P i \<longleftrightarrow> delete_spec m (exceptions leaf i) \<noteq> []" if "i < ?n" for i
    using gap [OF that] by auto
  have rc': "leaf_rchunk leaf' j = leaf_rchunk leaf (?is ! j)" if j: "j < length ?is" for j
    using rc [of "?is ! j"] is_nth(1) [OF j] j by (simp add: leaf' nth_append)
  have "leaf_abs leaf' = map (\<lambda>i. (leaf_rchunk leaf i, delete_spec m (exceptions leaf i))) ?is"
    using ex rc' cnt by (intro leaf_abs_eqI) auto
  also have "?is = filter (\<lambda>i. delete_spec m (exceptions leaf i) \<noteq> []) [0..<?n]"
    by (rule filter_cong) (use P in auto)
  also have "map (\<lambda>i. (leaf_rchunk leaf i, delete_spec m (exceptions leaf i))) \<dots> =
      delete_leaf_spec m (leaf_abs leaf)"
    by (simp add: delete_leaf_spec_def leaf_abs_def filter_map comp_def)
  finally show abs: "leaf_abs leaf' = delete_leaf_spec m (leaf_abs leaf)" .
  show "wf_leaf bs leaf'"
  proof (rule wf_leafI [OF lay' wf_leaf_simps(4) [OF wf]])
    have "length ?is \<le> ?n" using length_filter_le [of ?P "[0..<?n]"] by simp
    moreover have "?D 0 \<le> emap leaf' 0"
      using em [of 0] em_end new_offset_mono [of 0 _ m leaf] by (cases ?is) auto
    ultimately show "map_addr (leaf_count leaf' + 1) \<le> emap leaf' 0"
      using wf_leaf_simps(5) [OF wf] D0 by (simp add: cnt map_addr_def)
    show "sorted_wrt (<) (map fst (leaf_abs leaf'))"
      using wf_leaf_simps(6) [OF wf]
      by (auto simp: abs delete_leaf_spec_def sorted_wrt_map case_prod_beta filter_map comp_def
               intro: sorted_wrt_filter)
    show "es \<noteq> [] \<and> k < 2 ^ 32" if "(k, es) \<in> set (leaf_abs leaf')" for k es
      using that wf_leaf_entry [OF wf] by (auto simp: abs delete_leaf_spec_def)
  qed
qed

end
