(* ===== verification/Cow.thy ===== *)
theory Cow
  imports Prelude
begin

text \<open>
  The contract between the exception store and the rest of the server.  An
  exception map says, for a chunk and a snapshot, where in the snapshot store
  the snapshot finds the chunk (\<open>None\<close>: still on the origin volume).  The
  locale \<open>cow_map\<close> states what adding an exception must do to these lookups;
  the copy-on-write guarantees the server gives its clients are proved from it
  once: a write to the origin after the copyout is invisible to every
  snapshot, and a write to a snapshot is seen by that snapshot only.
\<close>

text \<open>What a client of snapshot \<open>b\<close> reads at a chunk.\<close>

definition snap_read :: "(chunk_t \<Rightarrow> nat \<Rightarrow> chunk_t option) \<Rightarrow> (chunk_t \<Rightarrow> 'd) \<Rightarrow> (chunk_t \<Rightarrow> 'd) \<Rightarrow>
    nat \<Rightarrow> chunk_t \<Rightarrow> 'd" where
  "snap_read look origin store b chunk =
     (case look chunk b of None \<Rightarrow> origin chunk | Some e \<Rightarrow> store e)"

locale cow_map =
  fixes invar :: "'s \<Rightarrow> bool"
    and covers :: "'s \<Rightarrow> chunk_t \<Rightarrow> bool"
    and look :: "'s \<Rightarrow> chunk_t \<Rightarrow> nat \<Rightarrow> chunk_t option"
    and add :: "'s \<Rightarrow> chunk_t \<Rightarrow> chunk_t \<Rightarrow> int \<Rightarrow> u64 \<Rightarrow> errno + 's"
  assumes invar_add: "invar s \<Longrightarrow> add s c e i active = Inr s' \<Longrightarrow> invar s'"
    and covers_add: "invar s \<Longrightarrow> add s c e i active = Inr s' \<Longrightarrow> covers s' c' = covers s c'"
    and look_add_origin: "invar s \<Longrightarrow> add s c e (-1) active = Inr s' \<Longrightarrow>
      covers s c \<Longrightarrow> covers s c' \<Longrightarrow>
      look s' c' b = (if c' = c \<and> look s c b = None \<and> bit active b then Some e else look s c' b)"
    and look_add_snap: "invar s \<Longrightarrow> add s c e (int n) active = Inr s' \<Longrightarrow> n < MAX_SNAPSHOTS \<Longrightarrow>
      covers s c \<Longrightarrow> covers s c' \<Longrightarrow>
      look s' c' b = (if c' = c \<and> b = n then Some e else look s c' b)"
begin

text \<open>The exception is used by no other chunk or snapshot before it is added.\<close>

definition fresh :: "'s \<Rightarrow> chunk_t \<Rightarrow> bool" where
  "fresh s e \<longleftrightarrow> (\<forall>c b. covers s c \<longrightarrow> look s c b \<noteq> Some e)"

lemma origin_write_invisible:
  assumes "invar s" "add s c e (-1) active = Inr s'" "covers s c" "covers s c'"
    and "fresh s e" "bit active b"
  shows "snap_read (look s') (origin(c := d)) (store(e := origin c)) b c' =
    snap_read (look s) origin store b c'"
  using assms look_add_origin [OF assms(1-4), of b]
  by (cases "look s c' b") (auto simp: snap_read_def fresh_def)

lemma snap_write_self:
  assumes "invar s" "add s c e (int n) active = Inr s'" "n < MAX_SNAPSHOTS" "covers s c"
  shows "snap_read (look s') origin (store(e := d)) n c = d"
  using look_add_snap [OF assms(1-3) assms(4) assms(4), of n] by (simp add: snap_read_def)

lemma snap_write_other:
  assumes "invar s" "add s c e (int n) active = Inr s'" "n < MAX_SNAPSHOTS" "covers s c" "covers s c'"
    and "fresh s e" "(c', b) \<noteq> (c, n)"
  shows "snap_read (look s') origin (store(e := d)) b c' = snap_read (look s) origin store b c'"
  using assms look_add_snap [OF assms(1-5), of b]
  by (cases "look s c' b") (auto simp: snap_read_def fresh_def)

lemma origin_all_unique:
  assumes "invar s" "add s c e (-1) active = Inr s'" "covers s c" "bit active b"
  shows "look s' c b \<noteq> None"
  using look_add_origin [OF assms(1-3) assms(3), of b] assms(4) by auto

end

end
