(* ===== verification/Leaf_Share.thy ===== *)
theory Leaf_Share
  imports Leaf_Split Leaf_Delete Cow
begin

text \<open>
  What the share masks of a leaf mean: which snapshot finds a chunk where, when
  a chunk is unique, that the exceptions of a chunk belong to disjoint sets of
  snapshots, and how much room they can take.  A leaf is an exception map in
  the sense of theory Cow.
\<close>

section \<open>Masks\<close>

lemma bit_snapbit [bits_simps]: "bit (2 ^ b :: u64) k \<longleftrightarrow> k = b \<and> b < 64"
  by (auto simp: bit_exp_iff)

lemma and_snapbit_eq_0_iff [bits_simps]: "(w :: u64) AND 2 ^ b = 0 \<longleftrightarrow> \<not> bit w b"
  using bit_iff_and_push_bit_not_eq_0 [of w b] by simp

lemma u64_eq_iff: "(w :: u64) = v \<longleftrightarrow> (\<forall>k<64. bit w k = bit v k)"
  by (auto simp: bit_word_eqI intro: bit_word_eqI)

lemma u64_eq_0_iff: "(w :: u64) = 0 \<longleftrightarrow> (\<forall>k. \<not> bit w k)"
  by (metis bit_0_eq bit_eqI bot_apply bot_bool_def)

lemma bit_u64_less: "bit (w :: u64) k \<Longrightarrow> k < 64"
  using bit_imp_le_length [of w k] by simp

lemma bit_NOT_u64: "bit (NOT (w :: u64)) k \<longleftrightarrow> k < 64 \<and> \<not> bit w k"
  by (simp add: bit_not_iff)

lemmas mask_simps = u64_eq_0_iff bit_and_iff bit_or_iff bit_NOT_u64 bit_snapbit

lemma only_snapbit:
  "bit (w :: u64) b \<Longrightarrow> w AND NOT (2 ^ b) = 0 \<longleftrightarrow> w = 2 ^ b"
  by (auto simp: u64_eq_iff mask_simps dest: bit_u64_less)

lemma bit_share_union: "bit (share_union es) k \<longleftrightarrow> (\<exists>e\<in>set es. bit (ex_share e) k)"
  by (induction es) (auto simp: bit_or_iff)

section \<open>Lookup in the exceptions of one chunk\<close>

lemma snap_exception_simps [simp]:
  "snap_exception [] b = None"
  "snap_exception (e # es) b = (if bit (ex_share e) b then Some (ex_chunk e) else snap_exception es b)"
  by (simp_all add: snap_exception_def)

lemma snap_exception_None_iff:
  "snap_exception es b = None \<longleftrightarrow> \<not> bit (share_union es) b"
  by (induction es) (auto simp: bit_or_iff)

lemma snap_exception_clear_first:
  "b' \<noteq> b \<Longrightarrow> snap_exception (clear_first (2 ^ b) es) b' = snap_exception es b'"
  by (induction es) (auto simp: and_snapbit_eq_0_iff bit_and_iff bit_NOT_u64 bit_snapbit dest: bit_u64_less)

lemma snap_exception_add_origin:
  "snap_exception (add_spec e (-1) active es) b =
     (if snap_exception es b = None \<and> bit active b then Some e else snap_exception es b)"
  by (auto simp: add_spec_def mask_simps snap_exception_None_iff dest: bit_u64_less)

lemma snap_exception_add_snap:
  "n < 64 \<Longrightarrow> snap_exception (add_spec e (int n) active es) b =
     (if b = n then Some e else snap_exception es b)"
  by (auto simp: add_spec_def bit_snapbit snap_exception_clear_first)

lemma snap_exception_delete:
  "snap_exception (delete_spec m es) b = (if bit m b then None else snap_exception es b)"
proof (induction es)
  case Nil then show ?case by simp
next
  case (Cons e es)
  have "delete_spec m (e # es) = delete_spec m [e] @ delete_spec m es" by (simp add: delete_spec_def)
  with Cons show ?case by (auto simp: delete_spec_single mask_simps dest: bit_u64_less)
qed

section \<open>A leaf as an exception map\<close>

definition leaf_covers :: "eleaf \<Rightarrow> chunk_t \<Rightarrow> bool" where
  "leaf_covers leaf chunk \<longleftrightarrow>
     leaf_base_chunk leaf \<le> chunk \<and> chunk < leaf_base_chunk leaf + 2 ^ 32 \<and> chunk < 2 ^ 64"

definition leaf_lookup :: "eleaf \<Rightarrow> chunk_t \<Rightarrow> nat \<Rightarrow> chunk_t option" where
  "leaf_lookup leaf chunk b = aleaf_lookup (leaf_abs leaf) (leaf_target leaf chunk) b"

lemma leaf_covers_sub: "leaf_covers leaf chunk \<Longrightarrow> u64_sub chunk (leaf_base_chunk leaf) = chunk - leaf_base_chunk leaf"
  by (simp add: leaf_covers_def u64_sub_eq)

lemma leaf_covers_target: "leaf_covers leaf chunk \<Longrightarrow> leaf_target leaf chunk = chunk - leaf_base_chunk leaf"
  by (simp add: leaf_target_def leaf_covers_sub) (auto simp: leaf_covers_def intro!: mod_less)

lemma leaf_target_inj:
  "leaf_covers leaf c \<Longrightarrow> leaf_covers leaf c' \<Longrightarrow> leaf_target leaf c = leaf_target leaf c' \<longleftrightarrow> c = c'"
  by (auto simp: leaf_covers_target leaf_covers_def)

lemma map_of_find:
  "map_of (map (\<lambda>i. (f i, g i)) xs) t = map_option g (find (\<lambda>i. f i = t) xs)"
  by (induction xs) auto

lemma map_of_leaf_abs: "map_of (leaf_abs leaf) t = map_option (exceptions leaf) (find_rchunk leaf t)"
  by (simp add: leaf_abs_def find_rchunk_def map_of_find)

lemma aleaf_get_leaf_abs:
  "aleaf_get (leaf_abs leaf) t = (case find_rchunk leaf t of None \<Rightarrow> [] | Some i \<Rightarrow> exceptions leaf i)"
  by (simp add: aleaf_get_def map_of_leaf_abs split: option.split)

lemma aleaf_get_add:
  "sorted_wrt (<) (map fst al) \<Longrightarrow> aleaf_get (add_exception_spec t e n active al) k =
     (if k = t then add_spec e n active (aleaf_get al t) else aleaf_get al k)"
  by (simp add: aleaf_get_def add_exception_spec_def map_of_alist_upd)

lemma add_exception_spec_entry:
  assumes "sorted_wrt (<) (map fst al)" "(k, es) \<in> set (add_exception_spec t e n active al)"
  shows "k = t \<and> es = add_spec e n active (aleaf_get al t) \<or> (k, es) \<in> set al"
proof (cases "k = t")
  case True
  have "distinct (map fst (add_exception_spec t e n active al))"
    using sorted_alist_upd [OF assms(1)] by (simp add: add_exception_spec_def strict_sorted_iff)
  from map_of_is_SomeI [OF this assms(2)] aleaf_get_add [OF assms(1), of t e n active k] True
  show ?thesis by (simp add: aleaf_get_def)
next
  case False
  with assms(2) show ?thesis by (auto simp: add_exception_spec_def dest: set_alist_upd)
qed

lemma map_of_filter_snd:
  "distinct (map fst xs) \<Longrightarrow> map_of (filter (\<lambda>(k, v). P v) xs) k =
     (case map_of xs k of None \<Rightarrow> None | Some v \<Rightarrow> if P v then Some v else None)"
  by (induction xs) (auto split: option.split simp: weak_map_of_SomeI map_of_eq_None_iff)

lemma aleaf_get_delete:
  "sorted_wrt (<) (map fst al) \<Longrightarrow>
   aleaf_get (delete_leaf_spec m al) k = delete_spec m (aleaf_get al k)"
  by (auto simp: aleaf_get_def delete_leaf_spec_def map_of_filter_snd map_of_map comp_def strict_sorted_iff
                 case_prod_beta delete_spec_def split: option.split)

text \<open>The two enquiries in terms of the lookup.\<close>

lemma snapshot_chunk_unique_eq:
  "snapshot_chunk_unique leaf chunk b old =
     (case find (\<lambda>e. bit (ex_share e) b) (aleaf_get (leaf_abs leaf) (leaf_target leaf chunk)) of
        None \<Rightarrow> (False, old) | Some e \<Rightarrow> (ex_share e = 2 ^ b, ex_chunk e))"
proof -
  have "(ex_share e AND NOT (2 ^ b) = 0) = (ex_share e = 2 ^ b)"
    if "find (\<lambda>e. bit (ex_share e) b) es = Some e" for e es
    using that by (auto dest!: find_SomeD simp: only_snapbit)
  then show ?thesis
    by (auto simp: snapshot_chunk_unique_def Let_def aleaf_get_leaf_abs leaf_target_def and_snapbit_eq_0_iff
             split: option.split)
qed

lemma snapshot_chunk_unique_lookup:
  "snd (snapshot_chunk_unique leaf chunk b old) =
     (case leaf_lookup leaf chunk b of None \<Rightarrow> old | Some e \<Rightarrow> e)"
  "fst (snapshot_chunk_unique leaf chunk b old) \<Longrightarrow> leaf_lookup leaf chunk b \<noteq> None"
  by (auto simp: snapshot_chunk_unique_eq leaf_lookup_def aleaf_lookup_def snap_exception_def split: option.splits)

lemma origin_chunk_unique_lookup:
  assumes "leaf_covers leaf chunk"
  shows "origin_chunk_unique leaf chunk m \<longleftrightarrow> (\<forall>b. bit m b \<longrightarrow> leaf_lookup leaf chunk b \<noteq> None)"
proof -
  have "origin_chunk_unique leaf chunk m \<longleftrightarrow>
      NOT (share_union (aleaf_get (leaf_abs leaf) (leaf_target leaf chunk))) AND m = 0"
    using leaf_covers_target [OF assms]
    by (auto simp: origin_chunk_unique_def leaf_covers_sub [OF assms] aleaf_get_leaf_abs
             split: option.split)
  then show ?thesis
    by (auto simp: leaf_lookup_def aleaf_lookup_def snap_exception_None_iff u64_eq_0_iff bit_and_iff
                   bit_NOT_u64 dest: bit_u64_less)
qed

lemma add_exception_to_leaf_result:
  assumes wf: "wf_leaf bs leaf" and run: "add_exception_to_leaf leaf chunk e n active = Inr leaf'"
  shows "wf_leaf bs leaf'" "leaf_base_chunk leaf' = leaf_base_chunk leaf"
    "leaf_abs leaf' = add_exception_spec (leaf_target leaf chunk) e n active (leaf_abs leaf)"
    "leaf_need leaf chunk \<le> leaf_freespace leaf"
    "leaf_freespace leaf' = leaf_freespace leaf - leaf_need leaf chunk"
proof -
  show le: "leaf_need leaf chunk \<le> leaf_freespace leaf"
    using add_exception_to_leaf_full [OF wf, of chunk e n active] run by auto
  from add_exception_to_leaf_ok [OF wf le, of e n active] run
  show "wf_leaf bs leaf'" "leaf_base_chunk leaf' = leaf_base_chunk leaf"
    "leaf_abs leaf' = add_exception_spec (leaf_target leaf chunk) e n active (leaf_abs leaf)"
    "leaf_freespace leaf' = leaf_freespace leaf - leaf_need leaf chunk"
    by auto
qed

lemma leaf_lookup_add:
  assumes wf: "wf_leaf bs leaf" and run: "add_exception_to_leaf leaf c e n active = Inr leaf'"
    and "leaf_covers leaf c" "leaf_covers leaf c'"
  shows "leaf_lookup leaf' c' b =
    (if c' = c then snap_exception (add_spec e n active (aleaf_get (leaf_abs leaf) (leaf_target leaf c))) b
     else leaf_lookup leaf c' b)"
proof -
  note r = add_exception_to_leaf_result [OF wf run]
  have "leaf_target leaf' c' = leaf_target leaf c'" by (simp add: leaf_target_def r(2))
  then show ?thesis
    using leaf_target_inj [OF assms(3,4)]
    by (auto simp: leaf_lookup_def aleaf_lookup_def r(3) aleaf_get_add [OF wf_leaf_simps(6) [OF wf]])
qed

interpretation leaf_cow: cow_map "wf_leaf bs" leaf_covers leaf_lookup add_exception_to_leaf for bs
proof
  show "wf_leaf bs s'" if "wf_leaf bs s" "add_exception_to_leaf s c e i active = Inr s'" for s c e i active s'
    by (rule add_exception_to_leaf_result(1) [OF that])
  show "leaf_covers s' c' = leaf_covers s c'"
    if "wf_leaf bs s" "add_exception_to_leaf s c e i active = Inr s'" for s c e i active s' c'
    by (simp add: leaf_covers_def add_exception_to_leaf_result(2) [OF that])
  show "leaf_lookup s' c' b =
      (if c' = c \<and> leaf_lookup s c b = None \<and> bit active b then Some e else leaf_lookup s c' b)"
    if "wf_leaf bs s" "add_exception_to_leaf s c e (-1) active = Inr s'" "leaf_covers s c" "leaf_covers s c'"
    for s c e active s' c' b
    unfolding leaf_lookup_add [OF that]
    by (auto simp: snap_exception_add_origin leaf_lookup_def aleaf_lookup_def)
  show "leaf_lookup s' c' b = (if c' = c \<and> b = n then Some e else leaf_lookup s c' b)"
    if "wf_leaf bs s" "add_exception_to_leaf s c e (int n) active = Inr s'" "n < MAX_SNAPSHOTS"
      "leaf_covers s c" "leaf_covers s c'" for s c e n active s' c' b
    unfolding leaf_lookup_add [OF that(1,2,4,5)] using that(3)
    by (auto simp: snap_exception_add_snap leaf_lookup_def aleaf_lookup_def)
qed

section \<open>Disjoint shares\<close>

definition wf_leaf_shares :: "u64 \<Rightarrow> eleaf \<Rightarrow> bool" where
  "wf_leaf_shares active leaf \<longleftrightarrow> (\<forall>(k, es)\<in>set (leaf_abs leaf). wf_shares active es)"

lemma wf_shares_iff:
  "wf_shares active es \<longleftrightarrow>
     (\<forall>e\<in>set es. (\<exists>b. bit (ex_share e) b) \<and> (\<forall>b. bit (ex_share e) b \<longrightarrow> bit active b)) \<and>
     sorted_wrt (\<lambda>e f. \<forall>b. \<not> (bit (ex_share e) b \<and> bit (ex_share f) b)) es"
  unfolding wf_shares_def u64_eq_0_iff bit_and_iff bit_NOT_u64 not_not by (metis bit_u64_less)

lemma wf_shares_simps [simp]:
  "wf_shares active []"
  "wf_shares active (e # es) \<longleftrightarrow> (\<exists>b. bit (ex_share e) b) \<and> (\<forall>b. bit (ex_share e) b \<longrightarrow> bit active b) \<and>
     (\<forall>b. bit (ex_share e) b \<longrightarrow> \<not> bit (share_union es) b) \<and> wf_shares active es"
  by (auto simp: wf_shares_iff bit_share_union)

lemma bit_union_active: "wf_shares active es \<Longrightarrow> bit (share_union es) b \<Longrightarrow> bit active b"
  by (auto simp: wf_shares_iff bit_share_union)

lemma wf_shares_add_origin:
  assumes "wf_shares active es" "bit active b" "snap_exception es b = None"
  shows "wf_shares active (add_spec e (-1) active es)"
  using assms bit_u64_less by (auto simp: add_spec_def snap_exception_None_iff bit_and_iff bit_NOT_u64)

lemma clear_first_union:
  assumes "wf_shares active es"
  shows "bit (share_union (clear_first (2 ^ n) es)) b \<longleftrightarrow> bit (share_union es) b \<and> b \<noteq> n"
  using assms
proof (induction es)
  case Nil then show ?case by simp
next
  case (Cons a es)
  then show ?case
    by (auto simp: bit_or_iff and_snapbit_eq_0_iff bit_and_iff bit_NOT_u64 bit_snapbit dest: bit_u64_less)
qed

lemma wf_shares_clear_first:
  assumes "wf_shares active es" "\<And>e. find (\<lambda>e. bit (ex_share e) n) es = Some e \<Longrightarrow> ex_share e \<noteq> 2 ^ n"
  shows "wf_shares active (clear_first (2 ^ n) es)"
  using assms
proof (induction es)
  case Nil then show ?case by simp
next
  case (Cons a es)
  show ?case
  proof (cases "bit (ex_share a) n")
    case True
    with Cons.prems(2) [of a] have "ex_share a AND NOT (2 ^ n) \<noteq> 0" by (simp add: only_snapbit)
    moreover have "clear_first (2 ^ n) (a # es) = a\<lparr>ex_share := ex_share a AND NOT (2 ^ n)\<rparr> # es"
      using True by (simp add: and_snapbit_eq_0_iff)
    ultimately show ?thesis using Cons.prems(1) by (auto simp: u64_eq_0_iff bit_and_iff bit_NOT_u64)
  next
    case False
    with Cons show ?thesis by (auto simp: and_snapbit_eq_0_iff clear_first_union)
  qed
qed

lemma wf_shares_add_snap:
  assumes "wf_shares active es" "bit active n"
    "\<And>e. find (\<lambda>e. bit (ex_share e) n) es = Some e \<Longrightarrow> ex_share e \<noteq> 2 ^ n"
  shows "wf_shares active (add_spec e (int n) active es)"
  using assms bit_u64_less [OF assms(2)] wf_shares_clear_first [OF assms(1,3)]
  by (auto simp: add_spec_def bit_snapbit clear_first_union [OF assms(1)])

lemma bit_union_delete: "bit (share_union (delete_spec m es)) b \<longleftrightarrow> bit (share_union es) b \<and> \<not> bit m b"
  using snap_exception_None_iff [of "delete_spec m es" b] snap_exception_None_iff [of es b]
  by (auto simp: snap_exception_delete split: if_splits)

lemma wf_shares_delete:
  "wf_shares active es \<Longrightarrow> wf_shares (active AND NOT m) (delete_spec m es)"
proof (induction es)
  case Nil then show ?case by (simp add: delete_spec_def)
next
  case (Cons e es)
  have "delete_spec m (e # es) = delete_spec m [e] @ delete_spec m es" by (simp add: delete_spec_def)
  with Cons show ?case
    by (auto simp: delete_spec_single bit_union_delete u64_eq_0_iff bit_and_iff bit_NOT_u64)
qed

text \<open>The exceptions of one chunk are at most as many as there are snapshots.\<close>

lemma finite_bits: "finite {b. bit (w :: u64) b}"
  by (rule finite_subset [of _ "{..<64}"]) (auto dest: bit_u64_less)

lemma wf_shares_length: "wf_shares active es \<Longrightarrow> length es \<le> card {b. bit (share_union es) b}"
proof (induction es)
  case Nil then show ?case by simp
next
  case (Cons e es)
  then obtain b where b: "bit (ex_share e) b" "\<not> bit (share_union es) b" by auto
  have "Suc (card {b. bit (share_union es) b}) = card (insert b {b. bit (share_union es) b})"
    using b finite_bits by simp
  also have "\<dots> \<le> card {b. bit (share_union (e # es)) b}"
    using b by (intro card_mono finite_bits) (auto simp: bit_or_iff)
  finally show ?case using Cons by simp
qed

lemma wf_shares_length_le_active:
  assumes "wf_shares active es"
  shows "length es \<le> card {b. bit active b}" "length es \<le> MAX_SNAPSHOTS"
proof -
  have "card {b. bit (share_union es) b} \<le> card {b. bit active b}"
    using assms bit_union_active by (intro card_mono finite_bits) auto
  moreover have "card {b. bit active b} \<le> card {..<64::nat}"
    by (intro card_mono) (auto dest: bit_u64_less)
  ultimately show "length es \<le> card {b. bit active b}" "length es \<le> MAX_SNAPSHOTS"
    using wf_shares_length [OF assms] by auto
qed

lemma leaf_abs_entry: "i < leaf_count leaf \<Longrightarrow> (leaf_rchunk leaf i, exceptions leaf i) \<in> set (leaf_abs leaf)"
  by (auto simp: leaf_abs_def)

text \<open>A leaf that is full holds at least two chunks, so that it can be split.\<close>

lemma full_leaf_count:
  assumes wf: "wf_leaf bs leaf" and sh: "wf_leaf_shares active leaf" and bs: "1088 \<le> bs"
    and full: "leaf_freespace leaf < 24"
  shows "2 \<le> leaf_count leaf"
proof (rule ccontr)
  assume "\<not> 2 \<le> leaf_count leaf"
  then consider "leaf_count leaf = 0" | "leaf_count leaf = 1" by linarith
  then have "bs - 1024 \<le> emap leaf 0"
  proof cases
    case 1 then show ?thesis using wf_leaf_simps(3) [OF wf] by simp
  next
    case 2
    have "wf_shares active (exceptions leaf 0)"
      using sh leaf_abs_entry [of 0 leaf] 2 by (auto simp: wf_leaf_shares_def)
    from wf_shares_length_le_active(2) [OF this] have "length (exceptions leaf 0) \<le> 64" by simp
    moreover obtain n where "emap leaf (Suc 0) = emap leaf 0 + 16 * n"
      using leaf_layout_Suc [OF wf_leaf_simps(1) [OF wf], of 0] 2 by auto
    ultimately show ?thesis
      using wf_leaf_simps(3) [OF wf] length_exceptions [OF wf_leaf_simps(1) [OF wf], of 0] 2 by simp
  qed
  then show False
    using full bs \<open>\<not> 2 \<le> leaf_count leaf\<close> by (simp add: leaf_freespace_eq [OF wf] map_addr_def)
qed

lemma leaf_payload_ge:
  assumes wf: "wf_leaf bs leaf" and "leaf_count leaf \<noteq> 0"
  shows "24 \<le> leaf_payload leaf"
proof -
  have lay: "leaf_layout bs leaf" by (rule wf_leaf_simps(1) [OF wf])
  have "emap leaf 0 \<noteq> emap leaf (Suc 0)" using wf assms(2) by (simp add: wf_leaf_def)
  moreover obtain n where "emap leaf (Suc 0) = emap leaf 0 + 16 * n"
    using leaf_layout_Suc [OF lay, of 0] assms(2) by auto
  moreover have "emap leaf (Suc 0) \<le> emap leaf (leaf_count leaf)"
    using assms(2) by (intro leaf_layout_mono [OF lay]) auto
  ultimately show ?thesis using assms(2) by (simp add: leaf_payload_def map_addr_def Let_def)
qed

lemma split_leaf_room:
  assumes wf: "wf_leaf bs leaf" and sh: "wf_leaf_shares active leaf" and bs: "1088 \<le> bs"
    and full: "leaf_freespace leaf < 24" and sp: "split_leaf leaf leaf2 = (splitpoint, l, r)"
  shows "24 \<le> leaf_freespace l" "24 \<le> leaf_freespace r"
proof -
  have "leaf_count l \<noteq> 0" "leaf_count r \<noteq> 0"
    using full_leaf_count [OF wf sh bs full] split_leaf_eq(2,3) [OF sp] by (auto simp: split_head_def)
  then show "24 \<le> leaf_freespace l" "24 \<le> leaf_freespace r"
    using leaf_payload_ge [OF split_leaf_wf(1) [OF sp wf]] leaf_payload_ge [OF split_leaf_wf(2) [OF sp wf]]
      split_leaf_wf(3,4) [OF sp wf] by auto
qed

end
