(* ===== verification/Leaf_Correct.thy ===== *)
theory Leaf_Correct
  imports Leaf_Share
begin

text \<open>
  The properties of the leaf routines, each with an instance on a concrete leaf.
  \<open>demo_leaf\<close> is a 4096 byte block that holds exceptions for the chunks 5
  (shared by snapshots 0 and 1) and 9 (snapshot 0); \<open>packed_leaf\<close> is the
  smallest block without any room, with 64 exceptions for one chunk.
\<close>

definition demo_leaf :: eleaf where
  "demo_leaf = \<lparr>leaf_magic = 0x1eaf, leaf_version = 0, leaf_count = 2, leaf_base_chunk = 0,
     leaf_using_mask = 0,
     leaf_map = [\<lparr>map_offset = 4064, map_rchunk = 5\<rparr>, \<lparr>map_offset = 4080, map_rchunk = 9\<rparr>,
                 \<lparr>map_offset = 4096, map_rchunk = 0\<rparr>],
     leaf_data = (\<lambda>a. if a = 4064 then \<lparr>ex_share = 3, ex_chunk = 100\<rparr>
                      else \<lparr>ex_share = 1, ex_chunk = 101\<rparr>)\<rparr>"

definition packed_leaf :: eleaf where
  "packed_leaf = \<lparr>leaf_magic = 0x1eaf, leaf_version = 0, leaf_count = 2, leaf_base_chunk = 0,
     leaf_using_mask = 0,
     leaf_map = [\<lparr>map_offset = 48, map_rchunk = 5\<rparr>, \<lparr>map_offset = 1072, map_rchunk = 9\<rparr>,
                 \<lparr>map_offset = 1088, map_rchunk = 0\<rparr>],
     leaf_data = (\<lambda>a. if a < 1072 then \<lparr>ex_share = 2 ^ ((a - 48) div 16), ex_chunk = a\<rparr>
                      else \<lparr>ex_share = 1, ex_chunk = 7\<rparr>)\<rparr>"

lemma demo_leaf_wf: "wf_leaf 4096 demo_leaf" "wf_leaf_shares 3 demo_leaf"
  by code_simp+

lemma packed_leaf_abs:
  "leaf_abs packed_leaf = [(5, map (\<lambda>k. \<lparr>ex_share = 2 ^ k, ex_chunk = 48 + 16 * k\<rparr>) [0..<64]),
     (9, [\<lparr>ex_share = 1, ex_chunk = 7\<rparr>])]"
  by (simp add: leaf_abs_def packed_leaf_def exceptions_def exc_ptrs_def emap_def upt_rec [of 0 2]
      upt_rec [of "Suc 0" 2] comp_def)

lemma packed_leaf_wf: "wf_leaf 1088 packed_leaf" "wf_leaf_shares (- 1) packed_leaf"
proof -
  show "wf_leaf 1088 packed_leaf" by code_simp
  have "\<exists>b. bit (1 :: u64) b" by (rule exI [of _ 0]) simp
  then show "wf_leaf_shares (- 1) packed_leaf"
    by (auto simp: wf_leaf_shares_def packed_leaf_abs wf_shares_iff sorted_wrt_map bit_snapbit
        sorted_wrt_iff_nth_less bit_1_iff dest: bit_u64_less)
qed

text \<open>
  C11: \<open>add_exception_to_leaf\<close> implements the insertion into the sorted
  association list of chunks.  It answers \<open>-EFULL\<close> exactly when the free
  space of the block is smaller than what the new exception needs; otherwise
  the block stays well formed, holds the updated list and has lost exactly that
  space.
\<close>

theorem add_exception_to_leaf_correct:
  assumes "wf_leaf bs leaf"
  shows "case add_exception_to_leaf leaf chunk exception snapshot active of
      Inl err \<Rightarrow> err = EFULL \<and> leaf_freespace leaf < leaf_need leaf chunk
    | Inr leaf' \<Rightarrow> wf_leaf bs leaf' \<and>
        leaf_abs leaf' =
          add_exception_spec (leaf_target leaf chunk) exception snapshot active (leaf_abs leaf) \<and>
        leaf_freespace leaf' + leaf_need leaf chunk = leaf_freespace leaf"
proof (cases "leaf_freespace leaf < leaf_need leaf chunk")
  case True
  then show ?thesis using add_exception_to_leaf_full [OF assms, of chunk exception snapshot active] by simp
next
  case False
  then show ?thesis using add_exception_to_leaf_ok [OF assms, of chunk exception snapshot active] by auto
qed

theorem add_exception_to_leaf_correct_witness:
  "wf_leaf 4096 demo_leaf \<and>
   (case add_exception_to_leaf demo_leaf 7 200 (-1) 3 of
      Inl err \<Rightarrow> False
    | Inr leaf' \<Rightarrow> wf_leaf 4096 leaf' \<and> leaf_freespace leaf' = 3992 \<and>
        leaf_abs leaf' = [(5, [\<lparr>ex_share = 3, ex_chunk = 100\<rparr>]), (7, [\<lparr>ex_share = 3, ex_chunk = 200\<rparr>]),
                          (9, [\<lparr>ex_share = 1, ex_chunk = 101\<rparr>])])"
proof -
  have "leaf_freespace demo_leaf = 4016" "leaf_need demo_leaf 7 = 24"
    "add_exception_spec (leaf_target demo_leaf 7) 200 (-1) 3 (leaf_abs demo_leaf) =
       [(5, [\<lparr>ex_share = 3, ex_chunk = 100\<rparr>]), (7, [\<lparr>ex_share = 3, ex_chunk = 200\<rparr>]),
        (9, [\<lparr>ex_share = 1, ex_chunk = 101\<rparr>])]"
    by code_simp+
  then show ?thesis
    using demo_leaf_wf add_exception_to_leaf_correct [of 4096 demo_leaf 7 200 "-1" 3]
    by (auto split: sum.splits)
qed

text \<open>
  A write to the origin is invisible to every snapshot.  Once the old
  contents of the chunk were copied to a free chunk of the snapshot store and
  the exception was added to the leaf, overwriting the chunk on the origin
  changes no chunk of any active snapshot.
\<close>

theorem origin_write_keeps_snapshots:
  assumes "wf_leaf bs leaf"
    and "add_exception_to_leaf leaf chunk exception (-1) active = Inr leaf'"
    and "leaf_covers leaf chunk" "leaf_covers leaf c"
    and "\<forall>c b. leaf_covers leaf c \<longrightarrow> leaf_lookup leaf c b \<noteq> Some exception"
    and "bit active b"
  shows "snap_read (leaf_lookup leaf') (origin(chunk := d)) (store(exception := origin chunk)) b c =
    snap_read (leaf_lookup leaf) origin store b c"
  by (rule leaf_cow.origin_write_invisible [OF assms(1-4) _ assms(6)])
    (use assms(5) in \<open>simp add: leaf_cow.fresh_def\<close>)

lemma demo_leaf_values:
  assumes "leaf_lookup demo_leaf c b = Some e" shows "e = 100 \<or> e = 101"
proof -
  have "leaf_abs demo_leaf = [(5, [\<lparr>ex_share = 3, ex_chunk = 100\<rparr>]), (9, [\<lparr>ex_share = 1, ex_chunk = 101\<rparr>])]"
    by code_simp
  with assms show ?thesis
    by (auto simp: leaf_lookup_def aleaf_lookup_def aleaf_get_def split: if_splits)
qed

theorem origin_write_keeps_snapshots_witness:
  "\<exists>leaf'. add_exception_to_leaf demo_leaf 9 200 (-1) 3 = Inr leaf' \<and>
     (\<forall>origin store d. snap_read (leaf_lookup leaf') (origin(9 := d)) (store(200 := origin 9)) 1 9 =
        snap_read (leaf_lookup demo_leaf) origin (store :: nat \<Rightarrow> nat) 1 9)"
proof -
  have need: "leaf_need demo_leaf 9 \<le> leaf_freespace demo_leaf" by code_simp
  obtain leaf' where run: "add_exception_to_leaf demo_leaf 9 200 (-1) 3 = Inr leaf'"
    using add_exception_to_leaf_ok [OF demo_leaf_wf(1) need, of 200 "-1" 3] by auto
  have cov: "leaf_covers demo_leaf 9" by code_simp
  have fr: "\<forall>c b. leaf_covers demo_leaf c \<longrightarrow> leaf_lookup demo_leaf c b \<noteq> Some 200"
    using demo_leaf_values by fastforce
  have "bit (3 :: u64) 1" by simp
  then show ?thesis
    using run by (intro exI [of _ leaf'] conjI allI origin_write_keeps_snapshots [OF demo_leaf_wf(1) run cov cov fr])
qed

text \<open>
  C12: a write to a snapshot is private.  After the exception was added for
  snapshot \<open>n\<close> and its chunk of the store was overwritten, this snapshot reads
  the new data there; every other snapshot, and every other chunk of this one,
  reads what it read before, even when the chunk was shared before.
\<close>

theorem snapshot_write_private:
  assumes "wf_leaf bs leaf"
    and "add_exception_to_leaf leaf chunk exception (int n) active = Inr leaf'" "n < MAX_SNAPSHOTS"
    and "leaf_covers leaf chunk" "leaf_covers leaf c"
    and "\<forall>c b. leaf_covers leaf c \<longrightarrow> leaf_lookup leaf c b \<noteq> Some exception"
  shows "snap_read (leaf_lookup leaf') origin (store(exception := d)) b c =
    (if c = chunk \<and> b = n then d else snap_read (leaf_lookup leaf) origin store b c)"
  using leaf_cow.snap_write_other [OF assms(1-5), of b origin store d]
    leaf_cow.snap_write_self [OF assms(1-4), of origin store d] assms(6)
  by (auto simp: leaf_cow.fresh_def)

theorem snapshot_write_private_witness:
  "\<exists>leaf'. add_exception_to_leaf demo_leaf 5 200 (int 1) 3 = Inr leaf' \<and>
     (\<forall>origin store d. snap_read (leaf_lookup leaf') origin (store(200 := d)) 1 5 = (d :: nat) \<and>
        snap_read (leaf_lookup leaf') origin (store(200 := d)) 0 5 = store 100)"
proof -
  have need: "leaf_need demo_leaf 5 \<le> leaf_freespace demo_leaf" by code_simp
  obtain leaf' where run: "add_exception_to_leaf demo_leaf 5 200 (int 1) 3 = Inr leaf'"
    using add_exception_to_leaf_ok [OF demo_leaf_wf(1) need, of 200 "int 1" 3] by auto
  have cov: "leaf_covers demo_leaf 5" by code_simp
  have fr: "\<forall>c b. leaf_covers demo_leaf c \<longrightarrow> leaf_lookup demo_leaf c b \<noteq> Some 200"
    using demo_leaf_values by fastforce
  have n: "1 < MAX_SNAPSHOTS" by simp
  have "leaf_lookup demo_leaf 5 0 = Some 100" by code_simp
  then show ?thesis
    using run by (intro exI [of _ leaf'])
      (simp add: snapshot_write_private [OF demo_leaf_wf(1) run n cov cov fr], simp add: snap_read_def)
qed

text \<open>
  C13: the exceptions of a chunk stay disjoint.  The server adds an exception
  only when the enquiry that precedes it answered that the chunk is not unique
  yet; then the share masks of every chunk of the leaf remain disjoint,
  non-empty sets of active snapshots.
\<close>

theorem add_exception_keeps_shares:
  assumes "wf_leaf bs leaf" "wf_leaf_shares active leaf" "leaf_covers leaf chunk"
    and "add_exception_to_leaf leaf chunk exception snapshot active = Inr leaf'"
    and "if snapshot = -1 then \<not> origin_chunk_unique leaf chunk active
         else 0 \<le> snapshot \<and> bit active (nat snapshot) \<and>
           \<not> fst (snapshot_chunk_unique leaf chunk (nat snapshot) old)"
  shows "wf_leaf_shares active leaf'"
proof -
  let ?es = "aleaf_get (leaf_abs leaf) (leaf_target leaf chunk)"
  have es: "wf_shares active ?es"
    using assms(2) by (auto simp: wf_leaf_shares_def aleaf_get_def split: option.split dest: map_of_SomeD)
  have "wf_shares active (add_spec exception snapshot active ?es)"
  proof (cases "snapshot = -1")
    case True
    then show ?thesis
      using assms(5) wf_shares_add_origin [OF es]
      by (auto simp: origin_chunk_unique_lookup [OF assms(3)] leaf_lookup_def aleaf_lookup_def)
  next
    case False
    then obtain n where n: "snapshot = int n" "bit active n"
      "\<not> fst (snapshot_chunk_unique leaf chunk n old)" using assms(5) by (metis nat_0_le)
    show ?thesis
      unfolding n(1) by (rule wf_shares_add_snap [OF es n(2)]) (use n(3) in \<open>simp add: snapshot_chunk_unique_eq\<close>)
  qed
  moreover have "k = leaf_target leaf chunk \<and> es = add_spec exception snapshot active ?es \<or>
      (k, es) \<in> set (leaf_abs leaf)" if "(k, es) \<in> set (leaf_abs leaf')" for k es
    using that unfolding add_exception_to_leaf_result(3) [OF assms(1,4)]
    by (rule add_exception_spec_entry [OF wf_leaf_simps(6) [OF assms(1)]])
  ultimately show ?thesis using assms(2) unfolding wf_leaf_shares_def by blast
qed

theorem add_exception_keeps_shares_witness:
  "\<exists>leaf'. add_exception_to_leaf demo_leaf 5 200 1 3 = Inr leaf' \<and> wf_leaf_shares 3 leaf'"
proof -
  have need: "leaf_need demo_leaf 5 \<le> leaf_freespace demo_leaf" by code_simp
  obtain leaf' where run: "add_exception_to_leaf demo_leaf 5 200 1 3 = Inr leaf'"
    using add_exception_to_leaf_ok [OF demo_leaf_wf(1) need, of 200 1 3] by auto
  have cov: "leaf_covers demo_leaf 5" by code_simp
  have nu: "\<not> fst (snapshot_chunk_unique demo_leaf 5 1 0)" by code_simp
  have "if (1 :: int) = -1 then \<not> origin_chunk_unique demo_leaf 5 3
    else 0 \<le> (1 :: int) \<and> bit (3 :: u64) (nat 1) \<and> \<not> fst (snapshot_chunk_unique demo_leaf 5 (nat 1) 0)"
    using nu by simp
  from add_exception_keeps_shares [OF demo_leaf_wf cov run this] run show ?thesis by blast
qed



text \<open>
  C15: splitting a full leaf always makes room.  When the exception did not
  fit and the leaf was split, the second attempt succeeds in either half
  (the case the code reports as ``new leaf has no space'' cannot happen), for
  blocks of at least 1088 bytes: a chunk has at most 64 exceptions, so that a
  full leaf has at least two chunks.
\<close>

theorem split_then_add_succeeds:
  assumes "wf_leaf bs leaf" "wf_leaf_shares active leaf" "1088 \<le> bs"
    and "add_exception_to_leaf leaf chunk exception snapshot active = Inl EFULL"
    and "split_leaf leaf leaf2 = (splitpoint, l, r)"
  shows "(\<exists>l'. add_exception_to_leaf l chunk exception snapshot active = Inr l') \<and>
    (\<exists>r'. add_exception_to_leaf r chunk exception snapshot active = Inr r')"
proof -
  have need: "leaf_need x chunk \<le> 24" for x by (simp add: leaf_need_def)
  have "leaf_freespace leaf < 24"
    using add_exception_to_leaf_full [OF assms(1), of chunk exception snapshot active] assms(4) need [of leaf]
    by simp
  note room = split_leaf_room [OF assms(1-3) this assms(5)]
  show ?thesis
    using add_exception_to_leaf_ok [OF split_leaf_wf(1) [OF assms(5,1)] order_trans [OF need room(1)]]
      add_exception_to_leaf_ok [OF split_leaf_wf(2) [OF assms(5,1)] order_trans [OF need room(2)]]
    by blast
qed

theorem split_then_add_succeeds_witness:
  "add_exception_to_leaf packed_leaf 9 200 1 (- 1) = Inl EFULL \<and>
   (\<exists>l'. add_exception_to_leaf (fst (snd (split_leaf packed_leaf packed_leaf))) 9 200 1 (- 1) = Inr l') \<and>
   (\<exists>r'. add_exception_to_leaf (snd (snd (split_leaf packed_leaf packed_leaf))) 9 200 1 (- 1) = Inr r')"
proof -
  obtain sp l r where sp: "split_leaf packed_leaf packed_leaf = (sp, l, r)" by (metis prod_cases3)
  have "leaf_freespace packed_leaf < leaf_need packed_leaf 9"
    by (simp add: leaf_need_def leaf_freespace_def packed_leaf_def emap_def map_addr_def u32_sub_def)
  then have full: "add_exception_to_leaf packed_leaf 9 200 1 (- 1) = Inl EFULL"
    using add_exception_to_leaf_full [OF packed_leaf_wf(1), of 9 200 1 "- 1"] by simp
  from split_then_add_succeeds [OF packed_leaf_wf order_refl full sp] full sp show ?thesis by simp
qed

text \<open>
  C16: \<open>split_leaf\<close> divides the chunks of a leaf.  Both halves are well formed
  and non-empty, together they hold the chunks of the leaf in order, and the
  returned split point separates them: the first half has the chunks below it,
  the second half the chunks from it on.
\<close>

theorem split_leaf_correct:
  assumes "wf_leaf bs leaf" "2 \<le> leaf_count leaf" "split_leaf leaf leaf2 = (splitpoint, l, r)"
  shows "wf_leaf bs l \<and> wf_leaf bs r \<and> leaf_count l \<noteq> 0 \<and> leaf_count r \<noteq> 0 \<and>
    leaf_abs l @ leaf_abs r = leaf_abs leaf \<and>
    (\<forall>(k, es)\<in>set (leaf_abs l). leaf_base_chunk leaf + k < splitpoint) \<and>
    (\<forall>(k, es)\<in>set (leaf_abs r). splitpoint \<le> leaf_base_chunk leaf + k)"
proof -
  let ?h = "split_head leaf"
  have h: "0 < ?h" "?h < leaf_count leaf" using assms(2) by (auto simp: split_head_def)
  have abs: "leaf_abs l @ leaf_abs r = leaf_abs leaf"
    by (simp add: split_leaf_abs [OF assms(3) wf_leaf_simps(1) [OF assms(1)]])
  have sp: "splitpoint = leaf_base_chunk leaf + fst (hd (leaf_abs r))"
    using h by (simp add: split_leaf_eq(1) [OF assms(3)]
      split_leaf_abs(2) [OF assms(3) wf_leaf_simps(1) [OF assms(1)]] hd_drop_conv_nth leaf_abs_nth)
  have ne: "leaf_abs r \<noteq> []"
    using h by (simp add: split_leaf_abs(2) [OF assms(3) wf_leaf_simps(1) [OF assms(1)]])
  have srt: "sorted_wrt (<) (map fst (leaf_abs l) @ map fst (leaf_abs r))"
    using wf_leaf_simps(6) [OF assms(1)] by (simp flip: abs)
  have "\<forall>(k, es)\<in>set (leaf_abs l). leaf_base_chunk leaf + k < splitpoint"
    using srt ne unfolding sp by (auto simp: sorted_wrt_append)
  moreover have "\<forall>(k, es)\<in>set (leaf_abs r). splitpoint \<le> leaf_base_chunk leaf + k"
    using srt ne unfolding sp by (cases "leaf_abs r") (auto simp: sorted_wrt_append less_imp_le)
  ultimately show ?thesis
    using split_leaf_wf(1,2) [OF assms(3,1)] split_leaf_eq(2,3) [OF assms(3)] h abs by auto
qed

theorem split_leaf_correct_witness:
  "leaf_abs (fst (snd (split_leaf packed_leaf demo_leaf))) @
     leaf_abs (snd (snd (split_leaf packed_leaf demo_leaf))) = leaf_abs packed_leaf"
proof -
  obtain sp l r where sp: "split_leaf packed_leaf demo_leaf = (sp, l, r)" by (metis prod_cases3)
  have "2 \<le> leaf_count packed_leaf" by code_simp
  from split_leaf_correct [OF packed_leaf_wf(1) this sp] sp show ?thesis by simp
qed

text \<open>
  C17: merging the two halves of a split leaf gives back a leaf with the same
  exceptions and the same free space.
\<close>

theorem merge_split_roundtrip:
  assumes "wf_leaf bs leaf" "split_leaf leaf leaf2 = (splitpoint, l, r)"
  shows "wf_leaf bs (merge_leaves l r) \<and> leaf_abs (merge_leaves l r) = leaf_abs leaf \<and>
    leaf_freespace (merge_leaves l r) = leaf_freespace leaf"
proof -
  note wf = split_leaf_wf [OF assms(2,1)]
  have abs: "leaf_abs l @ leaf_abs r = leaf_abs leaf"
    by (simp add: split_leaf_abs [OF assms(2) wf_leaf_simps(1) [OF assms(1)]])
  have ord: "k < k'" if "k \<in> fst ` set (leaf_abs l)" "k' \<in> fst ` set (leaf_abs r)" for k k'
    using wf_leaf_simps(6) [OF assms(1)] that by (auto simp: sorted_wrt_append simp flip: abs)
  have "leaf_payload r \<le> leaf_freespace l" using wf(3) by simp
  from merge_leaves_wf [OF wf(1,2) this ord] abs wf(3) show ?thesis by simp
qed

theorem merge_split_roundtrip_witness:
  "leaf_abs (merge_leaves (fst (snd (split_leaf demo_leaf packed_leaf)))
     (snd (snd (split_leaf demo_leaf packed_leaf)))) = leaf_abs demo_leaf"
proof -
  obtain sp l r where sp: "split_leaf demo_leaf packed_leaf = (sp, l, r)" by (metis prod_cases3)
  from merge_split_roundtrip [OF demo_leaf_wf(1) this] sp show ?thesis by simp
qed

text \<open>
  C18: removing a set of snapshots from a leaf.  The removed snapshots find
  nothing any more, every other snapshot finds what it found before, the check
  for left-over bits succeeds, and exactly the exceptions that only removed
  snapshots shared are freed, from the end of the leaf to its start.
\<close>

theorem delete_snapshots_from_leaf_correct:
  assumes "wf_leaf bs leaf" "wf_leaf_shares active leaf"
    and "delete_snapshots_from_leaf freex dcheck m leaf s = (any, leaf', s')"
  shows "wf_leaf bs leaf' \<and> wf_leaf_shares (active AND NOT m) leaf' \<and>
    (\<forall>c b. leaf_lookup leaf' c b = (if bit m b then None else leaf_lookup leaf c b)) \<and>
    check_leaf leaf' m = [] \<and> (any \<longleftrightarrow> check_leaf leaf m \<noteq> []) \<and>
    s' = fold (\<lambda>e s. dcheck (if ex_share e AND NOT m \<noteq> 0 then s else freex (ex_chunk e) s))
           (rev (concat (map snd (leaf_abs leaf)))) s"
proof -
  obtain any' where run: "delete_snapshots_from_leaf_aux freex dcheck m leaf s = (any', leaf', s')"
    and any: "any \<longleftrightarrow> any' \<noteq> 0"
    using assms(3) by (auto simp: delete_snapshots_from_leaf_def split: prod.splits)
  note d = delete_snapshots_from_leaf_aux_correct [OF assms(1) run]
  have tg: "leaf_target leaf' c = leaf_target leaf c" for c by (simp add: leaf_target_def d(3))
  have look: "leaf_lookup leaf' c b = (if bit m b then None else leaf_lookup leaf c b)" for c b
    by (simp add: leaf_lookup_def aleaf_lookup_def tg d(2) aleaf_get_delete [OF wf_leaf_simps(6) [OF assms(1)]]
        snap_exception_delete)
  have sh: "wf_leaf_shares (active AND NOT m) leaf'"
    using assms(2) by (auto simp: wf_leaf_shares_def d(2) delete_leaf_spec_def intro!: wf_shares_delete)
  have "wf_shares (active AND NOT m) es \<Longrightarrow> e \<in> set es \<Longrightarrow> ex_share e AND m = 0" for e es
    by (auto simp: wf_shares_iff u64_eq_0_iff bit_and_iff bit_NOT_u64)
  then have "check_leaf leaf' m = []"
    using sh by (auto simp: check_leaf_def filter_empty_conv wf_leaf_shares_def leaf_abs_def)
  moreover have "any \<longleftrightarrow> check_leaf leaf m \<noteq> []"
    by (auto simp: any d(5) check_leaf_def filter_empty_conv u64_eq_0_iff bit_and_iff bit_share_union
      leaf_exceptions_def)
  moreover have "leaf_exceptions leaf = concat (map snd (leaf_abs leaf))"
    by (simp add: leaf_exceptions_def leaf_abs_def comp_def)
  ultimately show ?thesis using d(1,6) look sh unfolding delete_effect_def [abs_def] by simp
qed

theorem delete_snapshots_from_leaf_correct_witness:
  "snd (snd (delete_snapshots_from_leaf (#) id 1 demo_leaf [])) = [101] \<and>
   leaf_lookup (fst (snd (delete_snapshots_from_leaf (#) id 1 demo_leaf []))) 5 1 = Some 100"
proof -
  obtain any leaf' s' where run: "delete_snapshots_from_leaf (#) id 1 demo_leaf [] = (any, leaf', s')"
    by (metis prod_cases3)
  have "leaf_lookup demo_leaf 5 1 = Some 100" by code_simp
  moreover have "concat (map snd (leaf_abs demo_leaf)) = [\<lparr>ex_share = 3, ex_chunk = 100\<rparr>, \<lparr>ex_share = 1, ex_chunk = 101\<rparr>]"
    by code_simp
  ultimately show ?thesis
    using delete_snapshots_from_leaf_correct [OF demo_leaf_wf run] run by simp
qed

text \<open>
  C19: chunks that lie \<open>2 ^ 32\<close> or more above the base of the leaf.  The
  enquiry for the origin compares the directory with the whole 64 bit distance,
  while the directory keeps 32 bits of it: whatever was recorded, such a chunk
  never counts as unique as long as there is a snapshot, so that every write to
  it copies it again.
\<close>

theorem distant_chunk_never_unique:
  assumes "wf_leaf bs leaf" "2 ^ 32 \<le> u64_sub chunk (leaf_base_chunk leaf)"
    and "add_exception_to_leaf leaf chunk exception (-1) active = Inr leaf'"
  shows "origin_chunk_unique leaf' chunk snapmask \<longleftrightarrow> snapmask = 0"
proof -
  note r = add_exception_to_leaf_result [OF assms(1,3)]
  have "find_rchunk leaf' (u64_sub chunk (leaf_base_chunk leaf)) = None"
    using assms(2) r(1) by (auto simp: find_rchunk_def find_None_iff wf_leaf_def)
  then show ?thesis by (simp add: origin_chunk_unique_def r(2))
qed

theorem distant_chunk_never_unique_witness:
  "\<exists>leaf'. add_exception_to_leaf demo_leaf (2 ^ 32 + 6) 200 (-1) 3 = Inr leaf' \<and>
     \<not> origin_chunk_unique leaf' (2 ^ 32 + 6) 3 \<and> leaf_lookup leaf' 6 0 = Some 200"
proof -
  have need: "leaf_need demo_leaf (2 ^ 32 + 6) \<le> leaf_freespace demo_leaf" by code_simp
  obtain leaf' where run: "add_exception_to_leaf demo_leaf (2 ^ 32 + 6) 200 (-1) 3 = Inr leaf'"
    using add_exception_to_leaf_ok [OF demo_leaf_wf(1) need, of 200 "-1" 3] by auto
  have far: "2 ^ 32 \<le> u64_sub (2 ^ 32 + 6) (leaf_base_chunk demo_leaf)" by code_simp
  note r = add_exception_to_leaf_result [OF demo_leaf_wf(1) run]
  have "aleaf_lookup (add_exception_spec (leaf_target demo_leaf (2 ^ 32 + 6)) 200 (- 1) 3 (leaf_abs demo_leaf))
      (leaf_target demo_leaf 6) 0 = Some 200"
    by code_simp
  then have "leaf_lookup leaf' 6 0 = Some 200" by (simp add: leaf_lookup_def r(2,3) leaf_target_def)
  then show ?thesis using run distant_chunk_never_unique [OF demo_leaf_wf(1) far run, of 3] by simp
qed

end
