(* ===== verification/Store.thy ===== *)
theory Store
  imports Leaf
begin

text \<open>
  The metadata device as the server sees it through the buffer cache
  (\<open>src/ddsnap/buffer.c\<close>): a block per sector address, the contents of
  buffers that may differ from the device, and the lists of dirty and of
  journaled buffers in the order the code keeps them.  Blocks are typed by what
  the server stores in them: index nodes, leaves, allocation bitmaps and
  journal commit blocks; the code casts the bytes of a buffer to the one it
  expects at that address.

  Reading may fail (\<open>bad_sector\<close>); the cache itself, with its hash table,
  reference counts and eviction, is the subject of theories Buffer and
  Buffer_Correct.
\<close>

section \<open>Blocks\<close>

record index_entry =
  ie_key :: chunk_t
  ie_sector :: sector_t

text \<open>\<open>struct enode\<close>: \<open>count\<close> is the length of the list of entries in use.\<close>

record enode =
  node_entries :: "index_entry list"

definition node_count :: "enode \<Rightarrow> nat" where
  "node_count node = length (node_entries node)"

record alloc_range =
  range_chunk :: chunk_t
  range_barrier :: bool
  range_count :: nat

record commit_block =
  cb_checksum :: u32
  cb_sequence :: u32
  cb_snapfree :: nat
  cb_metafree :: nat
  cb_alloc :: alloc_range
  cb_sector :: "sector_t list"

datatype block = NodeB enode | LeafB eleaf | BitmapB "u8 list" | CommitB commit_block | RawB

text \<open>The casts of a buffer; a buffer of another kind reads as an empty structure.\<close>

definition no_leaf :: eleaf where
  "no_leaf = \<lparr>leaf_magic = 0, leaf_version = 0, leaf_count = 0, leaf_base_chunk = 0, leaf_using_mask = 0,
     leaf_map = [], leaf_data = (\<lambda>_. \<lparr>ex_share = 0, ex_chunk = 0\<rparr>)\<rparr>"

fun buffer2node :: "block \<Rightarrow> enode" where
  "buffer2node (NodeB node) = node"
| "buffer2node _ = \<lparr>node_entries = []\<rparr>"

fun buffer2leaf :: "block \<Rightarrow> eleaf" where
  "buffer2leaf (LeafB leaf) = leaf"
| "buffer2leaf _ = no_leaf"

fun buffer2bitmap :: "block \<Rightarrow> u8 list" where
  "buffer2bitmap (BitmapB bytes) = bytes"
| "buffer2bitmap _ = []"

fun is_commit_block :: "block \<Rightarrow> bool" where
  "is_commit_block (CommitB c) = True"
| "is_commit_block _ = False"

fun buf2commit :: "block \<Rightarrow> commit_block" where
  "buf2commit (CommitB c) = c"
| "buf2commit _ = \<lparr>cb_checksum = 0, cb_sequence = 0, cb_snapfree = 0, cb_metafree = 0,
     cb_alloc = \<lparr>range_chunk = 0, range_barrier = False, range_count = 0\<rparr>, cb_sector = []\<rparr>"

section \<open>Buffers\<close>

record store =
  disk :: "sector_t \<Rightarrow> block"
  cache :: "sector_t \<Rightarrow> block option"
  dirty_buffers :: "sector_t list"
  journaled_buffers :: "sector_t list"
  bad_sector :: "sector_t \<Rightarrow> bool"

text \<open>The current contents of a block, whether they are on the device already or not.\<close>

definition view :: "'a store_scheme \<Rightarrow> sector_t \<Rightarrow> block" where
  "view s sector = (case cache s sector of Some b \<Rightarrow> b | None \<Rightarrow> disk s sector)"

definition bread :: "'a store_scheme \<Rightarrow> sector_t \<Rightarrow> block option" where
  "bread s sector =
     (case cache s sector of
        Some b \<Rightarrow> Some b
      | None \<Rightarrow> if bad_sector s sector then None else Some (disk s sector))"

text \<open>An update of the data of a buffer in place.\<close>

definition set_data :: "sector_t \<Rightarrow> block \<Rightarrow> 'a store_scheme \<Rightarrow> 'a store_scheme" where
  "set_data sector b s = s\<lparr>cache := (cache s)(sector \<mapsto> b)\<rparr>"

definition set_buffer_dirty :: "sector_t \<Rightarrow> 'a store_scheme \<Rightarrow> 'a store_scheme" where
  "set_buffer_dirty sector s =
     (if sector \<in> set (dirty_buffers s) then s
      else s\<lparr>journaled_buffers := remove1 sector (journaled_buffers s),
             dirty_buffers := dirty_buffers s @ [sector]\<rparr>)"

definition add_buffer_journaled :: "sector_t \<Rightarrow> 'a store_scheme \<Rightarrow> 'a store_scheme" where
  "add_buffer_journaled sector s =
     s\<lparr>dirty_buffers := remove1 sector (dirty_buffers s),
       journaled_buffers := journaled_buffers s @ [sector]\<rparr>"

definition set_buffer_uptodate :: "sector_t \<Rightarrow> 'a store_scheme \<Rightarrow> 'a store_scheme" where
  "set_buffer_uptodate sector s =
     s\<lparr>dirty_buffers := remove1 sector (dirty_buffers s),
       journaled_buffers := remove1 sector (journaled_buffers s)\<rparr>"

definition set_buffer_empty :: "sector_t \<Rightarrow> 'a store_scheme \<Rightarrow> 'a store_scheme" where
  "set_buffer_empty sector s = (set_buffer_uptodate sector s)\<lparr>cache := (cache s)(sector := None)\<rparr>"

definition write_buffer_to :: "sector_t \<Rightarrow> sector_t \<Rightarrow> 'a store_scheme \<Rightarrow> 'a store_scheme" where
  "write_buffer_to buffer sector s = s\<lparr>disk := (disk s)(sector := view s buffer)\<rparr>"

definition write_buffer :: "sector_t \<Rightarrow> 'a store_scheme \<Rightarrow> 'a store_scheme" where
  "write_buffer sector s = set_buffer_uptodate sector (write_buffer_to sector sector s)"

section \<open>What each operation keeps\<close>

text \<open>
  A buffer is on at most one of the two lists, a buffer on a list holds data,
  and a buffer on neither agrees with the device.
\<close>

definition wf_store :: "'a store_scheme \<Rightarrow> bool" where
  "wf_store s \<longleftrightarrow> distinct (dirty_buffers s @ journaled_buffers s) \<and>
     (\<forall>sector\<in>set (dirty_buffers s @ journaled_buffers s). cache s sector \<noteq> None) \<and>
     (\<forall>sector b. cache s sector = Some b \<longrightarrow>
        sector \<in> set (dirty_buffers s @ journaled_buffers s) \<or> disk s sector = b)"

lemma view_simps [simp]:
  "view (set_data a b s) = (view s)(a := b)"
  "view (set_buffer_dirty a s) = view s"
  "view (add_buffer_journaled a s) = view s"
  "view (set_buffer_uptodate a s) = view s"
  by (auto simp: view_def set_data_def set_buffer_dirty_def add_buffer_journaled_def set_buffer_uptodate_def
      split: option.split)

lemma view_write_buffer_to: "view (write_buffer_to a t s) x =
    (if x = t \<and> cache s t = None then view s a else view s x)"
  by (auto simp: view_def write_buffer_to_def split: option.split)

lemma view_write_buffer [simp]: "view (write_buffer a s) = view s"
  by (rule ext) (auto simp: write_buffer_def view_write_buffer_to)

lemma bread_view: "bread s a = Some b \<Longrightarrow> view s a = b"
  by (auto simp: bread_def view_def split: option.splits if_splits)

lemma bread_SomeI: "\<not> bad_sector s a \<Longrightarrow> bread s a = Some (view s a)"
  by (auto simp: bread_def view_def split: option.split)

lemma bad_sector_simps [simp]:
  "bad_sector (set_data a b s) = bad_sector s"
  "bad_sector (set_buffer_dirty a s) = bad_sector s"
  "bad_sector (add_buffer_journaled a s) = bad_sector s"
  "bad_sector (set_buffer_uptodate a s) = bad_sector s"
  "bad_sector (set_buffer_empty a s) = bad_sector s"
  "bad_sector (write_buffer_to a t s) = bad_sector s"
  "bad_sector (write_buffer a s) = bad_sector s"
  by (auto simp: set_data_def set_buffer_dirty_def add_buffer_journaled_def set_buffer_uptodate_def
      set_buffer_empty_def write_buffer_to_def write_buffer_def)

lemma bread_simps:
  "bread (set_data a b s) x = (if x = a then Some b else bread s x)"
  "bread (set_buffer_dirty a s) x = bread s x"
  by (auto simp: bread_def set_data_def set_buffer_dirty_def split: option.split)

lemma wf_store_set_dirty: "wf_store s \<Longrightarrow> wf_store (set_buffer_dirty a (set_data a b s))"
  by (auto simp: wf_store_def set_buffer_dirty_def set_data_def distinct_remove1)

lemma wf_store_write_buffer: "wf_store s \<Longrightarrow> wf_store (write_buffer a s)"
  by (auto simp: wf_store_def write_buffer_def write_buffer_to_def set_buffer_uptodate_def view_def
      distinct_remove1 in_set_remove1 split: option.split)

lemma wf_store_journaled:
  "wf_store s \<Longrightarrow> a \<in> set (dirty_buffers s) \<Longrightarrow> wf_store (add_buffer_journaled a s)"
  by (auto simp: wf_store_def add_buffer_journaled_def distinct_remove1 in_set_remove1)

lemma wf_store_empty: "wf_store s \<Longrightarrow> wf_store (set_buffer_empty a s)"
  by (auto simp: wf_store_def set_buffer_empty_def set_buffer_uptodate_def distinct_remove1 in_set_remove1
      split: if_splits)

text \<open>With no buffer left on a list the device holds the current contents.\<close>

lemma wf_store_flushed:
  "wf_store s \<Longrightarrow> dirty_buffers s = [] \<Longrightarrow> journaled_buffers s = [] \<Longrightarrow> disk s = view s"
  by (rule ext) (auto simp: wf_store_def view_def split: option.split)

end
