(* ===== verification/Superblock.thy ===== *)
theory Superblock
  imports Store
begin

text \<open>
  The superblock (\<open>struct disksuper\<close>, \<open>struct superblock\<close>): the part that is
  written to the device, the derived part, and the two allocation spaces.  The
  code reaches the parameters of a space through the pointer \<open>asi\<close>, which for a
  combined store points to the metadata parameters in both cases; here the
  pointer is the constructor of the space it points to.
\<close>

record snapshot =
  snap_ctime :: nat
  snap_tag :: nat
  snap_usecount :: u16
  snap_bit :: nat
  snap_prio :: int
  snap_sectors :: nat

record allocspace_img =
  bitmap_base :: sector_t
  chunks :: chunk_t
  freechunks :: chunk_t
  last_alloc :: chunk_t
  bitmap_blocks :: nat
  allocsize_bits :: nat

text \<open>\<open>snaplist\<close> holds the \<open>snapshots\<close> entries in use, in creation order.\<close>

record disksuper =
  magic :: "u8 list"
  create_time :: nat
  etree_root :: sector_t
  orgoffset :: sector_t
  orgsectors :: sector_t
  sb_flags :: u64
  deleting :: u64
  snaplist :: "snapshot list"
  etree_levels :: nat
  journal_base :: sector_t
  journal_next :: nat
  journal_size :: nat
  sequence :: u32
  img_metadata :: allocspace_img
  img_snapdata :: allocspace_img

datatype space = Meta | Snap

record allocspace =
  as_asi :: space
  allocsize :: nat
  chunk_sectors_bits :: nat
  alloc_per_node :: nat

record superblock = store +
  image :: disksuper
  super_disk :: disksuper
  metadata :: allocspace
  snapdata :: allocspace
  snapmask :: u64
  runflags :: u32
  copybuf_size :: nat
  max_commit_blocks :: nat
  sb_usecount :: "nat \<Rightarrow> u16"
  deferred_alloc :: "alloc_range list"
  defer_range :: alloc_range

definition SB_SECTOR :: nat where [simp]: "SB_SECTOR = 8"
definition SB_SECTORS :: nat where [simp]: "SB_SECTORS = 8"
definition MAX_NEW_METACHUNKS :: nat where [simp]: "MAX_NEW_METACHUNKS = 10"
definition MAX_DEFERRED_ALLOCS :: nat where [simp]: "MAX_DEFERRED_ALLOCS = 500"
definition SB_MAGIC :: "u8 list" where "SB_MAGIC = [0x74, 0x65, 0x73, 0x74, 0xdd, 0x07, 0x06, 0x04]"

definition RUN_SB_DIRTY :: u32 where "RUN_SB_DIRTY = 1"
definition RUN_SELFCHECK :: u32 where "RUN_SELFCHECK = 2"
definition RUN_DEFER :: u32 where "RUN_DEFER = 4"

fun get_as :: "'a superblock_scheme \<Rightarrow> space \<Rightarrow> allocspace" where
  "get_as sb Meta = metadata sb"
| "get_as sb Snap = snapdata sb"

fun get_img :: "disksuper \<Rightarrow> space \<Rightarrow> allocspace_img" where
  "get_img img Meta = img_metadata img"
| "get_img img Snap = img_snapdata img"

fun upd_img :: "(allocspace_img \<Rightarrow> allocspace_img) \<Rightarrow> space \<Rightarrow> disksuper \<Rightarrow> disksuper" where
  "upd_img f Meta img = img\<lparr>img_metadata := f (img_metadata img)\<rparr>"
| "upd_img f Snap img = img\<lparr>img_snapdata := f (img_snapdata img)\<rparr>"

text \<open>\<open>as->asi\<close> and an assignment through it.\<close>

definition asi :: "'a superblock_scheme \<Rightarrow> space \<Rightarrow> allocspace_img" where
  "asi sb sp = get_img (image sb) (as_asi (get_as sb sp))"

definition upd_asi :: "(allocspace_img \<Rightarrow> allocspace_img) \<Rightarrow> space \<Rightarrow> 'a superblock_scheme \<Rightarrow> 'a superblock_scheme" where
  "upd_asi f sp sb = sb\<lparr>image := upd_img f (as_asi (get_as sb sp)) (image sb)\<rparr>"

definition valid_sb :: "'a superblock_scheme \<Rightarrow> bool" where
  "valid_sb sb \<longleftrightarrow> magic (image sb) = SB_MAGIC"

definition combined :: "'a superblock_scheme \<Rightarrow> bool" where
  "combined sb \<longleftrightarrow> chunks (img_snapdata (image sb)) = 0"

definition snapfree :: "'a superblock_scheme \<Rightarrow> chunk_t" where
  "snapfree sb = freechunks (img_snapdata (image sb))"

definition metafree :: "'a superblock_scheme \<Rightarrow> chunk_t" where
  "metafree sb = freechunks (img_metadata (image sb))"

definition chunk_sectors :: "allocspace \<Rightarrow> nat" where
  "chunk_sectors as = 2 ^ chunk_sectors_bits as"

definition deferring :: "'a superblock_scheme \<Rightarrow> bool" where
  "deferring sb \<longleftrightarrow> runflags sb AND RUN_DEFER \<noteq> 0"

definition set_sb_dirty :: "'a superblock_scheme \<Rightarrow> 'a superblock_scheme" where
  "set_sb_dirty sb = sb\<lparr>runflags := runflags sb OR RUN_SB_DIRTY\<rparr>"

definition save_sb :: "'a superblock_scheme \<Rightarrow> 'a superblock_scheme" where
  "save_sb sb =
     (if runflags sb AND RUN_SB_DIRTY \<noteq> 0
      then sb\<lparr>super_disk := image sb, runflags := runflags sb AND NOT RUN_SB_DIRTY\<rparr>
      else sb)"

end
