(* ===== verification/Alloc.thy ===== *)
theory Alloc
  imports Superblock
begin

text \<open>
  Allocation of chunks: the bitmaps of the two allocation spaces, the deferred
  allocations that are not in a bitmap yet, and the counters of free chunks.
  Where the code dereferences the result of \<open>bread\<close> without testing it, the
  model reads the current contents of the block.
\<close>

section \<open>Bits of a bitmap block\<close>

function bytebits :: "u8 \<Rightarrow> nat" where
  "bytebits c = (if c = 0 then 0 else unat (c AND 1) + bytebits (drop_bit 1 c))"
  by pat_completeness auto
termination
proof (relation "measure unat", goal_cases)
  case 1 then show ?case by simp
next
  case (2 c)
  then have "0 < unat c" by (simp add: unat_gt_0)
  then show ?case by (simp add: drop_bit_eq_div unat_div)
qed

declare bytebits.simps [simp del]

definition get_bitmap_bit :: "u8 list \<Rightarrow> nat \<Rightarrow> bool" where
  "get_bitmap_bit bitmap b \<longleftrightarrow> bitmap ! (b div 8) AND push_bit (b mod 8) 1 \<noteq> 0"

definition set_bitmap_bit :: "u8 list \<Rightarrow> nat \<Rightarrow> u8 list" where
  "set_bitmap_bit bitmap b = bitmap[b div 8 := bitmap ! (b div 8) OR push_bit (b mod 8) 1]"

definition clear_bitmap_bit :: "u8 list \<Rightarrow> nat \<Rightarrow> u8 list" where
  "clear_bitmap_bit bitmap b = bitmap[b div 8 := bitmap ! (b div 8) AND NOT (push_bit (b mod 8) 1)]"

section \<open>Ranges of bits\<close>

text \<open>
  The inner loop of \<open>change_bits\<close> works on one bitmap block of \<open>2 ^ shift\<close>
  bits; it stops at the end of the block or of the range, or (for \<open>flag = 0\<close>)
  at a chunk in use.
\<close>

function change_block :: "nat \<Rightarrow> nat \<Rightarrow> chunk_t \<Rightarrow> chunk_t \<Rightarrow> u8 list \<Rightarrow> (chunk_t \<times> u8 list) option" where
  "change_block shift flag limit chunk bytes =
     (let idx = chunk mod 2 ^ shift
      in if flag = 0 \<and> get_bitmap_bit bytes idx then None
         else
           (let bytes = (if flag = 1 then set_bitmap_bit bytes idx
                         else if flag = 2 then clear_bitmap_bit bytes idx else bytes);
                chunk = chunk + 1
            in if chunk mod 2 ^ shift \<noteq> 0 \<and> chunk < limit
               then change_block shift flag limit chunk bytes
               else Some (chunk, bytes)))"
  by pat_completeness auto
termination by (relation "measure (\<lambda>(shift, flag, limit, chunk, bytes). limit - chunk)") auto

declare change_block.simps [simp del]

lemma change_block_progress:
  "change_block shift flag limit chunk bytes = Some (chunk', bytes') \<Longrightarrow> chunk < chunk'"
proof (induction shift flag limit chunk bytes rule: change_block.induct)
  case (1 shift flag limit chunk bytes)
  show ?case
    using 1(2) 1(1) [OF refl _ refl refl]
    by (subst (asm) change_block.simps) (fastforce simp: Let_def split: if_splits)
qed

definition bitmap_shift :: "'a superblock_scheme \<Rightarrow> nat" where
  "bitmap_shift sb = allocsize_bits (asi sb Meta) + 3"

text \<open>The outer loop; the result pairs the returned value with the new state.\<close>

function change_bits_loop :: "nat \<Rightarrow> nat \<Rightarrow> nat \<Rightarrow> chunk_t \<Rightarrow> chunk_t \<Rightarrow> sector_t \<Rightarrow>
    'a superblock_scheme \<Rightarrow> int \<times> 'a superblock_scheme" where
  "change_bits_loop shift step flag limit chunk sector sb =
     (if chunk < limit then
        (case change_block shift flag limit chunk (buffer2bitmap (view sb sector)) of
           None \<Rightarrow> (-1, sb)
         | Some (chunk', bytes) \<Rightarrow>
             (let sb = (if flag \<noteq> 0 then set_buffer_dirty sector (set_data sector (BitmapB bytes) sb) else sb)
              in change_bits_loop shift step flag limit chunk' (sector + step) sb))
      else (0, sb))"
  by pat_completeness auto
termination
  by (relation "measure (\<lambda>(shift, step, flag, limit, chunk, sector, sb). limit - chunk)")
    (auto dest: change_block_progress)

declare change_bits_loop.simps [simp del]

definition change_bits :: "chunk_t \<Rightarrow> chunk_t \<Rightarrow> nat \<Rightarrow> nat \<Rightarrow> 'a superblock_scheme \<Rightarrow>
    int \<times> 'a superblock_scheme" where
  "change_bits start count base flag sb =
     (let limit = start + count;
          shift = bitmap_shift sb;
          sector = base div 2 ^ SECTOR_BITS + (start div 2 ^ shift) * 2 ^ chunk_sectors_bits (metadata sb)
      in change_bits_loop shift (chunk_sectors (metadata sb)) flag limit start sector sb)"

definition set_allocated :: "chunk_t \<Rightarrow> nat \<Rightarrow> 'a superblock_scheme \<Rightarrow> 'a superblock_scheme" where
  "set_allocated chunk count sb =
     snd (change_bits chunk count (bitmap_base (img_metadata (image sb)) * 2 ^ SECTOR_BITS) 1 sb)"

section \<open>Counting free chunks\<close>

text \<open>
  \<open>count_zeros\<close> adds up a table of the number of clear bits of each byte.  The
  first argument bounds the number of blocks the loop visits; every round takes
  at least one byte, so the number of bytes is enough.
\<close>

definition zeroes :: "u8 \<Rightarrow> nat" where
  "zeroes i = bytebits (NOT i)"

fun count_zeros_loop :: "nat \<Rightarrow> 'a superblock_scheme \<Rightarrow> sector_t \<Rightarrow> nat \<Rightarrow> nat \<Rightarrow> nat \<Rightarrow> nat" where
  "count_zeros_loop 0 sb base bytes block count = count"
| "count_zeros_loop (Suc fuel) sb base bytes block count =
     (if bytes = 0 then count
      else
        (case bread sb (base + block * 2 ^ chunk_sectors_bits (metadata sb)) of
           None \<Rightarrow> 0
         | Some buffer \<Rightarrow>
             (let n = min (allocsize (metadata sb)) bytes
              in count_zeros_loop fuel sb base (bytes - n) (block + 1)
                   (count + sum_list (map zeroes (take n (buffer2bitmap buffer)))))))"

definition count_zeros :: "'a superblock_scheme \<Rightarrow> space \<Rightarrow> nat" where
  "count_zeros sb sp =
     (let bytes = (chunks (asi sb sp) + 7) div 8
      in count_zeros_loop bytes sb (bitmap_base (asi sb sp)) bytes 0 0)"

definition count_deferred :: "'a superblock_scheme \<Rightarrow> nat" where
  "count_deferred sb = fold (\<lambda>r count. count + range_count r) (deferred_alloc sb) (range_count (defer_range sb))"

definition count_free :: "'a superblock_scheme \<Rightarrow> space \<Rightarrow> nat" where
  "count_free sb sp = u64_sub (count_zeros sb sp) (count_deferred sb)"

definition check_freespace :: "'a superblock_scheme \<Rightarrow> 'a superblock_scheme" where
  "check_freespace sb =
     (let counted = count_free sb Meta;
          sb = (if freechunks (asi sb Meta) \<noteq> counted then upd_asi (\<lambda>a. a\<lparr>freechunks := counted\<rparr>) Meta sb else sb)
      in if combined sb then sb
         else
           (let counted = count_free sb Snap
            in if freechunks (asi sb Snap) \<noteq> counted
               then upd_asi (\<lambda>a. a\<lparr>freechunks := counted\<rparr>) Snap sb else sb))"

definition selfcheck_freespace :: "'a superblock_scheme \<Rightarrow> 'a superblock_scheme" where
  "selfcheck_freespace sb = (if runflags sb AND RUN_SELFCHECK \<noteq> 0 then check_freespace sb else sb)"

section \<open>Deferred allocations\<close>

definition chunk_within :: "chunk_t \<Rightarrow> chunk_t \<Rightarrow> nat \<Rightarrow> bool" where
  "chunk_within chunk start count \<longleftrightarrow> u64_sub chunk start < count"

definition is_deferred_alloc :: "'a superblock_scheme \<Rightarrow> chunk_t \<Rightarrow> bool" where
  "is_deferred_alloc sb chunk \<longleftrightarrow>
     chunk_within chunk (range_chunk (defer_range sb)) (range_count (defer_range sb)) \<or>
     (\<exists>r\<in>set (deferred_alloc sb). chunk_within chunk (range_chunk r) (range_count r))"

definition flush_deferred_allocs :: "'a superblock_scheme \<Rightarrow> 'a superblock_scheme" where
  "flush_deferred_allocs sb =
     (fold (\<lambda>r. set_allocated (range_chunk r) (range_count r)) (deferred_alloc sb) sb)\<lparr>deferred_alloc := []\<rparr>"

section \<open>Allocating and freeing a chunk\<close>

definition free_chunk :: "space \<Rightarrow> chunk_t \<Rightarrow> 'a superblock_scheme \<Rightarrow> bool \<times> 'a superblock_scheme" where
  "free_chunk sp chunk sb =
     (let shift = bitmap_shift sb;
          sector = bitmap_base (asi sb sp) + (chunk div 2 ^ shift) * 2 ^ chunk_sectors_bits (metadata sb)
      in case bread sb sector of
           None \<Rightarrow> (False, sb)
         | Some buffer \<Rightarrow>
             (let bytes = buffer2bitmap buffer; idx = chunk mod 2 ^ shift
              in if \<not> get_bitmap_bit bytes idx then (False, sb)
                 else
                   (let sb = set_buffer_dirty sector (set_data sector (BitmapB (clear_bitmap_bit bytes idx)) sb);
                        sb = upd_asi (\<lambda>a. a\<lparr>freechunks := (freechunks a + 1) mod 2 ^ 64\<rparr>) sp sb
                    in (True, set_sb_dirty sb))))"

definition free_block :: "sector_t \<Rightarrow> 'a superblock_scheme \<Rightarrow> 'a superblock_scheme" where
  "free_block address sb = snd (free_chunk Meta (address div 2 ^ chunk_sectors_bits (metadata sb)) sb)"

definition free_exception :: "chunk_t \<Rightarrow> 'a superblock_scheme \<Rightarrow> 'a superblock_scheme" where
  "free_exception chunk sb = snd (free_chunk Snap chunk sb)"

text \<open>
  The search of one bitmap block: bytes \<open>offset\<close> to \<open>offset + n\<close>, each bit by
  bit, skipping full bytes and chunks whose allocation is deferred.
\<close>

definition scan_block :: "'a superblock_scheme \<Rightarrow> u8 list \<Rightarrow> nat \<Rightarrow> nat \<Rightarrow> nat \<Rightarrow> chunk_t option" where
  "scan_block sb bytes blocknum offset n =
     map_option (\<lambda>j. j + blocknum * 2 ^ bitmap_shift sb)
       (find (\<lambda>j. let c = bytes ! (j div 8)
                  in c \<noteq> 0xff \<and> c AND push_bit (j mod 8) 1 = 0 \<and>
                     \<not> is_deferred_alloc sb (j + blocknum * 2 ^ bitmap_shift sb))
          [8 * offset..<8 * (offset + n)])"

text \<open>The chunk that was found is recorded as deferred or in the bitmap.\<close>

definition mark_chunk :: "sector_t \<Rightarrow> u8 list \<Rightarrow> chunk_t \<Rightarrow> 'a superblock_scheme \<Rightarrow> 'a superblock_scheme" where
  "mark_chunk sector bytes chunk sb =
     (let may = deferring sb \<and> length (deferred_alloc sb) < MAX_DEFERRED_ALLOCS;
          defer = defer_range sb
      in if may \<and> range_count defer = 0
         then sb\<lparr>defer_range := defer\<lparr>range_chunk := chunk, range_count := 1\<rparr>\<rparr>
         else if may \<and> chunk = range_chunk defer + 1
         then sb\<lparr>defer_range := defer\<lparr>range_count := range_count defer + 1\<rparr>\<rparr>
         else set_buffer_dirty sector
           (set_data sector (BitmapB (set_bitmap_bit bytes (chunk mod 2 ^ bitmap_shift sb))) sb))"

definition take_chunk :: "space \<Rightarrow> sector_t \<Rightarrow> u8 list \<Rightarrow> chunk_t \<Rightarrow> 'a superblock_scheme \<Rightarrow> 'a superblock_scheme" where
  "take_chunk sp sector bytes chunk sb =
     set_sb_dirty (upd_asi (\<lambda>a. a\<lparr>freechunks := u64_sub (freechunks a) 1\<rparr>) sp (mark_chunk sector bytes chunk sb))"

text \<open>
  The first argument bounds the number of bitmap blocks visited.  Every round
  takes at least one of the remaining bytes or ends.
\<close>

fun alloc_scan :: "nat \<Rightarrow> space \<Rightarrow> nat \<Rightarrow> nat \<Rightarrow> nat \<Rightarrow> 'a superblock_scheme \<Rightarrow>
    chunk_t option \<times> 'a superblock_scheme" where
  "alloc_scan 0 sp blocknum offset len sb = (None, sb)"
| "alloc_scan (Suc fuel) sp blocknum offset len sb =
     (let sector = bitmap_base (asi sb sp) + blocknum * 2 ^ chunk_sectors_bits (metadata sb)
      in case bread sb sector of
           None \<Rightarrow> (None, sb)
         | Some buffer \<Rightarrow>
             (let bytes = buffer2bitmap buffer;
                  tail = allocsize (metadata sb) - offset;
                  n = min tail len
              in case scan_block sb bytes blocknum offset n of
                   Some chunk \<Rightarrow> (Some chunk, take_chunk sp sector bytes chunk sb)
                 | None \<Rightarrow>
                     if len - n = 0 then (None, sb)
                     else
                       (let blocknum = (if blocknum + 1 = bitmap_blocks (asi sb sp) then 0 else blocknum + 1)
                        in alloc_scan fuel sp blocknum 0 (len - n) sb)))"

definition alloc_chunk_from_range :: "space \<Rightarrow> chunk_t \<Rightarrow> nat \<Rightarrow> 'a superblock_scheme \<Rightarrow>
    chunk_t option \<times> 'a superblock_scheme" where
  "alloc_chunk_from_range sp startchunk nchunks sb =
     (let shift = bitmap_shift sb;
          blocknum = startchunk div 2 ^ shift;
          offset = (startchunk mod 2 ^ shift) div 8;
          b = startchunk mod 8;
          len = (nchunks + b + 7) div 8
      in alloc_scan (len + 1) sp blocknum offset len sb)"

definition alloc_chunk :: "space \<Rightarrow> 'a superblock_scheme \<Rightarrow> chunk_t option \<times> 'a superblock_scheme" where
  "alloc_chunk sp sb =
     (let last = last_alloc (asi sb sp);
          total = chunks (asi sb sp);
          found = (case alloc_chunk_from_range sp last (u64_sub total last) sb of
                     (Some c, sb) \<Rightarrow> (Some c, sb)
                   | (None, sb) \<Rightarrow> alloc_chunk_from_range sp 0 last sb)
      in case found of
           (Some c, sb) \<Rightarrow> (Some c, set_sb_dirty (upd_asi (\<lambda>a. a\<lparr>last_alloc := c\<rparr>) sp sb))
         | (None, sb) \<Rightarrow> (None, sb))"

definition alloc_metablock :: "'a superblock_scheme \<Rightarrow> chunk_t option \<times> 'a superblock_scheme" where
  "alloc_metablock = alloc_chunk Meta"

definition alloc_snapblock :: "'a superblock_scheme \<Rightarrow> chunk_t option \<times> 'a superblock_scheme" where
  "alloc_snapblock = alloc_chunk Snap"

section \<open>Initial bitmaps\<close>

definition calc_bitmap_blocks :: "'a superblock_scheme \<Rightarrow> nat \<Rightarrow> nat" where
  "calc_bitmap_blocks sb nchunks =
     (let chunkshift = allocsize_bits (asi sb Meta)
      in (nchunks + 2 ^ (chunkshift + 3) - 1) div 2 ^ (chunkshift + 3))"

text \<open>The contents of the bitmap block number \<open>i\<close>, with \<open>reserved\<close> bits still to be set.\<close>

definition init_bitmap_block :: "nat \<Rightarrow> nat \<Rightarrow> nat \<Rightarrow> nat \<Rightarrow> nat \<Rightarrow> u8 list \<times> nat" where
  "init_bitmap_block blocksize bitmaps nchunks i reserved =
     (let (data, reserved) =
            (if reserved > blocksize * 8 then (replicate blocksize 0xff, reserved - blocksize * 8)
             else (fold (\<lambda>j data. set_bitmap_bit data j) [0..<reserved] (replicate blocksize 0), 0));
          last = (nchunks div 8) mod blocksize;
          data = (if i = bitmaps - 1 \<and> nchunks mod 8 \<noteq> 0
                  then data[last := data ! last OR push_bit (nchunks mod 8) 0xff] else data)
      in (data, reserved))"

definition init_bitmap_blocks :: "sector_t \<Rightarrow> nat \<Rightarrow> nat \<Rightarrow> nat \<Rightarrow> 'a superblock_scheme \<Rightarrow> 'a superblock_scheme" where
  "init_bitmap_blocks base bitmaps nchunks reserved_chunks sb =
     fst (fold (\<lambda>i (sb, reserved).
             (let (data, reserved) = init_bitmap_block (allocsize (metadata sb)) bitmaps nchunks i reserved;
                  sector = base + i * chunk_sectors (metadata sb)
              in (write_buffer sector (set_data sector (BitmapB data) sb), reserved)))
           [0..<bitmaps] (sb, reserved_chunks))"

definition init_allocation :: "'a superblock_scheme \<Rightarrow> 'a superblock_scheme" where
  "init_allocation sb =
     (let csb = chunk_sectors_bits (metadata sb);
          base_chunk = (SB_SECTOR + SB_SECTORS + chunk_sectors (metadata sb) - 1) div 2 ^ csb;
          blocks = calc_bitmap_blocks sb (chunks (asi sb Meta));
          sb = upd_asi (\<lambda>a. a\<lparr>bitmap_blocks := blocks, bitmap_base := base_chunk * 2 ^ csb, last_alloc := 0\<rparr>) Meta sb;
          reserved = base_chunk + bitmap_blocks (asi sb Meta) + journal_size (image sb);
          (sb, reserved) =
            (if \<not> combined sb then
               (let snap_base_chunk = bitmap_base (asi sb Meta) div 2 ^ csb + bitmap_blocks (asi sb Meta);
                    sblocks = calc_bitmap_blocks sb (chunks (asi sb Snap));
                    sb = upd_asi (\<lambda>a. a\<lparr>bitmap_blocks := sblocks, bitmap_base := snap_base_chunk * 2 ^ csb,
                                        freechunks := chunks a\<rparr>) Snap sb
                in (sb, reserved + bitmap_blocks (asi sb Snap)))
             else (sb, reserved));
          sb = upd_asi (\<lambda>a. a\<lparr>freechunks := u64_sub (chunks a) reserved\<rparr>) Meta sb;
          sb = sb\<lparr>image := (image sb)\<lparr>journal_base := bitmap_base (asi sb Meta) +
                 (bitmap_blocks (asi sb Meta) + (if \<not> combined sb then bitmap_blocks (asi sb Snap) else 0)) * 2 ^ csb\<rparr>\<rparr>;
          sb = init_bitmap_blocks (bitmap_base (asi sb Meta)) (bitmap_blocks (asi sb Meta)) (chunks (asi sb Meta)) reserved sb;
          sb = (if \<not> combined sb
                then init_bitmap_blocks (bitmap_base (asi sb Snap)) (bitmap_blocks (asi sb Snap)) (chunks (asi sb Snap)) 0 sb
                else sb)
      in selfcheck_freespace sb)"

end
