(* ===== verification/Allocator.thy ===== *)
theory Allocator
  imports Prelude
begin

text \<open>
  The contract of an allocator of chunks, and what its clients derive from it:
  as long as enough chunks are free, a series of allocations succeeds and
  returns distinct chunks that were not in use.
\<close>

locale chunk_allocator =
  fixes invar :: "'s \<Rightarrow> bool"
    and used :: "'s \<Rightarrow> chunk_t set"
    and total :: "'s \<Rightarrow> nat"
    and free :: "'s \<Rightarrow> nat"
    and alloc :: "'s \<Rightarrow> chunk_t option \<times> 's"
  assumes free_card: "invar s \<Longrightarrow> free s = card ({..<total s} - used s)"
    and alloc_None: "invar s \<Longrightarrow> alloc s = (None, s') \<Longrightarrow> s' = s \<and> {..<total s} \<subseteq> used s"
    and alloc_Some: "invar s \<Longrightarrow> alloc s = (Some c, s') \<Longrightarrow>
      c < total s \<and> c \<notin> used s \<and> used s' = insert c (used s) \<and> invar s' \<and> total s' = total s"
begin

lemma alloc_free:
  assumes "invar s" "alloc s = (Some c, s')"
  shows "free s = Suc (free s')"
proof -
  note a = alloc_Some [OF assms]
  let ?B = "{..<total s} - insert c (used s)"
  have "{..<total s} - used s = insert c ?B" "c \<notin> ?B" using a by auto
  then have "card ({..<total s} - used s) = Suc (card ?B)" by (metis card_insert_disjoint finite_Diff finite_lessThan)
  moreover have "free s = card ({..<total s} - used s)" by (rule free_card [OF assms(1)])
  moreover have "free s' = card ?B" using free_card [of s'] a by simp
  ultimately show ?thesis by simp
qed

lemma alloc_succeeds:
  assumes "invar s" "0 < free s"
  obtains c s' where "alloc s = (Some c, s')"
proof (cases "alloc s")
  case (Pair r s')
  show thesis
  proof (cases r)
    case None
    with alloc_None [OF assms(1)] Pair have "{..<total s} - used s = {}" by auto
    with assms free_card show thesis by simp
  next
    case (Some c) with Pair that show thesis by simp
  qed
qed

fun alloc_many :: "nat \<Rightarrow> 's \<Rightarrow> chunk_t list \<times> 's" where
  "alloc_many 0 s = ([], s)"
| "alloc_many (Suc n) s =
     (case alloc s of
        (None, s') \<Rightarrow> ([], s')
      | (Some c, s') \<Rightarrow> (let (cs, s'') = alloc_many n s' in (c # cs, s'')))"

lemma alloc_many_distinct:
  assumes "invar s" "n \<le> free s"
  shows "\<exists>cs s'. alloc_many n s = (cs, s') \<and> length cs = n \<and> distinct cs \<and> set cs \<inter> used s = {} \<and>
    set cs \<subseteq> {..<total s} \<and> used s' = used s \<union> set cs \<and> free s' = free s - n \<and> invar s'"
  using assms
proof (induction n arbitrary: s)
  case 0 then show ?case by simp
next
  case (Suc n)
  have "0 < free s" using Suc.prems(2) by simp
  then obtain c s1 where a: "alloc s = (Some c, s1)" by (rule alloc_succeeds [OF Suc.prems(1)])
  note a1 = alloc_Some [OF Suc.prems(1) a] and f = alloc_free [OF Suc.prems(1) a]
  then obtain cs s' where "alloc_many n s1 = (cs, s')" "length cs = n" "distinct cs" "set cs \<inter> used s1 = {}"
    "set cs \<subseteq> {..<total s1}" "used s' = used s1 \<union> set cs" "free s' = free s1 - n" "invar s'"
    using Suc.IH [of s1] Suc.prems(2) by auto
  with a a1 f show ?case by auto
qed

end

end
