(* ===== verification/Alloc_Lemmas.thy ===== *)
theory Alloc_Lemmas
  imports Alloc Allocator
begin

text \<open>
  What the allocator guarantees: a successful allocation returns a chunk that
  was free and marks exactly this chunk, a failed one found every chunk in use,
  freeing is the inverse, and the counters agree with the bitmaps.
\<close>

section \<open>Bits of a bitmap block\<close>

lemma bit_snapbit8: "bit (2 ^ b :: u8) k \<longleftrightarrow> k = b \<and> b < 8"
  by (auto simp: bit_exp_iff)

lemma and_bit8_eq_0_iff: "(w :: u8) AND 2 ^ b = 0 \<longleftrightarrow> \<not> bit w b"
  using bit_iff_and_push_bit_not_eq_0 [of w b] by simp

lemma get_bitmap_bit_iff: "get_bitmap_bit bytes b \<longleftrightarrow> bit (bytes ! (b div 8)) (b mod 8)"
  by (simp add: get_bitmap_bit_def and_bit8_eq_0_iff)

lemma length_bitmap [simp]:
  "length (set_bitmap_bit bytes b) = length bytes" "length (clear_bitmap_bit bytes b) = length bytes"
  by (simp_all add: set_bitmap_bit_def clear_bitmap_bit_def)

lemma div_mod_8_eq: "b div 8 = c div 8 \<Longrightarrow> b mod 8 = c mod 8 \<Longrightarrow> b = (c :: nat)"
  by (metis div_mult_mod_eq)

lemma get_set_bitmap_bit:
  "b div 8 < length bytes \<Longrightarrow> get_bitmap_bit (set_bitmap_bit bytes b) c \<longleftrightarrow> c = b \<or> get_bitmap_bit bytes c"
  by (auto simp: get_bitmap_bit_iff set_bitmap_bit_def nth_list_update bit_or_iff bit_snapbit8
      dest: div_mod_8_eq)

lemma get_clear_bitmap_bit:
  "b div 8 < length bytes \<Longrightarrow> get_bitmap_bit (clear_bitmap_bit bytes b) c \<longleftrightarrow> c \<noteq> b \<and> get_bitmap_bit bytes c"
  by (auto simp: get_bitmap_bit_iff clear_bitmap_bit_def nth_list_update bit_and_iff bit_not_iff bit_snapbit8
      dest: div_mod_8_eq)

text \<open>The table of \<open>count_zeros\<close> holds the number of clear bits of a byte.\<close>

lemma bytebits_card: "bytebits c = card {i. bit c i}"
proof (induction c rule: bytebits.induct)
  case (1 c)
  show ?case
  proof (cases "c = 0")
    case True then show ?thesis by (simp add: bytebits.simps)
  next
    case False
    let ?B = "{i. bit (drop_bit 1 c) i}"
    have fin: "finite {i. bit w i}" for w :: u8
      by (rule finite_subset [of _ "{..<8}"]) (auto dest: bit_imp_le_length)
    have eq: "{i. bit c i} = (if bit c 0 then {0} else {}) \<union> Suc ` ?B"
    proof (rule set_eqI)
      fix i show "i \<in> {i. bit c i} \<longleftrightarrow> i \<in> (if bit c 0 then {0} else {}) \<union> Suc ` ?B"
        by (cases i) (auto simp: bit_drop_bit_eq)
    qed
    have "unat (c AND 1) = (if bit c 0 then 1 else 0)"
      by (simp add: and_one_eq bit_0 mod_2_eq_odd)
    moreover have "card {i. bit c i} = (if bit c 0 then 1 else 0) + card ?B"
      unfolding eq using fin [of "drop_bit 1 c"]
      by (subst card_Un_disjoint) (auto simp: card_image)
    ultimately show ?thesis using 1 [OF False] False by (simp add: bytebits.simps [of c])
  qed
qed

lemma zeroes_card: "zeroes c = card {i. i < 8 \<and> \<not> bit c i}"
  by (simp add: zeroes_def bytebits_card bit_not_iff)

section \<open>Chunks in use\<close>

definition bitmap_sector :: "'a superblock_scheme \<Rightarrow> space \<Rightarrow> chunk_t \<Rightarrow> sector_t" where
  "bitmap_sector sb sp chunk =
     bitmap_base (asi sb sp) + (chunk div 2 ^ bitmap_shift sb) * 2 ^ chunk_sectors_bits (metadata sb)"

definition chunk_used :: "'a superblock_scheme \<Rightarrow> space \<Rightarrow> chunk_t \<Rightarrow> bool" where
  "chunk_used sb sp chunk \<longleftrightarrow>
     get_bitmap_bit (buffer2bitmap (view sb (bitmap_sector sb sp chunk))) (chunk mod 2 ^ bitmap_shift sb)"

definition in_use :: "'a superblock_scheme \<Rightarrow> space \<Rightarrow> chunk_t \<Rightarrow> bool" where
  "in_use sb sp chunk \<longleftrightarrow> chunk_used sb sp chunk \<or> is_deferred_alloc sb chunk"

text \<open>
  The bitmap of a space is readable and has a bit for every chunk; the bits of
  the last byte beyond the last chunk are set.
\<close>

definition bitmap_ok :: "'a superblock_scheme \<Rightarrow> space \<Rightarrow> nat \<Rightarrow> bool" where
  "bitmap_ok sb sp i \<longleftrightarrow>
     (let sector = bitmap_base (asi sb sp) + i * 2 ^ chunk_sectors_bits (metadata sb)
      in \<not> bad_sector sb sector \<and>
         (case view sb sector of BitmapB bytes \<Rightarrow> length bytes = allocsize (metadata sb) | _ \<Rightarrow> False))"

definition wf_alloc :: "'a superblock_scheme \<Rightarrow> space \<Rightarrow> bool" where
  "wf_alloc sb sp \<longleftrightarrow>
     allocsize (metadata sb) = 2 ^ allocsize_bits (asi sb Meta) \<and>
     (\<forall>i<bitmap_blocks (asi sb sp). bitmap_ok sb sp i) \<and>
     chunks (asi sb sp) \<le> bitmap_blocks (asi sb sp) * 2 ^ bitmap_shift sb \<and>
     chunks (asi sb sp) + 8 < 2 ^ 64 \<and> last_alloc (asi sb sp) < chunks (asi sb sp) \<and>
     (\<forall>c<8 * ((chunks (asi sb sp) + 7) div 8). chunks (asi sb sp) \<le> c \<longrightarrow> chunk_used sb sp c)"

lemma shift_allocsize: "wf_alloc sb sp \<Longrightarrow> 2 ^ bitmap_shift sb = 8 * allocsize (metadata sb)"
  by (simp add: wf_alloc_def bitmap_shift_def power_add)

lemma bitmap_ok_bread:
  assumes "bitmap_ok sb sp i"
  obtains bytes where "bread sb (bitmap_base (asi sb sp) + i * 2 ^ chunk_sectors_bits (metadata sb)) = Some (BitmapB bytes)"
    "view sb (bitmap_base (asi sb sp) + i * 2 ^ chunk_sectors_bits (metadata sb)) = BitmapB bytes"
    "length bytes = allocsize (metadata sb)"
  using assms by (auto simp: bitmap_ok_def Let_def bread_SomeI split: block.splits)

text \<open>The search of a range of bytes finds the first chunk of the range that is free.\<close>

lemma find_append: "find P (xs @ ys) = (case find P xs of None \<Rightarrow> find P ys | Some x \<Rightarrow> Some x)"
  by (induction xs) auto

lemma find_map: "find P (map f xs) = map_option f (find (P \<circ> f) xs)"
  by (induction xs) auto

lemma map_add_upt_from: "map (\<lambda>j. j + k) [a..<b] = [a + k..<b + k]"
  by (rule nth_equalityI) auto

lemma upt_split: "a \<le> b \<Longrightarrow> b \<le> c \<Longrightarrow> [a..<c] = [a..<b] @ [b..<c]"
  by (metis le_add_diff_inverse upt_add_eq_append)

lemma byte_full_bit: "\<not> bit (w :: u8) k \<Longrightarrow> k < 8 \<Longrightarrow> w \<noteq> 0xff"
proof
  assume "\<not> bit w k" "k < 8" "w = 0xff"
  moreover have "bit (0xff :: u8) k" if "k < 8"
    using that by (auto simp: less_Suc_eq numeral_eq_Suc)
  ultimately show False by simp
qed

lemma scan_block_eq:
  assumes sz: "2 ^ bitmap_shift sb = 8 * allocsize (metadata sb)"
    and bytes: "view sb (bitmap_base (asi sb sp) + blocknum * 2 ^ chunk_sectors_bits (metadata sb)) = BitmapB bytes"
    and le: "offset + n \<le> allocsize (metadata sb)"
  shows "scan_block sb bytes blocknum offset n =
    find (\<lambda>c. \<not> in_use sb sp c)
      [8 * (blocknum * allocsize (metadata sb) + offset)..<8 * (blocknum * allocsize (metadata sb) + offset + n)]"
proof -
  let ?B = "blocknum * 2 ^ bitmap_shift sb"
  have "[8 * (blocknum * allocsize (metadata sb) + offset)..<8 * (blocknum * allocsize (metadata sb) + offset + n)] =
      map (\<lambda>j. j + ?B) [8 * offset..<8 * (offset + n)]"
    by (simp add: sz map_add_upt_from algebra_simps)
  moreover have "(let c = bytes ! (j div 8) in c \<noteq> 0xff \<and> c AND push_bit (j mod 8) 1 = 0 \<and>
        \<not> is_deferred_alloc sb (j + ?B)) \<longleftrightarrow> \<not> in_use sb sp (j + ?B)"
    if j: "j \<in> set [8 * offset..<8 * (offset + n)]" for j
  proof -
    have "j < 2 ^ bitmap_shift sb" using j le by (simp add: sz)
    then have "bitmap_sector sb sp (j + ?B) =
        bitmap_base (asi sb sp) + blocknum * 2 ^ chunk_sectors_bits (metadata sb)"
      "(j + ?B) mod 2 ^ bitmap_shift sb = j"
      by (simp_all add: bitmap_sector_def)
    then show ?thesis
      using byte_full_bit [of "bytes ! (j div 8)" "j mod 8"]
      by (auto simp: in_use_def chunk_used_def bytes get_bitmap_bit_iff and_bit8_eq_0_iff Let_def)
  qed
  ultimately show ?thesis
    unfolding scan_block_def by (simp only: find_map comp_def cong: find_cong)
qed

text \<open>The block of the bitmap that holds the bit of a chunk.\<close>

definition bitmap_bytes :: "'a superblock_scheme \<Rightarrow> space \<Rightarrow> chunk_t \<Rightarrow> u8 list" where
  "bitmap_bytes sb sp chunk = buffer2bitmap (view sb (bitmap_sector sb sp chunk))"

lemma alloc_scan_eq:
  assumes wf: "wf_alloc sb sp" and "blocknum < bitmap_blocks (asi sb sp)" "offset < allocsize (metadata sb)"
    and "blocknum * allocsize (metadata sb) + offset + len \<le> bitmap_blocks (asi sb sp) * allocsize (metadata sb)"
    and "len < fuel"
  shows "alloc_scan fuel sp blocknum offset len sb =
    (case find (\<lambda>c. \<not> in_use sb sp c)
       [8 * (blocknum * allocsize (metadata sb) + offset)..<8 * (blocknum * allocsize (metadata sb) + offset + len)] of
       None \<Rightarrow> (None, sb)
     | Some c \<Rightarrow> (Some c, take_chunk sp (bitmap_sector sb sp c) (bitmap_bytes sb sp c) c sb))"
  using assms(2-)
proof (induction fuel arbitrary: blocknum offset len)
  case 0 then show ?case by simp
next
  case (Suc fuel)
  let ?sz = "allocsize (metadata sb)" and ?blocks = "bitmap_blocks (asi sb sp)"
  let ?sector = "bitmap_base (asi sb sp) + blocknum * 2 ^ chunk_sectors_bits (metadata sb)"
  let ?n = "min (?sz - offset) len" and ?B = "blocknum * ?sz + offset"
  let ?P = "\<lambda>c. \<not> in_use sb sp c"
  note sz = shift_allocsize [OF wf]
  obtain bytes where b: "bread sb ?sector = Some (BitmapB bytes)" "view sb ?sector = BitmapB bytes"
    using wf Suc.prems(1) bitmap_ok_bread unfolding wf_alloc_def by metis
  have scan: "scan_block sb bytes blocknum offset ?n = find ?P [8 * ?B..<8 * (?B + ?n)]"
    using Suc.prems(2) by (intro scan_block_eq [OF sz b(2)]) auto
  have split: "[8 * ?B..<8 * (?B + len)] = [8 * ?B..<8 * (?B + ?n)] @ [8 * (?B + ?n)..<8 * (?B + len)]"
    by (rule upt_split) auto
  show ?case
  proof (cases "find ?P [8 * ?B..<8 * (?B + ?n)]")
    case (Some c)
    have "c \<in> set [8 * ?B..<8 * (?B + ?n)]" using Some by (auto simp: find_Some_iff)
    then have "blocknum * 2 ^ bitmap_shift sb \<le> c" "c < Suc blocknum * 2 ^ bitmap_shift sb"
      using Suc.prems(2) by (auto simp: sz)
    then have "c div 2 ^ bitmap_shift sb = blocknum"
      by (simp add: div_nat_eqI mult.commute)
    then have "bitmap_sector sb sp c = ?sector" by (simp add: bitmap_sector_def)
    then show ?thesis
      unfolding split find_append Some using scan [unfolded Some] by (simp add: b bitmap_bytes_def Let_def)
  next
    case None
    show ?thesis
    proof (cases "len - ?n = 0")
      case True
      then have "?n = len" by simp
      with None show ?thesis using scan [unfolded None] by (simp add: b(1) Let_def)
    next
      case False
      then have n: "?n = ?sz - offset" "?sz - offset < len" by auto
      have "blocknum + 1 \<noteq> ?blocks"
      proof
        assume "blocknum + 1 = ?blocks"
        then have "?blocks * ?sz = blocknum * ?sz + ?sz" by (metis add_mult_distrib mult_1)
        with Suc.prems(2,3) n show False by simp
      qed
      then have nb: "blocknum + 1 < ?blocks" using Suc.prems(1) by simp
      have B': "?B + ?n = (blocknum + 1) * ?sz" using n Suc.prems(2) by simp
      have "alloc_scan (Suc fuel) sp blocknum offset len sb = alloc_scan fuel sp (blocknum + 1) 0 (len - ?n) sb"
        using scan [unfolded None] False \<open>blocknum + 1 \<noteq> ?blocks\<close> by (simp add: b(1) Let_def)
      also have "\<dots> = (case find ?P [8 * (?B + ?n)..<8 * (?B + len)] of
          None \<Rightarrow> (None, sb)
        | Some c \<Rightarrow> (Some c, take_chunk sp (bitmap_sector sb sp c) (bitmap_bytes sb sp c) c sb))"
      proof -
        have idx: "(blocknum + 1) * ?sz + 0 = ?B + ?n" "?B + ?n + (len - ?n) = ?B + len"
          using B' n by simp_all
        have fu: "len - ?n < fuel" and pos: "0 < ?sz" using n Suc.prems(2,4) by simp_all
        show ?thesis by (rule Suc.IH [OF nb pos, of "len - ?n", unfolded idx, OF Suc.prems(3) fu])
      qed
      finally show ?thesis unfolding split find_append None by simp
    qed
  qed
qed

section \<open>What allocation leaves alone\<close>

text \<open>
  \<open>erase\<close> forgets what allocating and freeing chunks may change: the
  contents of buffers and the lists they are on, the counters, and the deferred
  allocations.
\<close>

definition erase_img :: "allocspace_img \<Rightarrow> allocspace_img" where
  "erase_img a = a\<lparr>freechunks := 0, last_alloc := 0\<rparr>"

definition erase :: "'a superblock_scheme \<Rightarrow> 'a superblock_scheme" where
  "erase sb = sb\<lparr>cache := (\<lambda>_. None), dirty_buffers := [], journaled_buffers := [], runflags := 0,
     deferred_alloc := [], defer_range := \<lparr>range_chunk = 0, range_barrier = False, range_count = 0\<rparr>,
     image := (image sb)\<lparr>img_metadata := erase_img (img_metadata (image sb)),
                         img_snapdata := erase_img (img_snapdata (image sb))\<rparr>\<rparr>"

definition alloc_frame :: "'a superblock_scheme \<Rightarrow> 'a superblock_scheme \<Rightarrow> bool" where
  "alloc_frame sb sb' \<longleftrightarrow> erase sb' = erase sb"

lemma alloc_frame_refl [simp]: "alloc_frame sb sb"
  by (simp add: alloc_frame_def)

lemma alloc_frame_trans [trans]: "alloc_frame a b \<Longrightarrow> alloc_frame b c \<Longrightarrow> alloc_frame a c"
  by (simp add: alloc_frame_def)

lemma erase_simps:
  "erase (set_data a b sb) = erase sb"
  "erase (set_buffer_dirty a sb) = erase sb"
  "erase (set_sb_dirty sb) = erase sb"
  "erase (sb\<lparr>defer_range := r\<rparr>) = erase sb"
  "erase (sb\<lparr>deferred_alloc := rs\<rparr>) = erase sb"
  by (simp_all add: erase_def set_data_def set_buffer_dirty_def set_sb_dirty_def)

lemma erase_upd_asi: "(\<And>a. erase_img (f a) = erase_img a) \<Longrightarrow> erase (upd_asi f sp sb) = erase sb"
  by (cases "as_asi (get_as sb sp)") (simp_all add: erase_def upd_asi_def)

lemma erase_img_simps [simp]:
  "erase_img (a\<lparr>freechunks := x\<rparr>) = erase_img a" "erase_img (a\<lparr>last_alloc := x\<rparr>) = erase_img a"
  by (simp_all add: erase_img_def)

lemma asi_upd_asi:
  "asi (upd_asi f sp sb) sp' =
     (if as_asi (get_as sb sp') = as_asi (get_as sb sp) then f (asi sb sp') else asi sb sp')"
proof -
  have "get_as (upd_asi f sp sb) sp' = get_as sb sp'" by (cases sp') (simp_all add: upd_asi_def)
  then show ?thesis
    by (cases "as_asi (get_as sb sp)"; cases "as_asi (get_as sb sp')") (simp_all add: asi_def upd_asi_def)
qed

lemma alloc_frameD:
  assumes "alloc_frame sb sb'"
  shows "metadata sb' = metadata sb" "snapdata sb' = snapdata sb" "disk sb' = disk sb"
    "bad_sector sb' = bad_sector sb" "snapmask sb' = snapmask sb" "super_disk sb' = super_disk sb"
    "max_commit_blocks sb' = max_commit_blocks sb" "sb_usecount sb' = sb_usecount sb"
    "get_as sb' sp = get_as sb sp"
    "erase_img (asi sb' sp) = erase_img (asi sb sp)"
    "snaplist (image sb') = snaplist (image sb)" "etree_root (image sb') = etree_root (image sb)"
    "etree_levels (image sb') = etree_levels (image sb)" "journal_size (image sb') = journal_size (image sb)"
    "journal_base (image sb') = journal_base (image sb)" "orgsectors (image sb') = orgsectors (image sb)"
    "superblock.more sb' = superblock.more sb"
    "erase_img (img_metadata (image sb')) = erase_img (img_metadata (image sb))"
    "erase_img (img_snapdata (image sb')) = erase_img (img_snapdata (image sb))"
proof -
  have e: "erase sb' = erase sb" using assms by (simp add: alloc_frame_def)
  note c = arg_cong [OF e]
  show m: "metadata sb' = metadata sb" using c [of metadata] by (simp add: erase_def)
  show n: "snapdata sb' = snapdata sb" using c [of snapdata] by (simp add: erase_def)
  show "disk sb' = disk sb" using c [of disk] by (simp add: erase_def)
  show "bad_sector sb' = bad_sector sb" using c [of bad_sector] by (simp add: erase_def)
  show "snapmask sb' = snapmask sb" using c [of snapmask] by (simp add: erase_def)
  show "super_disk sb' = super_disk sb" using c [of super_disk] by (simp add: erase_def)
  show "max_commit_blocks sb' = max_commit_blocks sb" using c [of max_commit_blocks] by (simp add: erase_def)
  show "sb_usecount sb' = sb_usecount sb" using c [of sb_usecount] by (simp add: erase_def)
  show g: "get_as sb' sp = get_as sb sp" by (cases sp) (simp_all add: m n)
  show i: "erase_img (img_metadata (image sb')) = erase_img (img_metadata (image sb))"
    "erase_img (img_snapdata (image sb')) = erase_img (img_snapdata (image sb))"
    using c [of "\<lambda>s. img_metadata (image s)"] c [of "\<lambda>s. img_snapdata (image s)"] by (simp_all add: erase_def)
  show "erase_img (asi sb' sp) = erase_img (asi sb sp)"
    by (cases "as_asi (get_as sb sp)") (simp_all add: asi_def g i)
  show "snaplist (image sb') = snaplist (image sb)" using c [of "\<lambda>s. snaplist (image s)"] by (simp add: erase_def)
  show "etree_root (image sb') = etree_root (image sb)" using c [of "\<lambda>s. etree_root (image s)"] by (simp add: erase_def)
  show "etree_levels (image sb') = etree_levels (image sb)" using c [of "\<lambda>s. etree_levels (image s)"] by (simp add: erase_def)
  show "journal_size (image sb') = journal_size (image sb)" using c [of "\<lambda>s. journal_size (image s)"] by (simp add: erase_def)
  show "journal_base (image sb') = journal_base (image sb)" using c [of "\<lambda>s. journal_base (image s)"] by (simp add: erase_def)
  show "orgsectors (image sb') = orgsectors (image sb)" using c [of "\<lambda>s. orgsectors (image s)"] by (simp add: erase_def)
  show "superblock.more sb' = superblock.more sb" using c [of superblock.more] by (simp add: erase_def)
qed

lemma erase_imgD:
  assumes "erase_img a = erase_img b"
  shows "bitmap_base a = bitmap_base b" "chunks a = chunks b" "bitmap_blocks a = bitmap_blocks b"
    "allocsize_bits a = allocsize_bits b"
  using arg_cong [OF assms, of bitmap_base] arg_cong [OF assms, of chunks]
    arg_cong [OF assms, of bitmap_blocks] arg_cong [OF assms, of allocsize_bits]
  by (simp_all add: erase_img_def)

lemma alloc_frame_bitmap:
  assumes "alloc_frame sb sb'"
  shows "bitmap_shift sb' = bitmap_shift sb" "bitmap_sector sb' sp c = bitmap_sector sb sp c"
    "combined sb' = combined sb"
proof -
  note i = erase_imgD [OF alloc_frameD(10) [OF assms]]
  show s: "bitmap_shift sb' = bitmap_shift sb" by (simp add: bitmap_shift_def i)
  show "bitmap_sector sb' sp c = bitmap_sector sb sp c"
    by (simp add: bitmap_sector_def s i alloc_frameD(1) [OF assms])
  show "combined sb' = combined sb"
    by (simp add: combined_def erase_imgD(2) [OF alloc_frameD(19) [OF assms]])
qed

lemma take_chunk_frame: "alloc_frame sb (take_chunk sp sector bytes c sb)"
  by (simp add: alloc_frame_def take_chunk_def mark_chunk_def Let_def erase_simps erase_upd_asi)

lemma free_chunk_frame: "alloc_frame sb (snd (free_chunk sp c sb))"
  by (simp add: alloc_frame_def free_chunk_def Let_def erase_simps erase_upd_asi split: option.split)

section \<open>Marking and unmarking a chunk\<close>

lemma chunk_within_iff:
  assumes "x < 2 ^ 64" "s + n \<le> 2 ^ 64" "s < 2 ^ 64"
  shows "chunk_within x s n \<longleftrightarrow> s \<le> x \<and> x < s + n"
proof (cases "s \<le> x")
  case True with assms show ?thesis by (auto simp: chunk_within_def u64_sub_eq)
next
  case False
  with assms have "u64_sub x s = x + 2 ^ 64 - s" by (simp add: u64_sub_def)
  with False assms show ?thesis by (simp add: chunk_within_def)
qed

lemma bitmap_sector_eq_iff:
  "bitmap_sector sb sp x = bitmap_sector sb sp c \<longleftrightarrow> x div 2 ^ bitmap_shift sb = c div 2 ^ bitmap_shift sb"
  by (simp add: bitmap_sector_def)

lemma wf_alloc_bytes:
  assumes wf: "wf_alloc sb sp" and c: "c < bitmap_blocks (asi sb sp) * 2 ^ bitmap_shift sb"
  shows "view sb (bitmap_sector sb sp c) = BitmapB (bitmap_bytes sb sp c)"
    "length (bitmap_bytes sb sp c) = allocsize (metadata sb)"
    "(c mod 2 ^ bitmap_shift sb) div 8 < length (bitmap_bytes sb sp c)"
    "bread sb (bitmap_sector sb sp c) = Some (BitmapB (bitmap_bytes sb sp c))"
proof -
  let ?i = "c div 2 ^ bitmap_shift sb"
  have "?i < bitmap_blocks (asi sb sp)" using c by (simp add: less_mult_imp_div_less)
  then have "bitmap_ok sb sp ?i" using wf by (simp add: wf_alloc_def)
  then obtain bytes where b: "bread sb (bitmap_sector sb sp c) = Some (BitmapB bytes)"
    "view sb (bitmap_sector sb sp c) = BitmapB bytes" "length bytes = allocsize (metadata sb)"
    using bitmap_ok_bread unfolding bitmap_sector_def by metis
  then have e: "bitmap_bytes sb sp c = bytes" by (simp add: bitmap_bytes_def)
  show "view sb (bitmap_sector sb sp c) = BitmapB (bitmap_bytes sb sp c)"
    "length (bitmap_bytes sb sp c) = allocsize (metadata sb)"
    "bread sb (bitmap_sector sb sp c) = Some (BitmapB (bitmap_bytes sb sp c))"
    using b e by simp_all
  have "c mod 2 ^ bitmap_shift sb < 8 * allocsize (metadata sb)"
    using shift_allocsize [OF wf] by (metis mod_less_divisor zero_less_numeral zero_less_power)
  then show "(c mod 2 ^ bitmap_shift sb) div 8 < length (bitmap_bytes sb sp c)"
    using b(3) e by simp
qed

text \<open>Replacing the bitmap block of chunk \<open>c\<close> by \<open>bytes\<close>.\<close>

definition put_bitmap :: "space \<Rightarrow> chunk_t \<Rightarrow> u8 list \<Rightarrow> 'a superblock_scheme \<Rightarrow> 'a superblock_scheme" where
  "put_bitmap sp c bytes sb =
     set_buffer_dirty (bitmap_sector sb sp c) (set_data (bitmap_sector sb sp c) (BitmapB bytes) sb)"

lemma put_bitmap_frame: "alloc_frame sb (put_bitmap sp c bytes sb)"
  by (simp add: alloc_frame_def put_bitmap_def erase_simps)

lemma view_put_bitmap: "view (put_bitmap sp c bytes sb) = (view sb)(bitmap_sector sb sp c := BitmapB bytes)"
  by (simp add: put_bitmap_def)

lemma asi_put_bitmap: "asi (put_bitmap sp c bytes sb) sp' = asi sb sp'"
proof -
  have "image (put_bitmap sp c bytes sb) = image sb"
    by (simp add: put_bitmap_def set_buffer_dirty_def set_data_def)
  then show ?thesis by (simp add: asi_def alloc_frameD(9) [OF put_bitmap_frame])
qed

text \<open>The chunks in use depend on the contents of the bitmap blocks only.\<close>

lemma chunk_used_cong:
  assumes "alloc_frame sb sb'" "view sb' (bitmap_sector sb sp x) = view sb (bitmap_sector sb sp x)"
  shows "chunk_used sb' sp x = chunk_used sb sp x"
  using assms by (simp add: chunk_used_def alloc_frame_bitmap [OF assms(1)])

lemma chunk_used_put:
  assumes wf: "wf_alloc sb sp" and c: "c < bitmap_blocks (asi sb sp) * 2 ^ bitmap_shift sb"
    and len: "length bytes = length (bitmap_bytes sb sp c)"
    and bits: "\<And>j. get_bitmap_bit bytes j \<longleftrightarrow>
      (if j = c mod 2 ^ bitmap_shift sb then v else get_bitmap_bit (bitmap_bytes sb sp c) j)"
  shows "chunk_used (put_bitmap sp c bytes sb) sp x \<longleftrightarrow> (if x = c then v else chunk_used sb sp x)"
proof (cases "x div 2 ^ bitmap_shift sb = c div 2 ^ bitmap_shift sb")
  case True
  then have s: "bitmap_sector sb sp x = bitmap_sector sb sp c" by (simp add: bitmap_sector_eq_iff)
  have "x mod 2 ^ bitmap_shift sb = c mod 2 ^ bitmap_shift sb \<longleftrightarrow> x = c"
    using True by (metis div_mult_mod_eq)
  then show ?thesis
    by (simp add: chunk_used_def alloc_frame_bitmap [OF put_bitmap_frame] view_put_bitmap s bits
        bitmap_bytes_def)
next
  case False
  then have "bitmap_sector sb sp x \<noteq> bitmap_sector sb sp c" "x \<noteq> c" by (auto simp: bitmap_sector_eq_iff)
  then show ?thesis by (subst chunk_used_cong [OF put_bitmap_frame]) (simp_all add: view_put_bitmap)
qed

lemma chunk_used_set:
  assumes "wf_alloc sb sp" "c < bitmap_blocks (asi sb sp) * 2 ^ bitmap_shift sb"
  shows "chunk_used (put_bitmap sp c (set_bitmap_bit (bitmap_bytes sb sp c) (c mod 2 ^ bitmap_shift sb)) sb) sp x \<longleftrightarrow>
    x = c \<or> chunk_used sb sp x"
  by (subst chunk_used_put [OF assms, where v = True])
    (auto simp: get_set_bitmap_bit [OF wf_alloc_bytes(3) [OF assms]])

lemma chunk_used_clear:
  assumes "wf_alloc sb sp" "c < bitmap_blocks (asi sb sp) * 2 ^ bitmap_shift sb"
  shows "chunk_used (put_bitmap sp c (clear_bitmap_bit (bitmap_bytes sb sp c) (c mod 2 ^ bitmap_shift sb)) sb) sp x \<longleftrightarrow>
    x \<noteq> c \<and> chunk_used sb sp x"
  by (subst chunk_used_put [OF assms, where v = False])
    (auto simp: get_clear_bitmap_bit [OF wf_alloc_bytes(3) [OF assms]])

text \<open>A bitmap stays well formed when blocks keep their size and no padding bit is cleared.\<close>

lemma wf_alloc_cong:
  assumes wf: "wf_alloc sb sp" and fr: "alloc_frame sb sb'"
    and "\<And>i. i < bitmap_blocks (asi sb sp) \<Longrightarrow> bitmap_ok sb sp i \<Longrightarrow> bitmap_ok sb' sp i"
    and "\<And>x. chunks (asi sb sp) \<le> x \<Longrightarrow> chunk_used sb sp x \<Longrightarrow> chunk_used sb' sp x"
    and "last_alloc (asi sb' sp) < chunks (asi sb sp)"
  shows "wf_alloc sb' sp"
  using assms erase_imgD [OF alloc_frameD(10) [OF fr, of sp]] erase_imgD [OF alloc_frameD(10) [OF fr, of Meta]]
  by (auto simp: wf_alloc_def alloc_frame_bitmap [OF fr] alloc_frameD(1) [OF fr])

lemma bitmap_ok_cong:
  assumes fr: "alloc_frame sb sb'" and "view sb' = view sb"
  shows "bitmap_ok sb' sp i = bitmap_ok sb sp i"
proof -
  note fi = erase_imgD [OF alloc_frameD(10) [OF fr, of sp]]
  show ?thesis unfolding bitmap_ok_def fi alloc_frameD(1,4) [OF fr] assms(2) ..
qed

lemma bitmap_ok_put:
  assumes "length bytes = allocsize (metadata sb)" "bitmap_ok sb sp' i"
  shows "bitmap_ok (put_bitmap sp c bytes sb) sp' i"
  using assms
  by (simp add: bitmap_ok_def Let_def asi_put_bitmap alloc_frameD(1,4) [OF put_bitmap_frame] view_put_bitmap
      split: block.splits)

text \<open>Changing the counters, the flags or the deferred range leaves the bitmaps alone.\<close>

lemma view_counters [simp]:
  "view (upd_asi f sp sb) = view sb" "view (set_sb_dirty sb) = view sb"
  "view (sb\<lparr>defer_range := r\<rparr>) = view sb" "view (sb\<lparr>deferred_alloc := rs\<rparr>) = view sb"
  by (rule ext; simp add: view_def upd_asi_def set_sb_dirty_def split: option.split)+

lemma is_deferred_counters [simp]:
  "is_deferred_alloc (upd_asi f sp sb) c = is_deferred_alloc sb c"
  "is_deferred_alloc (set_sb_dirty sb) c = is_deferred_alloc sb c"
  "is_deferred_alloc (put_bitmap sp x bytes sb) c = is_deferred_alloc sb c"
  by (simp_all add: is_deferred_alloc_def upd_asi_def set_sb_dirty_def put_bitmap_def set_buffer_dirty_def
      set_data_def)

lemma asi_set_sb_dirty [simp]: "asi (set_sb_dirty sb) sp = asi sb sp"
  by (cases sp) (simp_all add: asi_def set_sb_dirty_def)

lemma asi_defer_range [simp]:
  "asi (sb\<lparr>defer_range := r\<rparr>) sp = asi sb sp" "asi (sb\<lparr>deferred_alloc := rs\<rparr>) sp = asi sb sp"
  by (cases sp; simp add: asi_def)+

lemma mark_chunk_eq:
  "mark_chunk (bitmap_sector sb sp c) (bitmap_bytes sb sp c) c sb =
     (let may = deferring sb \<and> length (deferred_alloc sb) < MAX_DEFERRED_ALLOCS;
          defer = defer_range sb
      in if may \<and> range_count defer = 0
         then sb\<lparr>defer_range := defer\<lparr>range_chunk := c, range_count := 1\<rparr>\<rparr>
         else if may \<and> c = range_chunk defer + 1
         then sb\<lparr>defer_range := defer\<lparr>range_count := range_count defer + 1\<rparr>\<rparr>
         else put_bitmap sp c (set_bitmap_bit (bitmap_bytes sb sp c) (c mod 2 ^ bitmap_shift sb)) sb)"
  by (simp add: mark_chunk_def put_bitmap_def Let_def)

lemma mark_chunk_simps [simp]:
  "image (mark_chunk sector bytes c sb) = image sb"
  "metadata (mark_chunk sector bytes c sb) = metadata sb"
  "snapdata (mark_chunk sector bytes c sb) = snapdata sb"
  by (simp_all add: mark_chunk_def Let_def set_buffer_dirty_def set_data_def)

lemma mark_chunk_asi [simp]:
  "get_as (mark_chunk sector bytes c sb) sp = get_as sb sp" "asi (mark_chunk sector bytes c sb) sp = asi sb sp"
  by (cases sp; simp add: asi_def)+

lemma deferred_extend:
  assumes "c < 2 ^ 64" "x < 2 ^ 64" "\<not> is_deferred_alloc sb c"
    and "range_count (defer_range sb) = 0 \<and> r = (defer_range sb)\<lparr>range_chunk := c, range_count := 1\<rparr> \<or>
      range_count (defer_range sb) \<noteq> 0 \<and> c = range_chunk (defer_range sb) + 1 \<and>
      r = (defer_range sb)\<lparr>range_count := range_count (defer_range sb) + 1\<rparr>"
  shows "is_deferred_alloc (sb\<lparr>defer_range := r\<rparr>) x \<longleftrightarrow> is_deferred_alloc sb x \<or> x = c"
  using assms(4)
proof
  assume r: "range_count (defer_range sb) = 0 \<and> r = (defer_range sb)\<lparr>range_chunk := c, range_count := 1\<rparr>"
  have "chunk_within x c 1 \<longleftrightarrow> x = c"
    using chunk_within_iff [of x c 1] assms(1,2) by auto
  with r show ?thesis by (auto simp: is_deferred_alloc_def chunk_within_def)
next
  assume r: "range_count (defer_range sb) \<noteq> 0 \<and> c = range_chunk (defer_range sb) + 1 \<and>
      r = (defer_range sb)\<lparr>range_count := range_count (defer_range sb) + 1\<rparr>"
  let ?s = "range_chunk (defer_range sb)"
  have "\<not> chunk_within c ?s (range_count (defer_range sb))" using assms(3) by (auto simp: is_deferred_alloc_def)
  moreover have "u64_sub c ?s = 1" using r assms(1) by (simp add: u64_sub_eq)
  ultimately have one: "range_count (defer_range sb) = 1" using r by (simp add: chunk_within_def)
  have "chunk_within x ?s 2 \<longleftrightarrow> x = ?s \<or> x = c" "chunk_within x ?s 1 \<longleftrightarrow> x = ?s"
    using chunk_within_iff [of x ?s 2] chunk_within_iff [of x ?s 1] assms(1,2) r by auto
  moreover have "range_chunk r = ?s" "range_count r = 2" using r one by simp_all
  ultimately show ?thesis by (auto simp: is_deferred_alloc_def one)
qed

lemma take_chunk_in_use:
  assumes wf: "wf_alloc sb sp" and c: "c < bitmap_blocks (asi sb sp) * 2 ^ bitmap_shift sb" "c < 2 ^ 64"
    and free: "\<not> in_use sb sp c" and x: "x < 2 ^ 64"
  shows "in_use (take_chunk sp (bitmap_sector sb sp c) (bitmap_bytes sb sp c) c sb) sp x \<longleftrightarrow>
    in_use sb sp x \<or> x = c"
proof -
  let ?sb = "take_chunk sp (bitmap_sector sb sp c) (bitmap_bytes sb sp c) c sb"
  let ?put = "put_bitmap sp c (set_bitmap_bit (bitmap_bytes sb sp c) (c mod 2 ^ bitmap_shift sb)) sb"
  let ?may = "deferring sb \<and> length (deferred_alloc sb) < MAX_DEFERRED_ALLOCS"
  have fr: "alloc_frame sb ?sb" by (rule take_chunk_frame)
  show ?thesis
  proof (cases "?may \<and> (range_count (defer_range sb) = 0 \<or> c = range_chunk (defer_range sb) + 1)")
    case True
    then have "view ?sb = view sb" unfolding take_chunk_def mark_chunk_eq Let_def by auto
    then have u: "chunk_used ?sb sp x = chunk_used sb sp x" using chunk_used_cong [OF fr] by simp
    have "is_deferred_alloc ?sb x \<longleftrightarrow> is_deferred_alloc sb x \<or> x = c"
      using True free deferred_extend [OF c(2) x, of sb] unfolding take_chunk_def mark_chunk_eq Let_def in_use_def by auto
    with u show ?thesis by (auto simp: in_use_def)
  next
    case False
    then have e: "?sb = set_sb_dirty (upd_asi (\<lambda>a. a\<lparr>freechunks := u64_sub (freechunks a) 1\<rparr>) sp ?put)"
      unfolding take_chunk_def mark_chunk_eq Let_def by auto
    have "alloc_frame ?put ?sb" unfolding e by (simp add: alloc_frame_def erase_simps erase_upd_asi)
    from chunk_used_cong [OF this, of sp x] have "chunk_used ?sb sp x = chunk_used ?put sp x" by (simp add: e)
    then show ?thesis by (auto simp: in_use_def e chunk_used_set [OF wf c(1)])
  qed
qed

lemma take_chunk_view:
  assumes "y \<noteq> bitmap_sector sb sp c"
  shows "view (take_chunk sp (bitmap_sector sb sp c) bytes c sb) y = view sb y"
  using assms by (simp add: take_chunk_def mark_chunk_def Let_def)

lemma take_chunk_asi:
  "asi (take_chunk sp sector bytes c sb) sp' =
     (if as_asi (get_as sb sp') = as_asi (get_as sb sp)
      then (asi sb sp')\<lparr>freechunks := u64_sub (freechunks (asi sb sp')) 1\<rparr> else asi sb sp')"
  by (simp add: take_chunk_def asi_upd_asi)

lemma wf_alloc_take:
  assumes wf: "wf_alloc sb sp" and c: "c < bitmap_blocks (asi sb sp) * 2 ^ bitmap_shift sb"
  shows "wf_alloc (take_chunk sp (bitmap_sector sb sp c) (bitmap_bytes sb sp c) c sb) sp" (is "wf_alloc ?sb sp")
proof -
  let ?put = "put_bitmap sp c (set_bitmap_bit (bitmap_bytes sb sp c) (c mod 2 ^ bitmap_shift sb)) sb"
  have fr: "alloc_frame sb ?sb" by (rule take_chunk_frame)
  have v: "view ?sb = view sb \<or> view ?sb = view ?put" unfolding take_chunk_def mark_chunk_eq Let_def by auto
  have ok: "bitmap_ok ?put sp i" if "bitmap_ok sb sp i" for i
    by (rule bitmap_ok_put [OF _ that]) (simp add: wf_alloc_bytes(2) [OF wf c])
  have put_frame: "alloc_frame ?put ?sb"
    using fr put_bitmap_frame [of sb sp c] by (simp add: alloc_frame_def)
  show ?thesis
  proof (rule wf_alloc_cong [OF wf fr])
    fix i assume "i < bitmap_blocks (asi sb sp)" and i: "bitmap_ok sb sp i"
    from v show "bitmap_ok ?sb sp i"
      using bitmap_ok_cong [OF fr] bitmap_ok_cong [OF put_frame] i ok [OF i] by metis
  next
    fix x assume x: "chunk_used sb sp x"
    from v show "chunk_used ?sb sp x"
    proof
      assume "view ?sb = view sb" with x show ?thesis using chunk_used_cong [OF fr] by simp
    next
      assume "view ?sb = view ?put"
      then have "chunk_used ?sb sp x = chunk_used ?put sp x"
        by (simp add: chunk_used_def alloc_frame_bitmap [OF fr] alloc_frame_bitmap [OF put_bitmap_frame])
      with x show ?thesis by (simp add: chunk_used_set [OF wf c])
    qed
  next
    show "last_alloc (asi ?sb sp) < chunks (asi sb sp)"
      using wf by (simp add: take_chunk_asi wf_alloc_def)
  qed
qed

section \<open>Allocation\<close>

lemma alloc_from_range_eq:
  assumes wf: "wf_alloc sb sp" and b: "start div 2 ^ bitmap_shift sb < bitmap_blocks (asi sb sp)"
    and le: "start + n \<le> bitmap_blocks (asi sb sp) * 2 ^ bitmap_shift sb"
  shows "alloc_chunk_from_range sp start n sb =
    (case find (\<lambda>c. \<not> in_use sb sp c) [8 * (start div 8)..<8 * ((start + n + 7) div 8)] of
       None \<Rightarrow> (None, sb)
     | Some c \<Rightarrow> (Some c, take_chunk sp (bitmap_sector sb sp c) (bitmap_bytes sb sp c) c sb))"
proof -
  let ?A = "allocsize (metadata sb)"
  let ?q = "start div 2 ^ bitmap_shift sb" and ?r = "start mod 2 ^ bitmap_shift sb"
  let ?len = "(n + start mod 8 + 7) div 8"
  note sz = shift_allocsize [OF wf]
  have A: "0 < ?A" using wf by (simp add: wf_alloc_def)
  have "start = 8 * (?q * ?A) + ?r" using div_mult_mod_eq [of start "2 ^ bitmap_shift sb"] by (simp add: sz)
  then have B: "?q * ?A + ?r div 8 = start div 8"
    by (metis add.commute div_mult_self2 mult.commute zero_neq_numeral)
  have L: "start div 8 + ?len = (start + n + 7) div 8"
    using div_mult_mod_eq [of start 8] by linarith
  have off: "?r div 8 < ?A"
    using A unfolding sz by (intro less_mult_imp_div_less) (simp add: mult.commute)
  have "?q * ?A + ?r div 8 + ?len \<le> bitmap_blocks (asi sb sp) * ?A"
    unfolding B L using le by (simp add: sz)
  from alloc_scan_eq [OF wf b off this, of "?len + 1", unfolded B L]
  show ?thesis by (simp add: alloc_chunk_from_range_def Let_def)
qed

text \<open>
  The combined result for \<open>alloc_chunk\<close>: the two ranges it searches cover all
  chunks of the space.
\<close>

lemma alloc_chunk_eq:
  assumes wf: "wf_alloc sb sp"
  shows "\<exists>xs. set xs \<subseteq> {c. c < 8 * ((chunks (asi sb sp) + 7) div 8)} \<and> {c. c < chunks (asi sb sp)} \<subseteq> set xs \<and>
    alloc_chunk sp sb =
      (case find (\<lambda>c. \<not> in_use sb sp c) xs of
         None \<Rightarrow> (None, sb)
       | Some c \<Rightarrow> (Some c, set_sb_dirty (upd_asi (\<lambda>a. a\<lparr>last_alloc := c\<rparr>) sp
           (take_chunk sp (bitmap_sector sb sp c) (bitmap_bytes sb sp c) c sb))))"
proof -
  let ?last = "last_alloc (asi sb sp)" and ?total = "chunks (asi sb sp)"
  let ?xs = "[8 * (?last div 8)..<8 * ((?total + 7) div 8)]" and ?ys = "[0..<8 * ((?last + 7) div 8)]"
  have lt: "?last < ?total" "?total \<le> bitmap_blocks (asi sb sp) * 2 ^ bitmap_shift sb" "?total < 2 ^ 64"
    using wf by (auto simp: wf_alloc_def)
  have n: "u64_sub ?total ?last = ?total - ?last" using lt by (simp add: u64_sub_eq)
  have b: "?last div 2 ^ bitmap_shift sb < bitmap_blocks (asi sb sp)"
    using lt by (simp add: less_mult_imp_div_less)
  have 1: "alloc_chunk_from_range sp ?last (u64_sub ?total ?last) sb =
    (case find (\<lambda>c. \<not> in_use sb sp c) ?xs of None \<Rightarrow> (None, sb)
     | Some c \<Rightarrow> (Some c, take_chunk sp (bitmap_sector sb sp c) (bitmap_bytes sb sp c) c sb))"
    using alloc_from_range_eq [OF wf b, of "?total - ?last"] lt by (simp add: n)
  have 2: "alloc_chunk_from_range sp 0 ?last sb =
    (case find (\<lambda>c. \<not> in_use sb sp c) ?ys of None \<Rightarrow> (None, sb)
     | Some c \<Rightarrow> (Some c, take_chunk sp (bitmap_sector sb sp c) (bitmap_bytes sb sp c) c sb))"
    using alloc_from_range_eq [OF wf, of 0 ?last] lt b by simp
  have cover: "set (?xs @ ?ys) \<subseteq> {c. c < 8 * ((?total + 7) div 8)}" "{c. c < ?total} \<subseteq> set (?xs @ ?ys)"
    using lt(1) div_le_mono [of "?last + 7" "?total + 7" 8] by auto
  show ?thesis
    by (rule exI [of _ "?xs @ ?ys"], intro conjI cover)
      (simp add: alloc_chunk_def 1 2 find_append Let_def split: option.split)
qed

lemma last_alloc_frame: "alloc_frame sb (set_sb_dirty (upd_asi (\<lambda>a. a\<lparr>last_alloc := c\<rparr>) sp sb))"
  by (simp add: alloc_frame_def erase_simps erase_upd_asi)

lemma in_use_last_alloc:
  "in_use (set_sb_dirty (upd_asi (\<lambda>a. a\<lparr>last_alloc := c\<rparr>) sp sb)) sp' x = in_use sb sp' x"
  by (simp add: in_use_def chunk_used_cong [OF last_alloc_frame])

lemma wf_alloc_last_alloc:
  assumes wf: "wf_alloc sb sp" and c: "c < chunks (asi sb sp)"
  shows "wf_alloc (set_sb_dirty (upd_asi (\<lambda>a. a\<lparr>last_alloc := c\<rparr>) sp sb)) sp"
  by (rule wf_alloc_cong [OF wf last_alloc_frame])
    (simp_all add: chunk_used_cong [OF last_alloc_frame] bitmap_ok_cong [OF last_alloc_frame] c asi_upd_asi)

lemma alloc_chunk_Some:
  assumes wf: "wf_alloc sb sp" and run: "alloc_chunk sp sb = (Some c, sb')"
  shows "c < chunks (asi sb sp)" "\<not> in_use sb sp c" "wf_alloc sb' sp" "alloc_frame sb sb'"
    "\<And>x. x < 2 ^ 64 \<Longrightarrow> in_use sb' sp x \<longleftrightarrow> in_use sb sp x \<or> x = c"
    "\<And>y. y \<noteq> bitmap_sector sb sp c \<Longrightarrow> view sb' y = view sb y"
    "freechunks (asi sb' sp) = u64_sub (freechunks (asi sb sp)) 1"
proof -
  let ?take = "take_chunk sp (bitmap_sector sb sp c) (bitmap_bytes sb sp c) c sb"
  obtain xs where xs: "set xs \<subseteq> {c. c < 8 * ((chunks (asi sb sp) + 7) div 8)}"
    "find (\<lambda>c. \<not> in_use sb sp c) xs = Some c"
    "sb' = set_sb_dirty (upd_asi (\<lambda>a. a\<lparr>last_alloc := c\<rparr>) sp ?take)"
    using alloc_chunk_eq [OF wf] run by (auto split: option.splits)
  from find_SomeD [OF xs(2)] xs(1)
  have c: "c < 8 * ((chunks (asi sb sp) + 7) div 8)" and free: "\<not> in_use sb sp c" by auto
  show less: "c < chunks (asi sb sp)"
    using c free wf by (auto simp: wf_alloc_def in_use_def not_less [symmetric])
  have big: "c < bitmap_blocks (asi sb sp) * 2 ^ bitmap_shift sb" "c < 2 ^ 64"
    using less wf by (auto simp: wf_alloc_def)
  show "\<not> in_use sb sp c" by (rule free)
  have lt: "c < chunks (asi ?take sp)" using less by (simp add: take_chunk_asi)
  show "wf_alloc sb' sp" unfolding xs(3) by (rule wf_alloc_last_alloc [OF wf_alloc_take [OF wf big(1)] lt])
  show "alloc_frame sb sb'" unfolding xs(3) by (rule alloc_frame_trans [OF take_chunk_frame last_alloc_frame])
  show "in_use sb' sp x \<longleftrightarrow> in_use sb sp x \<or> x = c" if "x < 2 ^ 64" for x
    unfolding xs(3) in_use_last_alloc by (rule take_chunk_in_use [OF wf big free that])
  show "view sb' y = view sb y" if "y \<noteq> bitmap_sector sb sp c" for y
    using take_chunk_view [OF that] by (simp add: xs(3))
  show "freechunks (asi sb' sp) = u64_sub (freechunks (asi sb sp)) 1"
    by (simp add: xs(3) asi_upd_asi take_chunk_asi)
qed

lemma alloc_chunk_None:
  assumes wf: "wf_alloc sb sp" and run: "alloc_chunk sp sb = (None, sb')"
  shows "sb' = sb" "\<And>x. x < chunks (asi sb sp) \<Longrightarrow> in_use sb sp x"
  using alloc_chunk_eq [OF wf] run by (auto split: option.splits simp: find_None_iff)

lemma free_chunk_eq:
  assumes wf: "wf_alloc sb sp" and c: "c < chunks (asi sb sp)"
  shows "free_chunk sp c sb =
    (if chunk_used sb sp c
     then (True, set_sb_dirty (upd_asi (\<lambda>a. a\<lparr>freechunks := (freechunks a + 1) mod 2 ^ 64\<rparr>) sp
       (put_bitmap sp c (clear_bitmap_bit (bitmap_bytes sb sp c) (c mod 2 ^ bitmap_shift sb)) sb)))
     else (False, sb))"
proof -
  have b: "c < bitmap_blocks (asi sb sp) * 2 ^ bitmap_shift sb" using wf c by (auto simp: wf_alloc_def)
  note w = wf_alloc_bytes [OF wf b]
  show ?thesis
    using w(1,4) unfolding free_chunk_def Let_def bitmap_sector_def [symmetric]
    by (simp add: chunk_used_def put_bitmap_def)
qed

lemma free_chunk_used:
  assumes wf: "wf_alloc sb sp" and c: "c < chunks (asi sb sp)" and used: "chunk_used sb sp c"
    and run: "free_chunk sp c sb = (r, sb')"
  shows "r" "alloc_frame sb sb'" "wf_alloc sb' sp" "chunk_used sb' sp x \<longleftrightarrow> x \<noteq> c \<and> chunk_used sb sp x"
    "is_deferred_alloc sb' x = is_deferred_alloc sb x"
    "freechunks (asi sb' sp) = (freechunks (asi sb sp) + 1) mod 2 ^ 64"
    "y \<noteq> bitmap_sector sb sp c \<Longrightarrow> view sb' y = view sb y"
proof -
  let ?put = "put_bitmap sp c (clear_bitmap_bit (bitmap_bytes sb sp c) (c mod 2 ^ bitmap_shift sb)) sb"
  have b: "c < bitmap_blocks (asi sb sp) * 2 ^ bitmap_shift sb" using wf c by (auto simp: wf_alloc_def)
  have e: "r" "sb' = set_sb_dirty (upd_asi (\<lambda>a. a\<lparr>freechunks := (freechunks a + 1) mod 2 ^ 64\<rparr>) sp ?put)"
    using free_chunk_eq [OF wf c] used run by auto
  show "r" by (rule e)
  have pf: "alloc_frame ?put sb'" unfolding e(2) by (simp add: alloc_frame_def erase_simps erase_upd_asi)
  show fr: "alloc_frame sb sb'" by (rule alloc_frame_trans [OF put_bitmap_frame pf])
  have v: "view sb' = view ?put" by (simp add: e(2))
  show u: "chunk_used sb' sp x \<longleftrightarrow> x \<noteq> c \<and> chunk_used sb sp x" for x
    using chunk_used_cong [OF pf, of sp x] v by (simp add: chunk_used_clear [OF wf b])
  show "is_deferred_alloc sb' x = is_deferred_alloc sb x" by (simp add: e(2))
  show "freechunks (asi sb' sp) = (freechunks (asi sb sp) + 1) mod 2 ^ 64"
    by (simp add: e(2) asi_upd_asi asi_put_bitmap)
  show "view sb' y = view sb y" if "y \<noteq> bitmap_sector sb sp c" using that by (simp add: v view_put_bitmap)
  show "wf_alloc sb' sp"
  proof (rule wf_alloc_cong [OF wf fr])
    show "bitmap_ok sb' sp i" if "bitmap_ok sb sp i" for i
      using bitmap_ok_cong [OF pf v] bitmap_ok_put [OF _ that] by (simp add: wf_alloc_bytes(2) [OF wf b])
    show "chunk_used sb' sp x" if "chunks (asi sb sp) \<le> x" "chunk_used sb sp x" for x
      using that u c by auto
    show "last_alloc (asi sb' sp) < chunks (asi sb sp)"
      using wf by (simp add: e(2) asi_upd_asi asi_put_bitmap wf_alloc_def)
  qed
qed

section \<open>Counting\<close>

definition zeros_between :: "'a superblock_scheme \<Rightarrow> space \<Rightarrow> nat \<Rightarrow> nat \<Rightarrow> nat" where
  "zeros_between sb sp a b = card {c. a \<le> c \<and> c < b \<and> \<not> chunk_used sb sp c}"

lemma card_bits_add:
  assumes "a \<le> b" "b \<le> (c :: nat)"
  shows "card {j. a \<le> j \<and> j < c \<and> P j} = card {j. a \<le> j \<and> j < b \<and> P j} + card {j. b \<le> j \<and> j < c \<and> P j}"
proof -
  have "{j. a \<le> j \<and> j < c \<and> P j} = {j. a \<le> j \<and> j < b \<and> P j} \<union> {j. b \<le> j \<and> j < c \<and> P j}"
    using assms by auto
  also have "card \<dots> = card {j. a \<le> j \<and> j < b \<and> P j} + card {j. b \<le> j \<and> j < c \<and> P j}"
    by (intro card_Un_disjoint) auto
  finally show ?thesis .
qed

lemma card_shift: "card {j. a + k \<le> j \<and> j < b + k \<and> P j} = card {j. a \<le> j \<and> j < (b :: nat) \<and> P (j + k)}"
proof -
  have "{j. a + k \<le> j \<and> j < b + k \<and> P j} = (\<lambda>j. j + k) ` {j. a \<le> j \<and> j < b \<and> P (j + k)}" (is "?A = ?B")
  proof (rule set_eqI)
    fix j show "j \<in> ?A \<longleftrightarrow> j \<in> ?B"
      by (auto intro!: image_eqI [where x = "j - k"])
  qed
  then show ?thesis by (simp add: card_image inj_on_def)
qed

lemma sum_zeroes:
  "n \<le> length bytes \<Longrightarrow>
   sum_list (map zeroes (take n bytes)) = card {j. 0 \<le> j \<and> j < 8 * n \<and> \<not> get_bitmap_bit bytes j}"
proof (induction n)
  case 0 then show ?case by simp
next
  case (Suc n)
  have "card {j. 0 + 8 * n \<le> j \<and> j < 8 + 8 * n \<and> \<not> get_bitmap_bit bytes j} =
      card {j. 0 \<le> j \<and> j < 8 \<and> \<not> get_bitmap_bit bytes (j + 8 * n)}"
    by (rule card_shift)
  also have "\<dots> = zeroes (bytes ! n)"
    by (rule zeroes_card [symmetric, THEN trans [rotated]]) (rule arg_cong [of _ _ card],
      auto simp: get_bitmap_bit_iff)
  finally have "zeroes (bytes ! n) = card {j. 8 * n \<le> j \<and> j < 8 * Suc n \<and> \<not> get_bitmap_bit bytes j}"
    by simp
  then show ?case
    using Suc card_bits_add [of 0 "8 * n" "8 * Suc n" "\<lambda>j. \<not> get_bitmap_bit bytes j"]
    by (simp add: take_Suc_conv_app_nth)
qed

lemma count_zeros_loop_eq:
  assumes wf: "wf_alloc sb sp" and "bytes \<le> fuel"
    and "block * allocsize (metadata sb) + bytes \<le> bitmap_blocks (asi sb sp) * allocsize (metadata sb)"
  shows "count_zeros_loop fuel sb (bitmap_base (asi sb sp)) bytes block count =
    count + zeros_between sb sp (8 * (block * allocsize (metadata sb))) (8 * (block * allocsize (metadata sb) + bytes))"
  using assms(2-)
proof (induction fuel arbitrary: bytes block count)
  case 0 then show ?case by (simp add: zeros_between_def)
next
  case (Suc fuel)
  let ?A = "allocsize (metadata sb)" and ?n = "min (allocsize (metadata sb)) bytes"
  note sz = shift_allocsize [OF wf]
  have A: "0 < ?A" using wf by (simp add: wf_alloc_def)
  show ?case
  proof (cases "bytes = 0")
    case True then show ?thesis by (simp add: zeros_between_def)
  next
    case False
    have "block * ?A < bitmap_blocks (asi sb sp) * ?A" using Suc.prems(2) False by linarith
    then have bl: "block < bitmap_blocks (asi sb sp)" using A by simp
    then obtain bs where b: "bread sb (bitmap_base (asi sb sp) + block * 2 ^ chunk_sectors_bits (metadata sb)) = Some (BitmapB bs)"
      "view sb (bitmap_base (asi sb sp) + block * 2 ^ chunk_sectors_bits (metadata sb)) = BitmapB bs" "length bs = ?A"
      using wf bitmap_ok_bread unfolding wf_alloc_def by metis
    have used: "chunk_used sb sp (j + 8 * (block * ?A)) = get_bitmap_bit bs j" if "j < 8 * ?A" for j
    proof -
      have "(j + 8 * (block * ?A)) div 2 ^ bitmap_shift sb = block" "(j + 8 * (block * ?A)) mod 2 ^ bitmap_shift sb = j"
        using that by (simp_all add: sz mult.left_commute)
      then show ?thesis by (simp add: chunk_used_def bitmap_sector_def b(2))
    qed
    have "sum_list (map zeroes (take ?n bs)) = card {j. 0 \<le> j \<and> j < 8 * ?n \<and> \<not> get_bitmap_bit bs j}"
      by (rule sum_zeroes) (simp add: b(3))
    also have "\<dots> = card {j. 0 \<le> j \<and> j < 8 * ?n \<and> \<not> chunk_used sb sp (j + 8 * (block * ?A))}"
      by (rule arg_cong [of _ _ card]) (use used in auto)
    also have "\<dots> = zeros_between sb sp (8 * (block * ?A)) (8 * (block * ?A + ?n))"
      using card_shift [of 0 "8 * (block * ?A)" "8 * ?n" "\<lambda>c. \<not> chunk_used sb sp c"]
      by (simp add: zeros_between_def algebra_simps)
    finally have s: "sum_list (map zeroes (take ?n bs)) =
        zeros_between sb sp (8 * (block * ?A)) (8 * (block * ?A + ?n))" .
    have step: "count_zeros_loop (Suc fuel) sb (bitmap_base (asi sb sp)) bytes block count =
        count_zeros_loop fuel sb (bitmap_base (asi sb sp)) (bytes - ?n) (block + 1)
          (count + zeros_between sb sp (8 * (block * ?A)) (8 * (block * ?A + ?n)))"
      unfolding s [symmetric] using False by (simp add: b(1) Let_def)
    show ?thesis
    proof (cases "bytes \<le> ?A")
      case True
      then have n: "?n = bytes" by simp
      have z: "count_zeros_loop f sb base 0 bl c = c" for f base bl c by (cases f) simp_all
      show ?thesis unfolding step n by (simp add: z)
    next
      case False
      then have n: "?n = ?A" by simp
      have "count_zeros_loop fuel sb (bitmap_base (asi sb sp)) (bytes - ?A) (block + 1) c =
          c + zeros_between sb sp (8 * ((block + 1) * ?A)) (8 * ((block + 1) * ?A + (bytes - ?A)))" for c
        using Suc.prems False A by (intro Suc.IH) auto
      moreover have "(block + 1) * ?A + (bytes - ?A) = block * ?A + bytes" "(block + 1) * ?A = block * ?A + ?A"
        using False by simp_all
      ultimately show ?thesis
        using card_bits_add [of "8 * (block * ?A)" "8 * (block * ?A + ?A)" "8 * (block * ?A + bytes)"
            "\<lambda>c. \<not> chunk_used sb sp c"] False
        unfolding step n by (simp add: zeros_between_def add.commute)
    qed
  qed
qed

lemma count_zeros_eq:
  assumes wf: "wf_alloc sb sp"
  shows "count_zeros sb sp = card {c. c < chunks (asi sb sp) \<and> \<not> chunk_used sb sp c}"
proof -
  let ?A = "allocsize (metadata sb)" and ?n = "(chunks (asi sb sp) + 7) div 8"
  have "chunks (asi sb sp) \<le> 8 * (bitmap_blocks (asi sb sp) * ?A)"
    using wf unfolding wf_alloc_def shift_allocsize [OF wf] by linarith
  then have "0 * ?A + ?n \<le> bitmap_blocks (asi sb sp) * ?A" by simp
  from count_zeros_loop_eq [OF wf order_refl this, of 0]
  have "count_zeros sb sp = zeros_between sb sp 0 (8 * ?n)" by (simp add: count_zeros_def Let_def)
  also have "\<dots> = card {c. c < chunks (asi sb sp) \<and> \<not> chunk_used sb sp c}"
    unfolding zeros_between_def
  proof (intro arg_cong [of _ _ card] Collect_cong)
    fix c show "0 \<le> c \<and> c < 8 * ?n \<and> \<not> chunk_used sb sp c \<longleftrightarrow> c < chunks (asi sb sp) \<and> \<not> chunk_used sb sp c"
      using wf by (auto simp: wf_alloc_def not_less [symmetric])
  qed
  finally show ?thesis .
qed

section \<open>The allocator contract\<close>

text \<open>
  The counter of free chunks agrees with the bitmap and the deferred
  allocations.
\<close>

definition counted :: "'a superblock_scheme \<Rightarrow> space \<Rightarrow> bool" where
  "counted sb sp \<longleftrightarrow> wf_alloc sb sp \<and>
     freechunks (asi sb sp) = card {c. c < chunks (asi sb sp) \<and> \<not> in_use sb sp c}"

definition used_chunks :: "space \<Rightarrow> 'a superblock_scheme \<Rightarrow> chunk_t set" where
  "used_chunks sp sb = {c. c < chunks (asi sb sp) \<and> in_use sb sp c}"

interpretation bitmap_allocator: chunk_allocator "\<lambda>sb. counted sb sp" "used_chunks sp"
  "\<lambda>sb. chunks (asi sb sp)" "\<lambda>sb. freechunks (asi sb sp)" "alloc_chunk sp" for sp
proof
  fix sb :: "'a superblock_scheme"
  assume inv: "counted sb sp"
  then have wf: "wf_alloc sb sp" by (simp add: counted_def)
  have diff: "{..<chunks (asi sb sp)} - used_chunks sp sb = {c. c < chunks (asi sb sp) \<and> \<not> in_use sb sp c}"
    by (auto simp: used_chunks_def)
  show "freechunks (asi sb sp) = card ({..<chunks (asi sb sp)} - used_chunks sp sb)"
    using inv by (simp add: counted_def diff)
  fix sb'
  show "sb' = sb \<and> {..<chunks (asi sb sp)} \<subseteq> used_chunks sp sb" if "alloc_chunk sp sb = (None, sb')"
    using alloc_chunk_None [OF wf that] by (auto simp: used_chunks_def)
  fix c
  assume run: "alloc_chunk sp sb = (Some c, sb')"
  note a = alloc_chunk_Some [OF wf run]
  have ch: "chunks (asi sb' sp) = chunks (asi sb sp)" using erase_imgD(2) [OF alloc_frameD(10) [OF a(4)]] .
  have less: "x < 2 ^ 64" if "x < chunks (asi sb sp)" for x using that wf by (auto simp: wf_alloc_def)
  have "{x. x < chunks (asi sb sp) \<and> \<not> in_use sb sp x} =
      insert c {x. x < chunks (asi sb sp) \<and> \<not> in_use sb' sp x}" (is "?A = insert c ?B")
    using a(1,2) a(5) [OF less] by auto
  moreover have "c \<notin> ?B" using a(5) [OF less [OF a(1)]] by simp
  ultimately have card: "card ?A = Suc (card ?B)" by (simp add: card_insert_if)
  have "freechunks (asi sb sp) = card ?A" using inv by (simp add: counted_def)
  moreover have "card ?A \<le> chunks (asi sb sp)"
    using card_mono [of "{..<chunks (asi sb sp)}" ?A] by auto
  ultimately have "freechunks (asi sb' sp) = card ?B"
    using a(7) card less wf by (simp add: u64_sub_eq wf_alloc_def)
  then have "counted sb' sp" using a(3) by (simp add: counted_def ch)
  then show "c < chunks (asi sb sp) \<and> c \<notin> used_chunks sp sb \<and>
      used_chunks sp sb' = insert c (used_chunks sp sb) \<and> counted sb' sp \<and> chunks (asi sb' sp) = chunks (asi sb sp)"
    using a(1,2) a(5) [OF less] by (auto simp: used_chunks_def ch)
qed

end
