(* ===== verification/Journal.thy ===== *)
theory Journal
  imports Alloc_Lemmas
begin

text \<open>
  The metadata journal: \<open>commit_transaction\<close> writes the dirty blocks and a
  commit block to the journal before it lets them go to their places, and
  \<open>replay_journal\<close> reads the journal back when the server starts.

  The code uses the two lists of buffers as work lists; a loop that removes
  the first element until the list is empty is a fold over the list.  Writes
  succeed.
\<close>

section \<open>Journal blocks\<close>

definition journal_sector :: "'a superblock_scheme \<Rightarrow> nat \<Rightarrow> sector_t" where
  "journal_sector sb i = journal_base (image sb) + i * 2 ^ chunk_sectors_bits (metadata sb)"

definition next_journal_block :: "'a superblock_scheme \<Rightarrow> nat \<times> 'a superblock_scheme" where
  "next_journal_block sb =
     (let next = journal_next (image sb);
          next' = (if next + 1 = journal_size (image sb) then 0 else next + 1)
      in (next, sb\<lparr>image := (image sb)\<lparr>journal_next := next'\<rparr>\<rparr>))"

text \<open>
  A commit block as the sequence of its 32 bit words: the magic, the checksum,
  the sequence number, the number of entries, the two free counts, the deferred
  range and the sector addresses.
\<close>

definition words_of_u64 :: "nat \<Rightarrow> u32 list" where
  "words_of_u64 x = [word_of_nat x, word_of_nat (x div 2 ^ 32)]"

definition commit_words :: "commit_block \<Rightarrow> u32 list" where
  "commit_words c =
     [0x4947414d, 0x4d554e43, cb_checksum c, cb_sequence c, word_of_nat (length (cb_sector c))] @
     words_of_u64 (cb_snapfree c) @ words_of_u64 (cb_metafree c) @
     words_of_u64 (range_chunk (cb_alloc c)) @
     [(if range_barrier (cb_alloc c) then 1 else 0) OR push_bit 1 (word_of_nat (range_count (cb_alloc c))), 0] @
     concat (map words_of_u64 (cb_sector c))"

definition checksum_block :: "'a superblock_scheme \<Rightarrow> u32 list \<Rightarrow> u32" where
  "checksum_block sb data = sum_list (take (allocsize_bits (asi sb Meta) div 4) data)"

section \<open>Committing\<close>

definition flush_journaled_buffers :: "'a superblock_scheme \<Rightarrow> 'a superblock_scheme" where
  "flush_journaled_buffers sb =
     fold (\<lambda>b sb. set_buffer_uptodate b (write_buffer_to b b sb)) (journaled_buffers sb) sb"

definition journal_data :: "sector_t \<Rightarrow> 'a superblock_scheme \<Rightarrow> 'a superblock_scheme" where
  "journal_data buffer sb =
     (let (pos, sb) = next_journal_block sb in write_buffer_to buffer (journal_sector sb pos) sb)"

text \<open>
  The checksum is taken before the free counts and the deferred range are
  filled in.
\<close>

definition make_commit :: "bool \<Rightarrow> 'a superblock_scheme \<Rightarrow> commit_block" where
  "make_commit barrier sb =
     (let none = \<lparr>range_chunk = 0, range_barrier = False, range_count = 0\<rparr>;
          commit = \<lparr>cb_checksum = 0, cb_sequence = sequence (image sb), cb_snapfree = 0, cb_metafree = 0,
                    cb_alloc = none, cb_sector = dirty_buffers sb\<rparr>;
          commit = commit\<lparr>cb_checksum := - checksum_block sb (commit_words commit)\<rparr>;
          alloc = (if range_count (defer_range sb) \<noteq> 0
                   then none\<lparr>range_chunk := range_chunk (defer_range sb), range_count := range_count (defer_range sb)\<rparr>
                   else none)
      in commit\<lparr>cb_snapfree := snapfree sb, cb_metafree := metafree sb, cb_alloc := alloc\<lparr>range_barrier := barrier\<rparr>\<rparr>)"

definition note_deferred :: "'a superblock_scheme \<Rightarrow> 'a superblock_scheme" where
  "note_deferred sb =
     (if range_count (defer_range sb) \<noteq> 0
      then sb\<lparr>deferred_alloc := deferred_alloc sb @ [(defer_range sb)\<lparr>range_barrier := False\<rparr>],
              defer_range := (defer_range sb)\<lparr>range_count := 0\<rparr>\<rparr>
      else sb)"

text \<open>The transaction as far as the commit block on the device.\<close>

definition write_commit :: "bool \<Rightarrow> 'a superblock_scheme \<Rightarrow> 'a superblock_scheme" where
  "write_commit barrier sb =
     (let sb = fold journal_data (dirty_buffers sb) sb;
          (pos, sb) = next_journal_block sb;
          commit = make_commit barrier sb;
          sb = sb\<lparr>image := (image sb)\<lparr>sequence := sequence (image sb) + 1\<rparr>\<rparr>;
          sb = note_deferred sb
      in sb\<lparr>disk := (disk sb)(journal_sector sb pos := CommitB commit)\<rparr>)"

definition journal_full :: "'a superblock_scheme \<Rightarrow> bool" where
  "journal_full sb \<longleftrightarrow>
     length (deferred_alloc sb) \<ge> journal_size (image sb) div 2 \<or>
     length (journaled_buffers sb) \<ge> journal_size (image sb) div 2"

definition commit_transaction :: "bool \<Rightarrow> 'a superblock_scheme \<Rightarrow> 'a superblock_scheme" where
  "commit_transaction barrier sb =
     (if dirty_buffers sb = [] \<and> range_count (defer_range sb) = 0 then sb
      else
        (let (sb, barrier) =
               (if journal_full sb then (flush_deferred_allocs (flush_journaled_buffers sb), True)
                else (sb, barrier));
             sb = write_commit barrier sb;
             sb = (if deferring sb \<and> \<not> barrier then fold add_buffer_journaled (dirty_buffers sb) sb
                   else fold write_buffer (dirty_buffers sb) sb)
         in selfcheck_freespace sb))"

definition commit_deferred_allocs :: "'a superblock_scheme \<Rightarrow> 'a superblock_scheme" where
  "commit_deferred_allocs sb =
     (let sb = commit_transaction False sb;
          sb = flush_deferred_allocs sb;
          sb = flush_journaled_buffers sb
      in commit_transaction True sb)"

definition MAX_BTREE_DIRTY :: int where [simp]: "MAX_BTREE_DIRTY = 10"

text \<open>
  \<open>dirty_buffer_count_check\<close> commits when the transaction leaves too little of
  the journal for one more operation on the tree.  (Beyond the size of the
  journal the code aborts.)
\<close>

definition dirty_buffer_count_check :: "'a superblock_scheme \<Rightarrow> 'a superblock_scheme" where
  "dirty_buffer_count_check sb =
     (if int (length (dirty_buffers sb)) \<ge> int (journal_size (image sb)) - MAX_BTREE_DIRTY
      then commit_transaction False sb else sb)"

section \<open>Replay\<close>

datatype replay_error = Block_read_failed | Corrupt_journal_block | Unexpected_gap | Data_marked_as_commit
  | No_newest_commit

definition jread :: "'a superblock_scheme \<Rightarrow> nat \<Rightarrow> block option" where
  "jread sb i = bread sb (journal_sector sb i)"

definition jblock :: "'a superblock_scheme \<Rightarrow> nat \<Rightarrow> block" where
  "jblock sb i = view sb (journal_sector sb i)"

text \<open>The scan for commit blocks: their positions in the journal, or the first error.\<close>

fun scan_journal :: "'a superblock_scheme \<Rightarrow> nat list \<Rightarrow> replay_error + nat list" where
  "scan_journal sb [] = Inr []"
| "scan_journal sb (i # is) =
     (case jread sb i of
        None \<Rightarrow> Inl Block_read_failed
      | Some b \<Rightarrow>
          if is_commit_block b then
            if checksum_block sb (commit_words (buf2commit b)) \<noteq> 0 then Inl Corrupt_journal_block
            else (case scan_journal sb is of Inl e \<Rightarrow> Inl e | Inr pos \<Rightarrow> Inr (i # pos))
          else scan_journal sb is)"

text \<open>
  The newest commit is the one whose successor does not have the next sequence
  number; there must be only one.  With no commit at all, or no gap, the code
  goes on with an index that is not valid.
\<close>

definition find_newest :: "u32 list \<Rightarrow> replay_error + nat" where
  "find_newest seq =
     (case filter (\<lambda>i. seq ! ((i + 1) mod length seq) \<noteq> seq ! i + 1) [0..<length seq] of
        [] \<Rightarrow> Inl No_newest_commit
      | [i] \<Rightarrow> Inr i
      | _ \<Rightarrow> Inl Unexpected_gap)"

text \<open>The indices a loop visits that starts at \<open>from\<close>, wraps at \<open>n\<close> and ends with \<open>to\<close>.\<close>

definition cyclic :: "nat \<Rightarrow> nat \<Rightarrow> nat \<Rightarrow> nat list" where
  "cyclic n from to =
     (let from = (if from = n then 0 else from)
      in if from \<le> to then [from..<to + 1] else [from..<n] @ [0..<to + 1])"

definition pickup_deferred :: "(nat \<Rightarrow> commit_block) \<Rightarrow> nat list \<Rightarrow> alloc_range list \<Rightarrow>
    alloc_range list \<times> nat option" where
  "pickup_deferred commit is ds =
     fold (\<lambda>i (ds, barrier).
        (let alloc = cb_alloc (commit i);
             (ds, barrier) = (if range_barrier alloc then ([], Some i) else (ds, barrier))
         in (if range_count alloc \<noteq> 0 then ds @ [alloc\<lparr>range_barrier := False\<rparr>] else ds, barrier)))
       is (ds, None)"

text \<open>
  The data blocks of the commit with index \<open>i\<close> precede it in the journal.  The
  code writes each of them to \<open>sector[i]\<close>, where \<open>i\<close> is the index of the
  commit; beyond the entries of the commit block that word is zero.
\<close>

definition replay_target :: "commit_block \<Rightarrow> nat \<Rightarrow> sector_t" where
  "replay_target commit i = (if i < length (cb_sector commit) then cb_sector commit ! i else 0)"

definition replay_position :: "nat \<Rightarrow> nat \<Rightarrow> nat \<Rightarrow> nat \<Rightarrow> nat" where
  "replay_position jblocks pos entries j = (pos + jblocks - entries + j) mod jblocks"

fun replay_entries :: "nat list \<Rightarrow> nat \<Rightarrow> nat \<Rightarrow> nat \<Rightarrow> sector_t \<Rightarrow> 'a superblock_scheme \<Rightarrow>
    replay_error + 'a superblock_scheme" where
  "replay_entries [] jblocks pos entries target sb = Inr sb"
| "replay_entries (j # js) jblocks pos entries target sb =
     (let replay = replay_position jblocks pos entries j
      in if is_commit_block (jblock sb replay) then Inl Data_marked_as_commit
         else replay_entries js jblocks pos entries target
                (write_buffer_to (journal_sector sb replay) target sb))"

fun replay_commits :: "nat list \<Rightarrow> nat list \<Rightarrow> 'a superblock_scheme \<Rightarrow> replay_error + 'a superblock_scheme" where
  "replay_commits pos [] sb = Inr sb"
| "replay_commits pos (i # is) sb =
     (let commit = buf2commit (jblock sb (pos ! i));
          entries = length (cb_sector commit)
      in case replay_entries [0..<entries] (journal_size (image sb)) (pos ! i) entries (replay_target commit i) sb of
           Inl e \<Rightarrow> Inl e
         | Inr sb \<Rightarrow> replay_commits pos is sb)"

definition recover_state :: "nat \<Rightarrow> commit_block \<Rightarrow> 'a superblock_scheme \<Rightarrow> 'a superblock_scheme" where
  "recover_state pos commit sb =
     (let jblocks = journal_size (image sb);
          img = image sb
      in sb\<lparr>image := img\<lparr>journal_next := (pos + 1 + jblocks) mod jblocks,
                         sequence := cb_sequence commit + 1,
                         img_snapdata := (img_snapdata img)\<lparr>freechunks := cb_snapfree commit\<rparr>,
                         img_metadata := (img_metadata img)\<lparr>freechunks := cb_metafree commit\<rparr>\<rparr>\<rparr>)"

definition replay_journal :: "'a superblock_scheme \<Rightarrow> replay_error + 'a superblock_scheme" where
  "replay_journal sb =
     (case scan_journal sb [0..<journal_size (image sb)] of
        Inl e \<Rightarrow> Inl e
      | Inr pos \<Rightarrow>
          (case find_newest (map (\<lambda>i. cb_sequence (buf2commit (jblock sb i))) pos) of
             Inl e \<Rightarrow> Inl e
           | Inr newest \<Rightarrow>
               (let commits = length pos;
                    commit = (\<lambda>i. buf2commit (jblock sb (pos ! i)));
                    (ds, barrier) = pickup_deferred commit (cyclic commits (newest + 1) newest) (deferred_alloc sb);
                    start = (case barrier of None \<Rightarrow> newest | Some b \<Rightarrow> if b = newest then newest else b + 1);
                    sb = sb\<lparr>deferred_alloc := ds\<rparr>
                in case replay_commits pos (cyclic commits start newest) sb of
                     Inl e \<Rightarrow> Inl e
                   | Inr sb \<Rightarrow>
                       Inr (check_freespace
                              (recover_state (pos ! newest) (buf2commit (jblock sb (pos ! newest))) sb)))))"

end
