(* ===== verification/Journal_Lemmas.thy ===== *)
theory Journal_Lemmas
  imports Journal
begin

text \<open>
  What a commit guarantees: before a metadata block is overwritten in its place
  the journal holds its new contents and a commit block that lists it, and
  after the commit the device holds everything.
\<close>

section \<open>Writing to the journal\<close>

definition journal_area :: "'a superblock_scheme \<Rightarrow> sector_t set" where
  "journal_area sb = journal_sector sb ` {..<journal_size (image sb)}"

text \<open>What writing to the journal leaves alone: everything but the device and the position.\<close>

definition jerase :: "'a superblock_scheme \<Rightarrow> 'a superblock_scheme" where
  "jerase sb = sb\<lparr>disk := (\<lambda>_. RawB), image := (image sb)\<lparr>journal_next := 0\<rparr>\<rparr>"

definition journal_frame :: "'a superblock_scheme \<Rightarrow> 'a superblock_scheme \<Rightarrow> bool" where
  "journal_frame sb sb' \<longleftrightarrow> jerase sb' = jerase sb"

lemma journal_frame_refl [simp]: "journal_frame sb sb"
  by (simp add: journal_frame_def)

lemma journal_frame_trans [trans]: "journal_frame a b \<Longrightarrow> journal_frame b c \<Longrightarrow> journal_frame a c"
  by (simp add: journal_frame_def)

lemma journal_frame_simps:
  assumes "journal_frame sb sb'"
  shows "cache sb' = cache sb" "dirty_buffers sb' = dirty_buffers sb" "journaled_buffers sb' = journaled_buffers sb"
    "metadata sb' = metadata sb" "journal_size (image sb') = journal_size (image sb)"
    "journal_base (image sb') = journal_base (image sb)" "journal_sector sb' = journal_sector sb"
    "sequence (image sb') = sequence (image sb)" "runflags sb' = runflags sb"
    "deferred_alloc sb' = deferred_alloc sb" "defer_range sb' = defer_range sb"
    "img_snapdata (image sb') = img_snapdata (image sb)" "img_metadata (image sb') = img_metadata (image sb)"
    "bad_sector sb' = bad_sector sb" "snapdata sb' = snapdata sb"
proof -
  have e: "jerase sb' = jerase sb" using assms by (simp add: journal_frame_def)
  note c = arg_cong [OF e]
  show "cache sb' = cache sb" using c [of cache] by (simp add: jerase_def)
  show "dirty_buffers sb' = dirty_buffers sb" using c [of dirty_buffers] by (simp add: jerase_def)
  show "journaled_buffers sb' = journaled_buffers sb" using c [of journaled_buffers] by (simp add: jerase_def)
  show m: "metadata sb' = metadata sb" using c [of metadata] by (simp add: jerase_def)
  show "snapdata sb' = snapdata sb" using c [of snapdata] by (simp add: jerase_def)
  show "journal_size (image sb') = journal_size (image sb)" using c [of "\<lambda>s. journal_size (image s)"] by (simp add: jerase_def)
  show b: "journal_base (image sb') = journal_base (image sb)" using c [of "\<lambda>s. journal_base (image s)"] by (simp add: jerase_def)
  show "journal_sector sb' = journal_sector sb" by (rule ext) (simp add: journal_sector_def m b)
  show "sequence (image sb') = sequence (image sb)" using c [of "\<lambda>s. sequence (image s)"] by (simp add: jerase_def)
  show "runflags sb' = runflags sb" using c [of runflags] by (simp add: jerase_def)
  show "deferred_alloc sb' = deferred_alloc sb" using c [of deferred_alloc] by (simp add: jerase_def)
  show "defer_range sb' = defer_range sb" using c [of defer_range] by (simp add: jerase_def)
  show "img_snapdata (image sb') = img_snapdata (image sb)" using c [of "\<lambda>s. img_snapdata (image s)"] by (simp add: jerase_def)
  show "img_metadata (image sb') = img_metadata (image sb)" using c [of "\<lambda>s. img_metadata (image s)"] by (simp add: jerase_def)
  show "bad_sector sb' = bad_sector sb" using c [of bad_sector] by (simp add: jerase_def)
qed

lemma next_journal_block_frame: "journal_frame sb (snd (next_journal_block sb))"
  by (simp add: journal_frame_def jerase_def next_journal_block_def Let_def)

lemma journal_data_frame: "journal_frame sb (journal_data b sb)"
  by (simp add: journal_frame_def jerase_def journal_data_def next_journal_block_def write_buffer_to_def Let_def)

lemma fold_journal_data_frame: "journal_frame sb (fold journal_data bs sb)"
  by (induction bs arbitrary: sb) (auto intro: journal_frame_trans [OF journal_data_frame])

lemma journal_sector_inj: "journal_sector sb i = journal_sector sb j \<longleftrightarrow> i = j"
  by (simp add: journal_sector_def)

lemma journal_data_step:
  assumes "journal_next (image sb) < journal_size (image sb)"
  shows "journal_next (image (journal_data b sb)) = (journal_next (image sb) + 1) mod journal_size (image sb)"
    "disk (journal_data b sb) = (disk sb)(journal_sector sb (journal_next (image sb)) := view sb b)"
proof -
  have v: "view (sb\<lparr>image := i\<rparr>) b = view sb b" for i by (simp add: view_def split: option.split)
  show "journal_next (image (journal_data b sb)) = (journal_next (image sb) + 1) mod journal_size (image sb)"
    using assms by (auto simp: journal_data_def next_journal_block_def write_buffer_to_def Let_def)
  show "disk (journal_data b sb) = (disk sb)(journal_sector sb (journal_next (image sb)) := view sb b)"
    by (simp add: journal_data_def next_journal_block_def write_buffer_to_def Let_def v journal_sector_def)
qed

text \<open>
  The blocks of a transaction lie one after the other in the journal, with
  wrap-around, provided the transaction is not larger than the journal.
\<close>

lemma view_cached: "cache s a = Some b \<Longrightarrow> view s a = b"
  by (simp add: view_def)

lemma mod_window_le:
  assumes "(a + i) mod n = (a + j) mod n" "i < n" "j \<le> (i :: nat)"
  shows "i = j"
proof -
  have "n dvd (a + i) - (a + j)" using assms(1,3) mod_eq_dvd_iff_nat [of "a + j" "a + i" n] by simp
  then have "n dvd i - j" by simp
  then show ?thesis using assms(2,3) by (auto dest: dvd_imp_le)
qed

lemma mod_inj_window:
  assumes "(a + i) mod n = (a + j) mod n" "i < n" "j < (n :: nat)"
  shows "i = j"
proof (cases "j \<le> i")
  case True then show ?thesis by (rule mod_window_le [OF assms(1,2)])
next
  case False then show ?thesis using mod_window_le [OF assms(1) [symmetric] assms(3)] by simp
qed

lemma view_frame: "journal_frame sb sb' \<Longrightarrow> cache sb b \<noteq> None \<Longrightarrow> view sb' b = view sb b"
  by (auto simp: view_def journal_frame_simps(1))

lemma journal_data_next:
  assumes "journal_next (image sb) < journal_size (image sb)"
  shows "journal_next (image (fold journal_data bs sb)) =
    (journal_next (image sb) + length bs) mod journal_size (image sb)"
proof (induction bs rule: rev_induct)
  case Nil show ?case using assms by simp
next
  case (snoc b bs)
  let ?s = "fold journal_data bs sb"
  have sz: "journal_size (image ?s) = journal_size (image sb)"
    by (rule journal_frame_simps(5) [OF fold_journal_data_frame])
  have "journal_next (image ?s) < journal_size (image ?s)" unfolding snoc sz using assms by simp
  from journal_data_step(1) [OF this, of b] show ?case by (simp add: snoc sz mod_Suc_eq)
qed

lemma journal_data_disk:
  assumes nx: "journal_next (image sb) < journal_size (image sb)" and ca: "\<forall>b\<in>set bs. cache sb b \<noteq> None"
  shows "(length bs \<le> journal_size (image sb) \<longrightarrow> (\<forall>k<length bs.
       disk (fold journal_data bs sb) (journal_sector sb ((journal_next (image sb) + k) mod journal_size (image sb))) =
         view sb (bs ! k))) \<and>
    (\<forall>x. x \<notin> journal_area sb \<longrightarrow> disk (fold journal_data bs sb) x = disk sb x)"
  using ca
proof (induction bs rule: rev_induct)
  case Nil show ?case by simp
next
  case (snoc b bs)
  let ?s = "fold journal_data bs sb" and ?n = "journal_size (image sb)" and ?a = "journal_next (image sb)"
  note fr = fold_journal_data_frame [of sb bs]
  have js: "journal_sector ?s = journal_sector sb" and sz: "journal_size (image ?s) = ?n"
    using journal_frame_simps(5,7) [OF fr] by auto
  have nxt: "journal_next (image ?s) = (?a + length bs) mod ?n" by (rule journal_data_next [OF nx])
  then have "journal_next (image ?s) < journal_size (image ?s)" using nx sz by simp
  from journal_data_step(2) [OF this, of b]
  have d: "disk (fold journal_data (bs @ [b]) sb) = (disk ?s)(journal_sector sb ((?a + length bs) mod ?n) := view sb b)"
    using view_frame [OF fr, of b] snoc.prems by (simp add: js nxt)
  have area: "journal_sector sb ((?a + length bs) mod ?n) \<in> journal_area sb"
    using nx by (auto simp: journal_area_def)
  have IH: "length bs \<le> ?n \<Longrightarrow> k < length bs \<Longrightarrow> disk ?s (journal_sector sb ((?a + k) mod ?n)) = view sb (bs ! k)"
    "x \<notin> journal_area sb \<Longrightarrow> disk ?s x = disk sb x" for k x
    using snoc by auto
  have "disk (fold journal_data (bs @ [b]) sb) (journal_sector sb ((?a + k) mod ?n)) = view sb ((bs @ [b]) ! k)"
    if "length (bs @ [b]) \<le> ?n" "k < length (bs @ [b])" for k
  proof (cases "k = length bs")
    case True then show ?thesis unfolding d by simp
  next
    case False
    with that have "k < length bs" by simp
    moreover have "(?a + k) mod ?n \<noteq> (?a + length bs) mod ?n"
      using mod_inj_window [of ?a k ?n "length bs"] that False by auto
    ultimately show ?thesis unfolding d using IH(1) that(1) by (simp add: journal_sector_inj nth_append)
  qed
  moreover have "disk (fold journal_data (bs @ [b]) sb) x = disk sb x" if "x \<notin> journal_area sb" for x
    unfolding d using that area IH(2) [OF that] by auto
  ultimately show ?case by blast
qed

section \<open>The commit block\<close>

text \<open>
  The state at the moment the commit block has been written: only the device
  has changed, inside the journal, besides the bookkeeping of the journal.
\<close>

lemma write_commit_disk:
  assumes wf: "wf_store sb" and nx: "journal_next (image sb) < journal_size (image sb)"
    and len: "length (dirty_buffers sb) < journal_size (image sb)"
  shows "k < length (dirty_buffers sb) \<Longrightarrow>
      disk (write_commit barrier sb) (journal_sector sb ((journal_next (image sb) + k) mod journal_size (image sb))) =
        view sb (dirty_buffers sb ! k)"
    "disk (write_commit barrier sb)
       (journal_sector sb ((journal_next (image sb) + length (dirty_buffers sb)) mod journal_size (image sb))) =
       CommitB (make_commit barrier sb)"
    "x \<notin> journal_area sb \<Longrightarrow> disk (write_commit barrier sb) x = disk sb x"
    "cache (write_commit barrier sb) = cache sb" "dirty_buffers (write_commit barrier sb) = dirty_buffers sb"
    "journaled_buffers (write_commit barrier sb) = journaled_buffers sb"
    "runflags (write_commit barrier sb) = runflags sb"
proof -
  let ?s = "fold journal_data (dirty_buffers sb) sb"
  let ?n = "journal_size (image sb)" and ?a = "journal_next (image sb)" and ?l = "length (dirty_buffers sb)"
  note fr = fold_journal_data_frame [of sb "dirty_buffers sb"]
  have fr2: "journal_frame sb (snd (next_journal_block ?s))"
    by (rule journal_frame_trans [OF fr next_journal_block_frame])
  note f2 = journal_frame_simps [OF fr2]
  have pos: "fst (next_journal_block ?s) = (?a + ?l) mod ?n"
    using journal_data_next [OF nx, of "dirty_buffers sb"] by (simp add: next_journal_block_def Let_def)
  have mk: "make_commit barrier (snd (next_journal_block ?s)) = make_commit barrier sb"
  proof -
    have "asi (snd (next_journal_block ?s)) Meta = asi sb Meta"
      by (cases "as_asi (metadata sb)") (simp_all add: asi_def f2)
    then show ?thesis
      by (simp add: make_commit_def Let_def f2 checksum_block_def snapfree_def metafree_def)
  qed
  have eq: "write_commit barrier sb = (let s = snd (next_journal_block ?s);
      s' = note_deferred (s\<lparr>image := (image s)\<lparr>sequence := sequence (image s) + 1\<rparr>\<rparr>)
      in s'\<lparr>disk := (disk s')(journal_sector s' ((?a + ?l) mod ?n) := CommitB (make_commit barrier sb))\<rparr>)"
    by (simp add: write_commit_def Let_def split_beta pos mk)
  have nd: "disk (note_deferred t) = disk t" "journal_sector (note_deferred t) = journal_sector t"
    "cache (note_deferred t) = cache t" "dirty_buffers (note_deferred t) = dirty_buffers t"
    "journaled_buffers (note_deferred t) = journaled_buffers t" "runflags (note_deferred t) = runflags t"
    for t :: "'a superblock_scheme"
    by (simp_all add: note_deferred_def journal_sector_def [abs_def])
  have dk: "disk (snd (next_journal_block ?s)) = disk ?s" by (simp add: next_journal_block_def Let_def)
  have js: "journal_sector (snd (next_journal_block ?s)\<lparr>image := (image (snd (next_journal_block ?s)))\<lparr>sequence := q\<rparr>\<rparr>) =
      journal_sector sb" for q
    by (rule ext) (simp add: journal_sector_def f2)
  have D: "disk (write_commit barrier sb) = (disk ?s)(journal_sector sb ((?a + ?l) mod ?n) := CommitB (make_commit barrier sb))"
    by (simp add: eq Let_def nd js dk)
  have ca: "\<forall>b\<in>set (dirty_buffers sb). cache sb b \<noteq> None" using wf by (auto simp: wf_store_def)
  note jd = journal_data_disk [OF nx ca]
  show "disk (write_commit barrier sb) (journal_sector sb ((?a + k) mod ?n)) = view sb (dirty_buffers sb ! k)"
    if "k < ?l"
    using mod_inj_window [of ?a k ?n ?l] that len jd by (auto simp: D journal_sector_inj)
  show "disk (write_commit barrier sb) (journal_sector sb ((?a + ?l) mod ?n)) = CommitB (make_commit barrier sb)"
    by (simp add: D)
  have "journal_sector sb ((?a + ?l) mod ?n) \<in> journal_area sb" using nx by (auto simp: journal_area_def)
  then show "disk (write_commit barrier sb) x = disk sb x" if "x \<notin> journal_area sb" using that jd by (auto simp: D)
  show "cache (write_commit barrier sb) = cache sb" "dirty_buffers (write_commit barrier sb) = dirty_buffers sb"
    "journaled_buffers (write_commit barrier sb) = journaled_buffers sb"
    "runflags (write_commit barrier sb) = runflags sb"
    by (simp_all add: eq Let_def nd f2)
qed

section \<open>The blocks go to their places\<close>

lemma fold_write_buffer:
  "disk (fold write_buffer bs sb) x = (if x \<in> set bs then view sb x else disk sb x)"
  "cache (fold write_buffer bs sb) = cache sb"
  "dirty_buffers (fold write_buffer bs sb) = fold remove1 bs (dirty_buffers sb)"
  "view (fold write_buffer bs sb) = view sb"
proof (induction bs arbitrary: sb)
  case (Cons b bs)
  have w: "disk (write_buffer b sb) = (disk sb)(b := view sb b)" "cache (write_buffer b sb) = cache sb"
    "dirty_buffers (write_buffer b sb) = remove1 b (dirty_buffers sb)" for sb :: "'a store_scheme"
    by (simp_all add: write_buffer_def write_buffer_to_def set_buffer_uptodate_def)
  case 1 show ?case using Cons.IH(1) [of "write_buffer b sb"] by (auto simp: w)
  case 2 show ?case using Cons.IH(2) [of "write_buffer b sb"] by (simp add: w)
  case 3 show ?case using Cons.IH(3) [of "write_buffer b sb"] by (simp add: w)
  case 4 show ?case using Cons.IH(4) [of "write_buffer b sb"] by simp
qed simp_all

lemma fold_remove1_self [simp]: "fold remove1 xs xs = []"
proof -
  have "fold remove1 xs (xs @ ys) = ys" for ys by (induction xs) auto
  from this [of "[]"] show ?thesis by simp
qed

lemma upd_asi_store [simp]:
  "disk (upd_asi f sp sb) = disk sb" "cache (upd_asi f sp sb) = cache sb"
  "dirty_buffers (upd_asi f sp sb) = dirty_buffers sb" "journaled_buffers (upd_asi f sp sb) = journaled_buffers sb"
  by (simp_all add: upd_asi_def)

lemma selfcheck_store [simp]:
  "disk (selfcheck_freespace sb) = disk sb" "cache (selfcheck_freespace sb) = cache sb"
  "dirty_buffers (selfcheck_freespace sb) = dirty_buffers sb" "view (selfcheck_freespace sb) = view sb"
  by (simp_all add: selfcheck_freespace_def check_freespace_def Let_def)

lemma commit_writes_back:
  assumes wf: "wf_store sb" and sync: "\<not> deferring sb" "journaled_buffers sb = []" "deferred_alloc sb = []"
    and size: "2 \<le> journal_size (image sb)" "journal_next (image sb) < journal_size (image sb)"
      "length (dirty_buffers sb) < journal_size (image sb)"
    and area: "set (dirty_buffers sb) \<inter> journal_area sb = {}" and x: "x \<notin> journal_area sb"
  shows "dirty_buffers (commit_transaction barrier sb) = []"
    "disk (commit_transaction barrier sb) x = view sb x" "view (commit_transaction barrier sb) x = view sb x"
proof -
  let ?w = "write_commit barrier sb" and ?d = "dirty_buffers sb"
  have clean: "x \<notin> set ?d \<Longrightarrow> disk sb x = view sb x"
    using wf sync(2) by (auto simp: wf_store_def view_def split: option.split)
  note wc = write_commit_disk [OF wf size(2,3)]
  have vw: "view ?w y = view sb y" if "y \<notin> journal_area sb" for y
    by (auto simp: view_def wc(4) wc(3) [OF that] split: option.split)
  show "dirty_buffers (commit_transaction barrier sb) = []"
    "disk (commit_transaction barrier sb) x = view sb x" "view (commit_transaction barrier sb) x = view sb x"
    using sync size(1) clean vw [OF x] wc(3) [OF x]
    by (auto simp: commit_transaction_def journal_full_def Let_def deferring_def wc fold_write_buffer)
qed

section \<open>Checksums\<close>

text \<open>
  The checksum adds up \<open>allocsize_bits / 4\<close> words.  With blocks of 4096 bytes
  up to 8M these are three to five words, all of them final when the checksum
  is taken.
\<close>

lemma take_commit_words:
  "n \<le> 5 \<Longrightarrow> take n (commit_words c) =
     take n [0x4947414d, 0x4d554e43, cb_checksum c, cb_sequence c, word_of_nat (length (cb_sector c))]"
  unfolding commit_words_def take_append [of _ "[_, _, _, _, _]"] by simp

lemma commit_checksum_ok:
  assumes "12 \<le> allocsize_bits (asi sb Meta)" "allocsize_bits (asi sb Meta) < 24"
  shows "checksum_block sb (commit_words (make_commit barrier sb)) = 0"
proof -
  let ?n = "allocsize_bits (asi sb Meta) div 4"
  have n: "?n = 3 \<or> ?n = 4 \<or> ?n = 5" using assms by auto
  then show ?thesis
    by (elim disjE) (simp_all add: checksum_block_def take_commit_words make_commit_def Let_def)
qed

text \<open>With smaller blocks the checksum word itself is not part of the sum.\<close>

lemma small_block_checksum_fails:
  assumes "8 \<le> allocsize_bits (asi sb Meta)" "allocsize_bits (asi sb Meta) < 12"
  shows "checksum_block sb (commit_words c) \<noteq> 0"
proof -
  have n: "allocsize_bits (asi sb Meta) div 4 = 2" using assms by simp
  show ?thesis unfolding checksum_block_def n by (simp add: commit_words_def)
qed

section \<open>Replay\<close>

lemma filter_unique:
  assumes "distinct xs" "x \<in> set xs" "\<And>y. y \<in> set xs \<Longrightarrow> P y \<longleftrightarrow> y = x"
  shows "filter P xs = [x]"
proof -
  have "set (filter P xs) = {x}" using assms(2,3) by auto
  moreover have "distinct (filter P xs)" using assms(1) by simp
  ultimately show ?thesis by (metis distinct_length_2_or_more distinct_singleton empty_set insert_not_empty
      list.exhaust list.set_intros(1) list.set_intros(2) singletonD)
qed

text \<open>
  In a journal whose commits carry consecutive sequence numbers, from the
  oldest to the newest with wrap-around at the end of the journal, the gap is
  found behind the newest.
\<close>

lemma find_newest_consecutive:
  fixes s :: u32
  assumes n: "length seq = n" "newest < n" "n < 2 ^ 32"
    and seq: "\<And>k. k < n \<Longrightarrow> seq ! ((newest + 1 + k) mod n) = s + word_of_nat k"
  shows "find_newest seq = Inr newest"
proof -
  have gap: "seq ! ((i + 1) mod n) \<noteq> seq ! i + 1 \<longleftrightarrow> i = newest" if i: "i < n" for i
  proof -
    define k where "k = (i + n - (newest + 1)) mod n"
    have kn: "k < n" using n by (simp add: k_def)
    have "(newest + 1 + k) mod n = (newest + 1 + (i + n - (newest + 1))) mod n"
      unfolding k_def by (rule mod_add_right_eq)
    also have "\<dots> = (i + n) mod n" using n by simp
    finally have ik: "(newest + 1 + k) mod n = i" using i by simp
    have seqi: "seq ! i = s + word_of_nat k" using seq [OF kn] ik by simp
    show ?thesis
    proof (cases "k + 1 < n")
      case True
      have "(i + 1) mod n = (newest + 1 + (k + 1)) mod n"
        using ik by (metis add.assoc mod_add_left_eq)
      then have "seq ! ((i + 1) mod n) = seq ! i + 1" using seq [OF True] seqi by (simp add: add.assoc)
      moreover have "i \<noteq> newest"
      proof
        assume "i = newest"
        then have "(newest + (k + 1)) mod n = (newest + 0) mod n" using ik n by simp
        from mod_inj_window [OF this True] n show False by simp
      qed
      ultimately show ?thesis by simp
    next
      case False
      then have k: "k = n - 1" using kn by simp
      then have "newest = i" using ik n by simp
      moreover have "seq ! ((i + 1) mod n) \<noteq> seq ! i + 1"
      proof
        assume eq: "seq ! ((i + 1) mod n) = seq ! i + 1"
        have "seq ! ((i + 1) mod n) = s" using seq [of 0] n \<open>newest = i\<close> by simp
        then have "s = s + (word_of_nat (n - 1) + 1)" using eq seqi k by (simp add: add.assoc)
        then have "(word_of_nat (n - 1) + 1 :: u32) = 0" by simp
        then have "(word_of_nat n :: u32) = 0" using n by (metis Suc_pred' less_nat_zero_code not_gr_zero of_nat_Suc add.commute)
        then have "n mod 2 ^ 32 = 0" by (simp add: word_of_nat_eq_0_iff dvd_eq_mod_eq_0)
        then show False using n by simp
      qed
      ultimately show ?thesis by simp
    qed
  qed
  have "filter (\<lambda>i. seq ! ((i + 1) mod length seq) \<noteq> seq ! i + 1) [0..<length seq] = [newest]"
    by (rule filter_unique) (use n gap in auto)
  then show ?thesis by (simp add: find_newest_def)
qed

text \<open>Replaying a commit changes the device at one sector only.\<close>

lemma replay_entries_target:
  "replay_entries js jblocks pos entries target sb = Inr sb' \<Longrightarrow> x \<noteq> target \<Longrightarrow> disk sb' x = disk sb x"
proof (induction js jblocks pos entries target sb rule: replay_entries.induct)
  case (2 j js jblocks pos entries target sb)
  from 2(2) have step: "replay_entries js jblocks pos entries target
      (write_buffer_to (journal_sector sb (replay_position jblocks pos entries j)) target sb) = Inr sb'"
    and nc: "\<not> is_commit_block (jblock sb (replay_position jblocks pos entries j))"
    by (auto simp: Let_def split: if_splits)
  from 2(1) [OF refl nc step 2(3)] show ?case using 2(3) by (simp add: write_buffer_to_def)
qed simp

end
