(* ===== verification/Journal_Correct.thy ===== *)
theory Journal_Correct
  imports Journal_Lemmas
begin

text \<open>
  The properties of the journal.  \<open>demo_sb\<close> is a small combined store with a
  journal of four blocks that has been initialised, and two dirty blocks at
  sectors 1000 and 1008.
\<close>

definition demo_img :: allocspace_img where
  "demo_img = \<lparr>bitmap_base = 16, chunks = 0, freechunks = 0, last_alloc = 0, bitmap_blocks = 1, allocsize_bits = 12\<rparr>"

definition demo_commit :: "u32 \<Rightarrow> commit_block" where
  "demo_commit q = \<lparr>cb_checksum = 0x69637070, cb_sequence = q, cb_snapfree = 0, cb_metafree = 0,
     cb_alloc = \<lparr>range_chunk = 0, range_barrier = False, range_count = 0\<rparr>, cb_sector = []\<rparr>"

definition demo_sb :: superblock where
  "demo_sb = \<lparr>disk = (\<lambda>x. if x = 24 then CommitB (demo_commit 0) else if x = 32 then CommitB (demo_commit 1)
                         else if x = 40 then CommitB (demo_commit 2) else if x = 48 then CommitB (demo_commit 3)
                         else RawB),
     cache = [1000 \<mapsto> BitmapB [1], 1008 \<mapsto> BitmapB [2]], dirty_buffers = [1000, 1008], journaled_buffers = [],
     bad_sector = (\<lambda>_. False),
     image = \<lparr>magic = SB_MAGIC, create_time = 0, etree_root = 0, orgoffset = 0, orgsectors = 0, sb_flags = 0,
       deleting = 0, snaplist = [], etree_levels = 1, journal_base = 24, journal_next = 0, journal_size = 4,
       sequence = 4, img_metadata = demo_img, img_snapdata = demo_img\<rparr>,
     super_disk = \<lparr>magic = SB_MAGIC, create_time = 0, etree_root = 0, orgoffset = 0, orgsectors = 0, sb_flags = 0,
       deleting = 0, snaplist = [], etree_levels = 1, journal_base = 24, journal_next = 0, journal_size = 4,
       sequence = 4, img_metadata = demo_img, img_snapdata = demo_img\<rparr>,
     metadata = \<lparr>as_asi = Meta, allocsize = 4096, chunk_sectors_bits = 3, alloc_per_node = 255\<rparr>,
     snapdata = \<lparr>as_asi = Meta, allocsize = 4096, chunk_sectors_bits = 3, alloc_per_node = 0\<rparr>,
     snapmask = 0, runflags = 0, copybuf_size = 131072, max_commit_blocks = 506, sb_usecount = (\<lambda>_. 0),
     deferred_alloc = [], defer_range = \<lparr>range_chunk = 0, range_barrier = False, range_count = 0\<rparr>\<rparr>"


lemma demo_sb_journal:
  "journal_next (image demo_sb) = 0" "journal_size (image demo_sb) = 4" "dirty_buffers demo_sb = [1000, 1008]"
  "journal_sector demo_sb i = 24 + 8 * i" "view demo_sb 1000 = BitmapB [1]" "view demo_sb 1008 = BitmapB [2]"
  by (simp_all add: demo_sb_def journal_sector_def view_def)








text \<open>
  C23: the newest commit.  When the commits in the journal carry consecutive
  sequence numbers in cyclic order (modulo \<open>2 ^ 32\<close>), the replay finds the last
  one of them, wherever the journal has wrapped.
\<close>

theorem find_newest_correct:
  fixes s :: u32
  assumes "length seq = n" "newest < n" "n < 2 ^ 32"
    and "\<forall>k<n. seq ! ((newest + 1 + k) mod n) = s + word_of_nat k"
  shows "find_newest seq = Inr newest"
  by (rule find_newest_consecutive [OF assms(1-3)]) (use assms(4) in blast)

theorem find_newest_correct_witness: "find_newest [0xffffffff, 0, 1, 0xfffffffd, 0xfffffffe] = Inr 2"
proof -
  let ?seq = "[0xffffffff, 0, 1, 0xfffffffd, 0xfffffffe] :: u32 list"
  have "\<forall>k<5. ?seq ! ((2 + 1 + k) mod 5) = 0xfffffffd + word_of_nat k"
  proof (intro allI impI)
    fix k :: nat assume "k < 5"
    then consider "k = 0" | "k = 1" | "k = 2" | "k = 3" | "k = 4" by linarith
    then show "?seq ! ((2 + 1 + k) mod 5) = 0xfffffffd + word_of_nat k" by cases simp_all
  qed
  from find_newest_correct [of ?seq 5 2 "0xfffffffd", OF _ _ _ this] show ?thesis by simp
qed

text \<open>
  C24: the replay writes to the wrong place.  Whatever commit is replayed, only
  the one sector \<open>sector[i]\<close>, with \<open>i\<close> the index of the commit among the
  commits of the journal, is changed; all other blocks the commit lists keep
  their old contents.
\<close>

theorem replay_changes_one_sector:
  assumes "replay_commits pos [i] sb = Inr sb'"
    and "x \<noteq> replay_target (buf2commit (jblock sb (pos ! i))) i"
  shows "disk sb' x = disk sb x"
  using assms replay_entries_target by (auto simp: Let_def split: sum.splits)

definition crashed :: superblock where
  "crashed = (write_commit False demo_sb)\<lparr>cache := Map.empty, dirty_buffers := []\<rparr>"

lemma crashed_replay:
  "case replay_commits [2, 3] [0] crashed of Inl e \<Rightarrow> False | Inr sb' \<Rightarrow>
     (case disk sb' 1000 of BitmapB bytes \<Rightarrow> bytes = [2] | _ \<Rightarrow> False)"
  "replay_target (buf2commit (jblock crashed 2)) 0 = 1000"
  "case disk crashed 1008 of RawB \<Rightarrow> True | _ \<Rightarrow> False"
  by code_simp+

theorem replay_changes_one_sector_witness:
  "\<exists>sb'. replay_commits [2, 3] [0] crashed = Inr sb' \<and> disk sb' 1000 = view demo_sb 1008 \<and>
     disk sb' 1008 \<noteq> view demo_sb 1008"
proof -
  from crashed_replay(1) obtain sb' where run: "replay_commits [2, 3] [0] crashed = Inr sb'"
    and d: "disk sb' 1000 = BitmapB [2]" by (auto split: sum.splits block.splits)
  have raw: "disk crashed 1008 = RawB" using crashed_replay(3) by (auto split: block.splits)
  have "1008 \<noteq> replay_target (buf2commit (jblock crashed ([2, 3] ! 0))) 0" by (simp add: crashed_replay(2))
  from replay_changes_one_sector [OF run this] have "disk sb' 1008 = RawB" by (simp add: raw)
  with run d show ?thesis by (simp add: demo_sb_journal)
qed

end
