(* ===== verification/Alloc_Correct.thy ===== *)
theory Alloc_Correct
  imports Journal
begin

text \<open>
  The properties of the chunk allocator.  \<open>small_sb\<close> is a store with blocks of
  eight bytes, so that one bitmap block describes 64 chunks; the metadata space
  has 20 chunks of which the first nine are taken, the snapshot data space has
  12 free chunks.
\<close>

definition small_img :: "sector_t \<Rightarrow> nat \<Rightarrow> nat \<Rightarrow> allocspace_img" where
  "small_img base n free = \<lparr>bitmap_base = base, chunks = n, freechunks = free, last_alloc = 0, bitmap_blocks = 1,
     allocsize_bits = 3\<rparr>"

definition small_super :: disksuper where
  "small_super = \<lparr>magic = SB_MAGIC, create_time = 0, etree_root = 0, orgoffset = 0, orgsectors = 0, sb_flags = 0,
     deleting = 0, snaplist = [], etree_levels = 1, journal_base = 24, journal_next = 0, journal_size = 4,
     sequence = 4, img_metadata = small_img 4 20 11, img_snapdata = small_img 5 12 12\<rparr>"

definition small_sb :: "u32 \<Rightarrow> superblock" where
  "small_sb flags = \<lparr>disk = (\<lambda>x. if x = 4 then BitmapB [0xff, 0x01, 0xf0, 0, 0, 0, 0, 0]
                                 else if x = 5 then BitmapB [0, 0xf0, 0, 0, 0, 0, 0, 0] else RawB),
     cache = (\<lambda>_. None), dirty_buffers = [], journaled_buffers = [], bad_sector = (\<lambda>_. False),
     image = small_super, super_disk = small_super,
     metadata = \<lparr>as_asi = Meta, allocsize = 8, chunk_sectors_bits = 0, alloc_per_node = 4\<rparr>,
     snapdata = \<lparr>as_asi = Snap, allocsize = 8, chunk_sectors_bits = 0, alloc_per_node = 0\<rparr>,
     snapmask = 0, runflags = flags, copybuf_size = 256, max_commit_blocks = 0, sb_usecount = (\<lambda>_. 0),
     deferred_alloc = [], defer_range = \<lparr>range_chunk = 0, range_barrier = False, range_count = 0\<rparr>\<rparr>"

lemma small_sb_wf: "wf_alloc (small_sb 0) Meta" "wf_alloc (small_sb 0) Snap" "wf_alloc (small_sb RUN_DEFER) Snap"
  by code_simp+

lemma small_sb_free: "{c. c < 20 \<and> \<not> in_use (small_sb 0) Meta c} = {9..<20}"
proof -
  have "\<forall>c<20. in_use (small_sb 0) Meta c = (c < 9)" by code_simp
  then show ?thesis by auto
qed

lemma small_sb_counted: "counted (small_sb 0) Meta"
proof -
  have "chunks (asi (small_sb 0) Meta) = 20" "freechunks (asi (small_sb 0) Meta) = 11" by code_simp+
  with small_sb_free small_sb_wf(1) show ?thesis by (simp add: counted_def)
qed

section \<open>Allocation\<close>

text \<open>
  C25: an allocation returns a chunk of the space that was neither marked in
  the bitmap nor deferred; afterwards exactly this chunk is in use in addition,
  the counter of free chunks has gone down by one and the bitmap is still well
  formed.  The allocation fails only if every chunk of the space is in use, and
  then it changes nothing.
\<close>

theorem alloc_chunk_correct:
  assumes "wf_alloc sb sp"
  shows "case alloc_chunk sp sb of
      (Some c, sb') \<Rightarrow> c < chunks (asi sb sp) \<and> \<not> in_use sb sp c \<and>
        (\<forall>x<chunks (asi sb sp). in_use sb' sp x = (in_use sb sp x \<or> x = c)) \<and>
        freechunks (asi sb' sp) = u64_sub (freechunks (asi sb sp)) 1 \<and> wf_alloc sb' sp
    | (None, sb') \<Rightarrow> sb' = sb \<and> (\<forall>x<chunks (asi sb sp). in_use sb sp x)"
proof (cases "alloc_chunk sp sb")
  case (Pair r sb')
  have less: "x < 2 ^ 64" if "x < chunks (asi sb sp)" for x using assms that by (simp add: wf_alloc_def)
  show ?thesis
  proof (cases r)
    case None
    with Pair show ?thesis using alloc_chunk_None [OF assms, of sb'] by simp
  next
    case (Some c)
    with Pair have run: "alloc_chunk sp sb = (Some c, sb')" by simp
    show ?thesis unfolding run using alloc_chunk_Some [OF assms run] less by simp
  qed
qed

theorem alloc_chunk_correct_witness:
  "fst (alloc_chunk Meta (small_sb 0)) = Some 9 \<and>
   (case alloc_chunk Meta (small_sb 0) of
      (Some c, sb') \<Rightarrow> c < chunks (asi (small_sb 0) Meta) \<and> \<not> in_use (small_sb 0) Meta c \<and>
        (\<forall>x<chunks (asi (small_sb 0) Meta). in_use sb' Meta x = (in_use (small_sb 0) Meta x \<or> x = c)) \<and>
        freechunks (asi sb' Meta) = u64_sub (freechunks (asi (small_sb 0) Meta)) 1 \<and> wf_alloc sb' Meta
    | (None, sb') \<Rightarrow> sb' = small_sb 0 \<and> (\<forall>x<chunks (asi (small_sb 0) Meta). in_use (small_sb 0) Meta x))"
proof
  show "fst (alloc_chunk Meta (small_sb 0)) = Some 9" by code_simp
qed (rule alloc_chunk_correct [OF small_sb_wf(1)])

text \<open>
  C26: if the counter agrees with the bitmap, a series of allocations no longer
  than the counter allows never fails: it yields that many distinct chunks,
  none of which was in use.
\<close>

theorem allocations_succeed:
  assumes "counted sb sp" "n \<le> freechunks (asi sb sp)"
  shows "\<exists>cs sb'. bitmap_allocator.alloc_many sp n sb = (cs, sb') \<and> length cs = n \<and> distinct cs \<and>
    set cs \<inter> used_chunks sp sb = {} \<and> set cs \<subseteq> {..<chunks (asi sb sp)} \<and>
    used_chunks sp sb' = used_chunks sp sb \<union> set cs \<and> freechunks (asi sb' sp) = freechunks (asi sb sp) - n \<and>
    counted sb' sp"
  by (rule bitmap_allocator.alloc_many_distinct [OF assms])

theorem allocations_succeed_witness:
  "\<exists>cs sb'. bitmap_allocator.alloc_many Meta 11 (small_sb 0) = (cs, sb') \<and> length cs = 11 \<and> distinct cs \<and>
    set cs \<inter> used_chunks Meta (small_sb 0) = {} \<and> set cs \<subseteq> {..<chunks (asi (small_sb 0) Meta)} \<and>
    used_chunks Meta sb' = used_chunks Meta (small_sb 0) \<union> set cs \<and>
    freechunks (asi sb' Meta) = freechunks (asi (small_sb 0) Meta) - 11 \<and> counted sb' Meta"
  by (rule allocations_succeed [OF small_sb_counted]) code_simp










section \<open>Deferred allocation in separate spaces\<close>


end
