(* ===== verification/Locks.thy ===== *)
theory Locks
  imports Prelude
begin

text \<open>
  The locks that keep an origin write waiting while snapshot clients read the
  chunk from the origin: a hash table of locks, each with the clients that hold
  it and the writes that wait for it.  A waiting write is a \<open>pending\<close>
  structure; the hold count counts the entries of wait lists that point to it,
  plus one while the write request is still being processed.

  A client is named by its socket, a pending structure by a number (its
  address).  \<open>sent\<close> is the sequence of the replies the server has sent.
\<close>

record 'm pending =
  holdcount :: nat
  pd_reply :: "(nat \<times> 'm) option"

record snaplock =
  waitlist :: "nat list"
  holdlist :: "nat list"
  lock_chunk :: chunk_t

record 'm lockstate =
  snaplock_hash_bits :: nat
  snaplocks :: "nat \<Rightarrow> snaplock list"
  pendings :: "nat \<Rightarrow> 'm pending option"
  next_pending :: nat
  sent :: "(nat \<times> 'm) list"

section \<open>Operations\<close>

definition snaplock_hash :: "'m lockstate \<Rightarrow> chunk_t \<Rightarrow> nat" where
  "snaplock_hash ls chunk = (chunk * 3498734713) mod 2 ^ 32 div 2 ^ (32 - snaplock_hash_bits ls)"

definition find_snaplock :: "snaplock list \<Rightarrow> chunk_t \<Rightarrow> snaplock option" where
  "find_snaplock chain chunk = find (\<lambda>l. lock_chunk l = chunk) chain"

text \<open>An assignment to the lock that \<open>find_snaplock\<close> finds.\<close>

fun upd_snaplock :: "chunk_t \<Rightarrow> (snaplock \<Rightarrow> snaplock) \<Rightarrow> snaplock list \<Rightarrow> snaplock list" where
  "upd_snaplock chunk f [] = []"
| "upd_snaplock chunk f (l # ls) = (if lock_chunk l = chunk then f l # ls else l # upd_snaplock chunk f ls)"

abbreviation bucket :: "'m lockstate \<Rightarrow> chunk_t \<Rightarrow> snaplock list" where
  "bucket ls chunk \<equiv> snaplocks ls (snaplock_hash ls chunk)"

definition set_bucket :: "chunk_t \<Rightarrow> snaplock list \<Rightarrow> 'm lockstate \<Rightarrow> 'm lockstate" where
  "set_bucket chunk chain ls = ls\<lparr>snaplocks := (snaplocks ls)(snaplock_hash ls chunk := chain)\<rparr>"

definition reply :: "nat \<Rightarrow> 'm \<Rightarrow> 'm lockstate \<Rightarrow> 'm lockstate" where
  "reply sock message ls = ls\<lparr>sent := sent ls @ [(sock, message)]\<rparr>"

definition new_pending :: "'m lockstate \<Rightarrow> nat \<times> 'm lockstate" where
  "new_pending ls =
     (next_pending ls,
      ls\<lparr>pendings := (pendings ls)(next_pending ls \<mapsto> \<lparr>holdcount = 1, pd_reply = None\<rparr>),
         next_pending := next_pending ls + 1\<rparr>)"

definition upd_pending :: "nat \<Rightarrow> ('m pending \<Rightarrow> 'm pending) \<Rightarrow> 'm lockstate \<Rightarrow> 'm lockstate" where
  "upd_pending p f ls = ls\<lparr>pendings := (pendings ls)(p := map_option f (pendings ls p))\<rparr>"

definition waitfor_chunk :: "chunk_t \<Rightarrow> nat option \<Rightarrow> 'm lockstate \<Rightarrow> nat option \<times> 'm lockstate" where
  "waitfor_chunk chunk pending ls =
     (case find_snaplock (bucket ls chunk) chunk of
        None \<Rightarrow> (pending, ls)
      | Some lock \<Rightarrow>
          (let (p, ls) = (case pending of None \<Rightarrow> new_pending ls | Some p \<Rightarrow> (p, ls));
               ls = set_bucket chunk (upd_snaplock chunk (\<lambda>l. l\<lparr>waitlist := p # waitlist l\<rparr>) (bucket ls chunk)) ls
           in (Some p, upd_pending p (\<lambda>d. d\<lparr>holdcount := holdcount d + 1\<rparr>) ls)))"

definition readlock_chunk :: "chunk_t \<Rightarrow> nat \<Rightarrow> 'm lockstate \<Rightarrow> 'm lockstate" where
  "readlock_chunk chunk client ls =
     (let chain = bucket ls chunk;
          chain = (case find_snaplock chain chunk of
                     None \<Rightarrow> \<lparr>waitlist = [], holdlist = [], lock_chunk = chunk\<rparr> # chain
                   | Some _ \<Rightarrow> chain)
      in set_bucket chunk (upd_snaplock chunk (\<lambda>l. l\<lparr>holdlist := client # holdlist l\<rparr>) chain) ls)"

text \<open>The waiters of a lock that goes away.\<close>

fun release_waiters :: "nat list \<Rightarrow> 'm lockstate \<Rightarrow> 'm lockstate" where
  "release_waiters [] ls = ls"
| "release_waiters (p # waits) ls =
     release_waiters waits
       (case pendings ls p of
          None \<Rightarrow> ls
        | Some d \<Rightarrow>
            if holdcount d - 1 = 0 then
              (let ls = ls\<lparr>pendings := (pendings ls)(p := None)\<rparr>
               in case pd_reply d of None \<Rightarrow> ls | Some (sock, message) \<Rightarrow> reply sock message ls)
            else upd_pending p (\<lambda>d. d\<lparr>holdcount := holdcount d - 1\<rparr>) ls)"

text \<open>
  \<open>release_lock\<close> gets the chain that starts with the lock and returns what the
  code stores in its place; the empty chain is the null pointer.
\<close>

definition release_lock :: "nat \<Rightarrow> snaplock \<Rightarrow> snaplock list \<Rightarrow> 'm lockstate \<Rightarrow> snaplock list \<times> 'm lockstate" where
  "release_lock client lock rest ls =
     (if client \<notin> set (holdlist lock) then ([], ls)
      else
        (let lock = lock\<lparr>holdlist := remove1 client (holdlist lock)\<rparr>
         in if holdlist lock \<noteq> [] then (lock # rest, ls)
            else (rest, release_waiters (waitlist lock) ls)))"

definition release_chunk :: "chunk_t \<Rightarrow> nat \<Rightarrow> 'm lockstate \<Rightarrow> int \<times> 'm lockstate" where
  "release_chunk chunk client ls =
     (let chain = bucket ls chunk;
          before = takeWhile (\<lambda>l. lock_chunk l \<noteq> chunk) chain
      in case dropWhile (\<lambda>l. lock_chunk l \<noteq> chunk) chain of
           [] \<Rightarrow> (-1, ls)
         | lock # rest \<Rightarrow>
             (let (next, ls) = release_lock client lock rest ls;
                  ls = set_bucket chunk (before @ next) ls
              in (if next = [] then -2 else 0, ls)))"

text \<open>
  \<open>client_locks\<close> with a false \<open>check\<close>: all holds of the client are released.
  A lock is looked at again as long as the client is one of its holders.
\<close>

definition lock_weight :: "snaplock list \<Rightarrow> nat" where
  "lock_weight chain = sum_list (map (\<lambda>l. Suc (length (holdlist l))) chain)"

lemma release_lock_weight:
  assumes "client \<in> set (holdlist lock)" "release_lock client lock rest ls = (next, ls')"
  shows "lock_weight next < lock_weight (lock # rest)"
proof -
  have "length (remove1 client (holdlist lock)) < length (holdlist lock)"
    using length_pos_if_in_set [OF assms(1)] by (simp add: length_remove1 assms(1))
  then show ?thesis
    using assms(2) by (auto simp: release_lock_def assms(1) Let_def lock_weight_def split: if_splits)
qed

function free_chain :: "nat \<Rightarrow> snaplock list \<Rightarrow> 'm lockstate \<Rightarrow> snaplock list \<times> 'm lockstate" where
  "free_chain client [] ls = ([], ls)"
| "free_chain client (lock # rest) ls =
     (if client \<in> set (holdlist lock) then
        (case release_lock client lock rest ls of (next, ls) \<Rightarrow> free_chain client next ls)
      else (case free_chain client rest ls of (chain, ls) \<Rightarrow> (lock # chain, ls)))"
  by pat_completeness auto
termination
  by (relation "measure (\<lambda>(client, chain, ls). lock_weight chain)")
    (auto dest!: sym [of "(_, _)" "release_lock _ _ _ _"] simp: release_lock_weight, simp add: lock_weight_def)

definition free_client_locks :: "nat \<Rightarrow> 'm lockstate \<Rightarrow> 'm lockstate" where
  "free_client_locks client ls =
     fold (\<lambda>i ls. case free_chain client (snaplocks ls i) ls of
                    (chain, ls) \<Rightarrow> ls\<lparr>snaplocks := (snaplocks ls)(i := chain)\<rparr>)
       [0..<2 ^ snaplock_hash_bits ls] ls"

definition check_client_locks :: "nat \<Rightarrow> 'm lockstate \<Rightarrow> bool" where
  "check_client_locks client ls \<longleftrightarrow>
     (\<exists>i\<in>set [0..<2 ^ snaplock_hash_bits ls]. \<exists>lock\<in>set (snaplocks ls i). client \<in> set (holdlist lock))"

end
