(* ===== verification/Locks_Lemmas.thy ===== *)
theory Locks_Lemmas
  imports Locks "HOL-Library.Multiset"
begin

text \<open>
  The lock table read as two functions of the chunk, the holders of its lock
  and the writes that wait for it, and the invariant that ties the hold count
  of a pending write to the wait lists it is on.
\<close>

section \<open>Chains\<close>

definition chain_waits :: "snaplock list \<Rightarrow> nat \<Rightarrow> nat" where
  "chain_waits chain p = count_list (concat (map waitlist chain)) p"

lemma chain_waits_simps [simp]:
  "chain_waits [] p = 0"
  "chain_waits (l # chain) p = count_list (waitlist l) p + chain_waits chain p"
  "chain_waits (xs @ ys) p = chain_waits xs p + chain_waits ys p"
  by (simp_all add: chain_waits_def count_list_append)

text \<open>The locks of a chain are for different chunks of its bucket, and each is held.\<close>

definition chain_ok :: "(chunk_t \<Rightarrow> nat) \<Rightarrow> nat \<Rightarrow> snaplock list \<Rightarrow> bool" where
  "chain_ok h i chain \<longleftrightarrow> distinct (map lock_chunk chain) \<and>
     (\<forall>l\<in>set chain. h (lock_chunk l) = i \<and> holdlist l \<noteq> [])"

definition chain_holders :: "snaplock list \<Rightarrow> chunk_t \<Rightarrow> nat list" where
  "chain_holders chain c = (case find_snaplock chain c of None \<Rightarrow> [] | Some l \<Rightarrow> holdlist l)"

definition chain_waiters :: "snaplock list \<Rightarrow> chunk_t \<Rightarrow> nat list" where
  "chain_waiters chain c = (case find_snaplock chain c of None \<Rightarrow> [] | Some l \<Rightarrow> waitlist l)"

lemma find_snaplock_simps [simp]:
  "find_snaplock [] c = None"
  "find_snaplock (l # chain) c = (if lock_chunk l = c then Some l else find_snaplock chain c)"
  by (simp_all add: find_snaplock_def)

lemma find_snaplock_None: "find_snaplock chain c = None \<longleftrightarrow> c \<notin> lock_chunk ` set chain"
  by (induction chain) auto

lemma find_snaplock_Some:
  "find_snaplock chain c = Some l \<Longrightarrow> l \<in> set chain \<and> lock_chunk l = c"
  by (induction chain) (auto split: if_splits)

lemma find_snaplock_mem:
  "distinct (map lock_chunk chain) \<Longrightarrow> l \<in> set chain \<Longrightarrow> find_snaplock chain (lock_chunk l) = Some l"
  by (induction chain) (auto simp: image_iff)

lemma find_upd_snaplock:
  "(\<And>l. lock_chunk (f l) = lock_chunk l) \<Longrightarrow> find_snaplock (upd_snaplock c f chain) c' =
     (if c' = c then map_option f (find_snaplock chain c) else find_snaplock chain c')"
  by (induction chain) auto

lemma upd_snaplock_chunks [simp]:
  "(\<And>l. lock_chunk (f l) = lock_chunk l) \<Longrightarrow> map lock_chunk (upd_snaplock c f chain) = map lock_chunk chain"
  by (induction chain) auto

lemma set_upd_snaplock: "l \<in> set (upd_snaplock c f chain) \<Longrightarrow> l \<in> set chain \<or> (\<exists>l'\<in>set chain. l = f l')"
  by (induction chain) (auto split: if_splits)

lemma chain_ok_upd:
  assumes "chain_ok h i chain" "\<And>l. lock_chunk (f l) = lock_chunk l" "\<And>l. holdlist l \<noteq> [] \<Longrightarrow> holdlist (f l) \<noteq> []"
  shows "chain_ok h i (upd_snaplock c f chain)"
  using assms by (auto simp: chain_ok_def dest!: set_upd_snaplock)

lemma chain_waits_upd_hold [simp]:
  "chain_waits (upd_snaplock c (\<lambda>l. l\<lparr>holdlist := g l\<rparr>) chain) p = chain_waits chain p"
  by (induction chain) auto

lemma chain_waits_upd_wait:
  "find_snaplock chain c \<noteq> None \<Longrightarrow>
   chain_waits (upd_snaplock c (\<lambda>l. l\<lparr>waitlist := q # waitlist l\<rparr>) chain) p =
     chain_waits chain p + (if p = q then 1 else 0)"
  by (induction chain) auto

text \<open>A chain with a lock for the chunk splits at this lock.\<close>

lemma chain_split:
  assumes "find_snaplock chain c = Some l"
  shows "chain = takeWhile (\<lambda>l. lock_chunk l \<noteq> c) chain @ dropWhile (\<lambda>l. lock_chunk l \<noteq> c) chain"
    "\<exists>rest. dropWhile (\<lambda>l. lock_chunk l \<noteq> c) chain = l # rest"
  using assms by (induction chain) (auto split: if_splits)

section \<open>The whole table\<close>

abbreviation hash_bins :: "'m lockstate \<Rightarrow> nat" where
  "hash_bins ls \<equiv> 2 ^ snaplock_hash_bits ls"

definition wait_count :: "'m lockstate \<Rightarrow> nat \<Rightarrow> nat" where
  "wait_count ls p = (\<Sum>i<hash_bins ls. chain_waits (snaplocks ls i) p)"

definition lock_holders :: "'m lockstate \<Rightarrow> chunk_t \<Rightarrow> nat list" where
  "lock_holders ls c = chain_holders (bucket ls c) c"

definition lock_waiters :: "'m lockstate \<Rightarrow> chunk_t \<Rightarrow> nat list" where
  "lock_waiters ls c = chain_waiters (bucket ls c) c"

lemma hash_less: "snaplock_hash_bits ls \<le> 32 \<Longrightarrow> snaplock_hash ls c < hash_bins ls"
proof -
  assume b: "snaplock_hash_bits ls \<le> 32"
  have "(2 :: nat) ^ 32 = hash_bins ls * 2 ^ (32 - snaplock_hash_bits ls)"
    using b by (simp flip: power_add)
  moreover have "(c * 3498734713) mod 2 ^ 32 < (2 :: nat) ^ 32" by simp
  ultimately show ?thesis unfolding snaplock_hash_def by (simp only: less_mult_imp_div_less)
qed

definition pend_ok :: "'m lockstate \<Rightarrow> (nat \<Rightarrow> nat) \<Rightarrow> bool" where
  "pend_ok ls f \<longleftrightarrow>
     (\<forall>p. pendings ls p = None \<longrightarrow> f p = 0) \<and>
     (\<forall>p d. pendings ls p = Some d \<longrightarrow>
        holdcount d = (if pd_reply d = None then Suc (f p) else f p) \<and> (pd_reply d \<noteq> None \<longrightarrow> 0 < f p)) \<and>
     (\<forall>p\<ge>next_pending ls. pendings ls p = None)"

definition table_ok :: "'m lockstate \<Rightarrow> bool" where
  "table_ok ls \<longleftrightarrow> snaplock_hash_bits ls \<le> 32 \<and>
     (\<forall>i. chain_ok (snaplock_hash ls) i (snaplocks ls i))"

definition lock_inv :: "'m lockstate \<Rightarrow> bool" where
  "lock_inv ls \<longleftrightarrow> table_ok ls \<and> pend_ok ls (wait_count ls)"

lemma set_bucket_simps [simp]:
  "pendings (set_bucket c chain ls) = pendings ls" "next_pending (set_bucket c chain ls) = next_pending ls"
  "sent (set_bucket c chain ls) = sent ls" "snaplock_hash_bits (set_bucket c chain ls) = snaplock_hash_bits ls"
  "snaplock_hash (set_bucket c chain ls) x = snaplock_hash ls x"
  "snaplocks (set_bucket c chain ls) = (snaplocks ls)(snaplock_hash ls c := chain)"
  by (simp_all add: set_bucket_def snaplock_hash_def)

lemma wait_count_bucket:
  assumes "i < hash_bins ls"
  shows "wait_count (ls\<lparr>snaplocks := (snaplocks ls)(i := chain)\<rparr>) p + chain_waits (snaplocks ls i) p =
    wait_count ls p + chain_waits chain p"
proof -
  have "(\<Sum>x\<in>{..<hash_bins ls} - {i}. chain_waits (if x = i then chain else snaplocks ls x) p) =
      (\<Sum>x\<in>{..<hash_bins ls} - {i}. chain_waits (snaplocks ls x) p)"
    by (rule sum.cong) auto
  then show ?thesis using assms unfolding wait_count_def by (simp add: sum.remove [of "{..<hash_bins ls}" i])
qed

lemma wait_count_set:
  "snaplock_hash_bits ls \<le> 32 \<Longrightarrow>
   wait_count (set_bucket c chain ls) p + chain_waits (bucket ls c) p = wait_count ls p + chain_waits chain p"
  unfolding set_bucket_def by (rule wait_count_bucket [OF hash_less])

lemma table_ok_set:
  assumes "table_ok ls" "chain_ok (snaplock_hash ls) (snaplock_hash ls c) chain"
  shows "table_ok (set_bucket c chain ls)"
proof -
  have "snaplock_hash (set_bucket c chain ls) = snaplock_hash ls" by (rule ext) simp
  with assms show ?thesis by (simp add: table_ok_def)
qed

lemma holders_set:
  "lock_holders (set_bucket c chain ls) x =
     (if snaplock_hash ls x = snaplock_hash ls c then chain_holders chain x else lock_holders ls x)"
  "lock_waiters (set_bucket c chain ls) x =
     (if snaplock_hash ls x = snaplock_hash ls c then chain_waiters chain x else lock_waiters ls x)"
  by (simp_all add: lock_holders_def lock_waiters_def)

section \<open>Locking\<close>

lemma readlock_simps [simp]:
  "pendings (readlock_chunk c k ls) = pendings ls" "next_pending (readlock_chunk c k ls) = next_pending ls"
  "sent (readlock_chunk c k ls) = sent ls" "snaplock_hash_bits (readlock_chunk c k ls) = snaplock_hash_bits ls"
  by (simp_all add: readlock_chunk_def Let_def)

lemma readlock_holders:
  "lock_holders (readlock_chunk c k ls) x = (if x = c then k # lock_holders ls c else lock_holders ls x)"
  "lock_waiters (readlock_chunk c k ls) x = lock_waiters ls x"
  by (auto simp: readlock_chunk_def Let_def holders_set chain_holders_def chain_waiters_def find_upd_snaplock
      lock_holders_def lock_waiters_def split: option.split)

lemma readlock_inv:
  assumes "lock_inv ls"
  shows "lock_inv (readlock_chunk c k ls)"
proof -
  have t: "table_ok ls" and p: "pend_ok ls (wait_count ls)" using assms by (auto simp: lock_inv_def)
  have b: "snaplock_hash_bits ls \<le> 32" using t by (simp add: table_ok_def)
  let ?new = "\<lparr>waitlist = [], holdlist = [], lock_chunk = c\<rparr>"
  let ?chain = "case find_snaplock (bucket ls c) c of None \<Rightarrow> ?new # bucket ls c | Some _ \<Rightarrow> bucket ls c"
  let ?chain' = "upd_snaplock c (\<lambda>l. l\<lparr>holdlist := k # holdlist l\<rparr>) ?chain"
  have e: "readlock_chunk c k ls = set_bucket c ?chain' ls" by (simp add: readlock_chunk_def Let_def)
  have ok: "chain_ok (snaplock_hash ls) (snaplock_hash ls c) (bucket ls c)" using t by (simp add: table_ok_def)
  have "chain_ok (snaplock_hash ls) (snaplock_hash ls c) ?chain'"
  proof (cases "find_snaplock (bucket ls c) c")
    case None
    then have "c \<notin> lock_chunk ` set (bucket ls c)" by (metis find_snaplock_None)
    moreover have "?chain' = \<lparr>waitlist = [], holdlist = [k], lock_chunk = c\<rparr> # bucket ls c" by (simp add: None)
    ultimately show ?thesis using ok by (simp add: chain_ok_def)
  next
    case Some then show ?thesis using chain_ok_upd [OF ok] by simp
  qed
  from table_ok_set [OF t this] have "table_ok (readlock_chunk c k ls)" by (simp only: e)
  moreover have "wait_count (readlock_chunk c k ls) p = wait_count ls p" for p
    using wait_count_set [OF b, of c ?chain' p] by (simp add: e split: option.splits)
  then have "pend_ok (readlock_chunk c k ls) (wait_count (readlock_chunk c k ls))"
    using p by (simp add: pend_ok_def)
  ultimately show ?thesis by (simp add: lock_inv_def)
qed

section \<open>Waiting\<close>

lemma upd_pending_simps [simp]:
  "snaplocks (upd_pending p f ls) = snaplocks ls" "next_pending (upd_pending p f ls) = next_pending ls"
  "sent (upd_pending p f ls) = sent ls" "snaplock_hash_bits (upd_pending p f ls) = snaplock_hash_bits ls"
  "snaplock_hash (upd_pending p f ls) c = snaplock_hash ls c"
  "pendings (upd_pending p f ls) = (pendings ls)(p := map_option f (pendings ls p))"
  by (simp_all add: upd_pending_def snaplock_hash_def)

text \<open>
  While a write request is processed its pending structure, if there is one,
  has no reply yet.
\<close>

definition open_write :: "'m lockstate \<Rightarrow> nat option \<Rightarrow> bool" where
  "open_write ls pending \<longleftrightarrow> (\<forall>p. (\<exists>d. pendings ls p = Some d \<and> pd_reply d = None) \<longleftrightarrow> pending = Some p)"

lemma table_ok_cong:
  assumes "table_ok ls" "snaplocks ls' = snaplocks ls" "snaplock_hash_bits ls' = snaplock_hash_bits ls"
  shows "table_ok ls'"
proof -
  have "snaplock_hash ls' = snaplock_hash ls" by (rule ext) (simp add: snaplock_hash_def assms(3))
  with assms show ?thesis by (simp add: table_ok_def)
qed

lemma new_pending_ok:
  assumes "pend_ok ls f" "open_write ls None" "new_pending ls = (q, ls1)"
  shows "pend_ok ls1 f" "open_write ls1 (Some q)"
    "pd_reply d \<noteq> None \<Longrightarrow> pendings ls1 p = Some d \<longleftrightarrow> pendings ls p = Some d"
proof -
  have q: "q = next_pending ls" "pendings ls1 = (pendings ls)(q \<mapsto> \<lparr>holdcount = 1, pd_reply = None\<rparr>)"
    "next_pending ls1 = next_pending ls + 1"
    using assms(3) by (auto simp: new_pending_def)
  have n: "pendings ls q = None" using assms(1) by (simp add: pend_ok_def q(1))
  have f: "f q = 0" using assms(1) n unfolding pend_ok_def by blast
  show "pend_ok ls1 f" using assms(1) f unfolding pend_ok_def q(2,3) by (auto simp: q(1))
  show "open_write ls1 (Some q)" using assms(2) by (auto simp: open_write_def q(2))
  show "pendings ls1 p = Some d \<longleftrightarrow> pendings ls p = Some d" if "pd_reply d \<noteq> None"
    using that n by (auto simp: q(2))
qed

lemma waitfor_inv:
  assumes inv: "lock_inv ls" and op: "open_write ls pending" and run: "waitfor_chunk c pending ls = (pending', ls')"
  shows "lock_inv ls'" "open_write ls' pending'"
    "lock_holders ls' x = lock_holders ls x"
    "lock_holders ls c \<noteq> [] \<Longrightarrow> \<exists>p. pending' = Some p \<and> p \<in> set (lock_waiters ls' c)"
    "p \<in> set (lock_waiters ls x) \<Longrightarrow> p \<in> set (lock_waiters ls' x)"
    "pending = Some p \<Longrightarrow> pending' = Some p"
    "sent ls' = sent ls"
    "pendings ls p = Some d \<Longrightarrow> pd_reply d \<noteq> None \<Longrightarrow> pendings ls' p = Some d"
    "next_pending ls \<le> next_pending ls'"
    "pendings ls' p = Some d \<Longrightarrow> pd_reply d \<noteq> None \<Longrightarrow> pendings ls p = Some d"
proof -
  have t: "table_ok ls" and pk: "pend_ok ls (wait_count ls)" using inv by (auto simp: lock_inv_def)
  have b: "snaplock_hash_bits ls \<le> 32" using t by (simp add: table_ok_def)
  have ok: "chain_ok (snaplock_hash ls) (snaplock_hash ls c) (bucket ls c)" using t by (simp add: table_ok_def)
  have "lock_inv ls' \<and> open_write ls' pending' \<and> (\<forall>x. lock_holders ls' x = lock_holders ls x) \<and>
    (lock_holders ls c \<noteq> [] \<longrightarrow> (\<exists>p. pending' = Some p \<and> p \<in> set (lock_waiters ls' c))) \<and>
    (\<forall>x p. p \<in> set (lock_waiters ls x) \<longrightarrow> p \<in> set (lock_waiters ls' x)) \<and>
    (\<forall>p. pending = Some p \<longrightarrow> pending' = Some p) \<and> sent ls' = sent ls \<and>
    (\<forall>p d. pendings ls p = Some d \<and> pd_reply d \<noteq> None \<longrightarrow> pendings ls' p = Some d) \<and>
    next_pending ls \<le> next_pending ls' \<and>
    (\<forall>p d. pendings ls' p = Some d \<and> pd_reply d \<noteq> None \<longrightarrow> pendings ls p = Some d)"
  proof (cases "find_snaplock (bucket ls c) c")
    case None
    then show ?thesis
      using run inv op by (auto simp: waitfor_chunk_def lock_holders_def chain_holders_def)
  next
    case (Some lock)
    obtain q ls1 where q: "(case pending of None \<Rightarrow> new_pending ls | Some p \<Rightarrow> (p, ls)) = (q, ls1)" by fastforce
    let ?chain = "upd_snaplock c (\<lambda>l. l\<lparr>waitlist := q # waitlist l\<rparr>) (bucket ls c)"
    have s1: "snaplocks ls1 = snaplocks ls" "snaplock_hash_bits ls1 = snaplock_hash_bits ls" "sent ls1 = sent ls"
      "next_pending ls \<le> next_pending ls1"
      using q by (auto simp: new_pending_def split: option.splits)
    have h1: "snaplock_hash ls1 = snaplock_hash ls" by (rule ext) (simp add: snaplock_hash_def s1)
    have r: "pending' = Some q" "ls' = upd_pending q (\<lambda>d. d\<lparr>holdcount := holdcount d + 1\<rparr>) (set_bucket c ?chain ls1)"
      using run by (auto simp: waitfor_chunk_def Some q s1 h1 Let_def)
    have wc1: "wait_count ls1 = wait_count ls" by (rule ext) (simp add: wait_count_def s1)
    have t1: "table_ok ls1" by (rule table_ok_cong [OF t s1(1,2)])
    have "chain_ok (snaplock_hash ls) (snaplock_hash ls c) ?chain" by (rule chain_ok_upd [OF ok]) auto
    then have "table_ok (set_bucket c ?chain ls1)" by (intro table_ok_set [OF t1]) (simp add: h1)
    then have t': "table_ok ls'" unfolding r by (rule table_ok_cong) simp_all
    have wc': "wait_count ls' p = wait_count ls p + (if p = q then 1 else 0)" for p
    proof -
      have "wait_count ls' p = wait_count (set_bucket c ?chain ls1) p" by (simp add: wait_count_def r)
      moreover have "wait_count (set_bucket c ?chain ls1) p + chain_waits (bucket ls c) p =
          wait_count ls p + chain_waits ?chain p"
        using wait_count_set [of ls1 c ?chain p] b by (simp add: s1 h1 wc1)
      ultimately show ?thesis using Some by (simp add: chain_waits_upd_wait)
    qed
    have pend1: "pend_ok ls1 (wait_count ls)" and op1: "open_write ls1 (Some q)"
      and old1: "\<forall>p d. pd_reply d \<noteq> None \<longrightarrow> (pendings ls1 p = Some d \<longleftrightarrow> pendings ls p = Some d)"
    proof -
      have "pend_ok ls1 (wait_count ls) \<and> open_write ls1 (Some q) \<and>
        (\<forall>p d. pd_reply d \<noteq> None \<longrightarrow> (pendings ls1 p = Some d \<longleftrightarrow> pendings ls p = Some d))"
      proof (cases pending)
        case None
        then have "new_pending ls = (q, ls1)" using q by simp
        from new_pending_ok [OF pk _ this] op None show ?thesis by blast
      next
        case (Some p)
        then show ?thesis using q pk op by (auto)
      qed
      then show "pend_ok ls1 (wait_count ls)" "open_write ls1 (Some q)"
        "\<forall>p d. pd_reply d \<noteq> None \<longrightarrow> (pendings ls1 p = Some d \<longleftrightarrow> pendings ls p = Some d)" by auto
    qed
    obtain d where d: "pendings ls1 q = Some d" "pd_reply d = None" using op1 by (auto simp: open_write_def)
    have ps: "pendings ls' = (pendings ls1)(q \<mapsto> d\<lparr>holdcount := holdcount d + 1\<rparr>)"
      by (simp add: r d)
    have "pend_ok ls' (wait_count ls')"
      using pend1 d unfolding pend_ok_def wc' ps by (auto simp: r split: option.splits)
    with t' have "lock_inv ls'" by (simp add: lock_inv_def)
    moreover have "open_write ls' pending'" using op1 d unfolding open_write_def ps r(1) by auto
    moreover have "lock_holders ls' x = lock_holders ls x" for x
      by (simp add: r lock_holders_def chain_holders_def s1 h1 find_upd_snaplock split: option.splits)
    moreover have "q \<in> set (lock_waiters ls' c)"
      using Some by (simp add: r lock_waiters_def chain_waiters_def s1 h1 find_upd_snaplock)
    moreover have "p \<in> set (lock_waiters ls' x)" if "p \<in> set (lock_waiters ls x)" for p x
      using that Some
      by (cases "snaplock_hash ls x = snaplock_hash ls c"; cases "x = c")
        (simp_all add: r lock_waiters_def chain_waiters_def s1 h1 find_upd_snaplock)
    moreover have "pending = Some p \<Longrightarrow> pending' = Some p" for p using q r(1) by simp
    moreover have "sent ls' = sent ls" by (simp add: r s1)
    moreover have "pendings ls' p = Some e \<longleftrightarrow> pendings ls p = Some e" if "pd_reply e \<noteq> None" for p e
    proof (cases "p = q")
      case True
      moreover have "pendings ls q \<noteq> Some e" using old1 that d by (metis option.inject)
      ultimately show ?thesis using that d by (auto simp: ps)
    next
      case False then show ?thesis using old1 that by (simp add: ps)
    qed
    moreover have "next_pending ls \<le> next_pending ls'" using s1(4) by (simp add: r)
    ultimately show ?thesis using r(1) by blast
  qed
  then show "lock_inv ls'" "open_write ls' pending'"
    "lock_holders ls' x = lock_holders ls x"
    "lock_holders ls c \<noteq> [] \<Longrightarrow> \<exists>p. pending' = Some p \<and> p \<in> set (lock_waiters ls' c)"
    "p \<in> set (lock_waiters ls x) \<Longrightarrow> p \<in> set (lock_waiters ls' x)"
    "pending = Some p \<Longrightarrow> pending' = Some p"
    "sent ls' = sent ls"
    "pendings ls p = Some d \<Longrightarrow> pd_reply d \<noteq> None \<Longrightarrow> pendings ls' p = Some d"
    "next_pending ls \<le> next_pending ls'"
    "pendings ls' p = Some d \<Longrightarrow> pd_reply d \<noteq> None \<Longrightarrow> pendings ls p = Some d"
    by blast+
qed

section \<open>Releasing\<close>

lemma release_waiters_simps [simp]:
  "snaplocks (release_waiters ws ls) = snaplocks ls" "next_pending (release_waiters ws ls) = next_pending ls"
  "snaplock_hash_bits (release_waiters ws ls) = snaplock_hash_bits ls"
  by (induction ws arbitrary: ls) (auto simp: reply_def Let_def upd_pending_def split: option.split)

text \<open>The replies that are outstanding.\<close>

definition due :: "'m pending option \<Rightarrow> (nat \<times> 'm) multiset" where
  "due d = (case d of Some d \<Rightarrow> (case pd_reply d of Some r \<Rightarrow> {#r#} | None \<Rightarrow> {#}) | None \<Rightarrow> {#})"

definition pending_replies :: "'m lockstate \<Rightarrow> (nat \<times> 'm) multiset" where
  "pending_replies ls = (\<Sum>p<next_pending ls. due (pendings ls p))"

lemma pending_replies_upd:
  assumes "p < next_pending ls" "pendings ls' = (pendings ls)(p := d)" "next_pending ls' = next_pending ls"
  shows "pending_replies ls' + due (pendings ls p) = pending_replies ls + due d"
proof -
  have "(\<Sum>q\<in>{..<next_pending ls} - {p}. due (if q = p then d else pendings ls q)) =
      (\<Sum>q\<in>{..<next_pending ls} - {p}. due (pendings ls q))"
    by (rule sum.cong) auto
  then show ?thesis
    using assms unfolding pending_replies_def by (simp add: sum.remove [of "{..<next_pending ls}" p])
qed

lemma release_waiters_ok:
  assumes "pend_ok ls f" "\<And>p. f p = g p + count_list ws p"
  shows "pend_ok (release_waiters ws ls) g"
    "mset (sent (release_waiters ws ls)) + pending_replies (release_waiters ws ls) =
      mset (sent ls) + pending_replies ls"
    "open_write ls pending \<Longrightarrow> open_write (release_waiters ws ls) pending"
proof -
  have "pend_ok (release_waiters ws ls) g \<and>
    mset (sent (release_waiters ws ls)) + pending_replies (release_waiters ws ls) =
      mset (sent ls) + pending_replies ls \<and>
    (open_write ls pending \<longrightarrow> open_write (release_waiters ws ls) pending)"
    using assms
  proof (induction ws arbitrary: ls f)
    case Nil
    then have "f = g" by auto
    with Nil(1) show ?case by simp
  next
    case (Cons p ws)
    have fp: "0 < f p" using Cons.prems(2) [of p] by simp
    then obtain d where d: "pendings ls p = Some d"
      using Cons.prems(1) unfolding pend_ok_def by (metis less_numeral_extra(3) not_None_eq)
    have p: "p < next_pending ls" using Cons.prems(1) d unfolding pend_ok_def by (metis not_le option.distinct(1))
    define f1 where "f1 = f(p := f p - 1)"
    define ls1 where "ls1 = (if holdcount d - 1 = 0 then
              (let ls = ls\<lparr>pendings := (pendings ls)(p := None)\<rparr>
               in case pd_reply d of None \<Rightarrow> ls | Some (sock, message) \<Rightarrow> reply sock message ls)
            else upd_pending p (\<lambda>d. d\<lparr>holdcount := holdcount d - 1\<rparr>) ls)"
    have e: "release_waiters (p # ws) ls = release_waiters ws ls1" by (simp add: d ls1_def)
    have f1: "f1 q = g q + count_list ws q" for q using Cons.prems(2) [of q] by (auto simp: f1_def)
    have dd: "pd_reply d = None \<Longrightarrow> holdcount d = Suc (f p)" "pd_reply d \<noteq> None \<Longrightarrow> holdcount d = f p"
      using Cons.prems(1) d unfolding pend_ok_def by auto
    have step: "pend_ok ls1 f1 \<and> mset (sent ls1) + pending_replies ls1 = mset (sent ls) + pending_replies ls \<and>
      (open_write ls pending \<longrightarrow> open_write ls1 pending)"
    proof (cases "holdcount d - 1 = 0")
      case True
      then obtain sock m where r: "pd_reply d = Some (sock, m)" "f p = 1" using dd fp by (cases "pd_reply d") auto
      have l: "pendings ls1 = (pendings ls)(p := None)" "next_pending ls1 = next_pending ls" "sent ls1 = sent ls @ [(sock, m)]"
        using True r by (simp_all add: ls1_def reply_def)
      have "pending_replies ls1 + {#(sock, m)#} = pending_replies ls"
        using pending_replies_upd [OF p l(1,2)] by (simp add: due_def d r)
      moreover have "open_write ls1 pending" if ow: "open_write ls pending"
      proof -
        have "pending \<noteq> Some p" using ow d r(1) unfolding open_write_def by (metis option.inject option.distinct(1))
        with ow show ?thesis by (auto simp: open_write_def l)
      qed
      ultimately show ?thesis using Cons.prems(1) d r unfolding pend_ok_def l by (auto simp: f1_def)
    next
      case False
      then have l: "pendings ls1 = (pendings ls)(p \<mapsto> d\<lparr>holdcount := holdcount d - 1\<rparr>)" "next_pending ls1 = next_pending ls"
        "sent ls1 = sent ls"
        by (simp_all add: ls1_def d)
      have "pending_replies ls1 = pending_replies ls"
        using pending_replies_upd [OF p l(1,2)] by (simp add: due_def d)
      moreover have "(\<exists>e. pendings ls1 q = Some e \<and> pd_reply e = None) \<longleftrightarrow> (\<exists>e. pendings ls q = Some e \<and> pd_reply e = None)" for q
        by (cases "q = p") (simp_all add: l d)
      then have "open_write ls pending \<longrightarrow> open_write ls1 pending" unfolding open_write_def by simp
      ultimately show ?thesis
        using Cons.prems(1) d dd False fp unfolding pend_ok_def l by (auto simp: f1_def)
    qed
    from Cons.IH [OF conjunct1 [OF step] f1] step show ?case unfolding e by simp
  qed
  then show "pend_ok (release_waiters ws ls) g"
    "mset (sent (release_waiters ws ls)) + pending_replies (release_waiters ws ls) =
      mset (sent ls) + pending_replies ls"
    "open_write ls pending \<Longrightarrow> open_write (release_waiters ws ls) pending"
    by auto
qed

lemma find_snaplock_append:
  "find_snaplock (xs @ ys) c = (case find_snaplock xs c of None \<Rightarrow> find_snaplock ys c | Some l \<Rightarrow> Some l)"
  by (induction xs) auto

lemma release_lock_ok:
  assumes ok: "chain_ok h i (xs @ lock # rest)" and k: "k \<in> set (holdlist lock)"
    and f: "pend_ok ls f" "\<And>p. f p = g p + chain_waits (xs @ lock # rest) p"
    and run: "release_lock k lock rest ls = (next, ls')"
  shows "chain_ok h i (xs @ next)" "pend_ok ls' (\<lambda>p. g p + chain_waits (xs @ next) p)"
    "mset (sent ls') + pending_replies ls' = mset (sent ls) + pending_replies ls"
    "open_write ls pending \<Longrightarrow> open_write ls' pending"
    "snaplocks ls' = snaplocks ls" "snaplock_hash_bits ls' = snaplock_hash_bits ls"
    "chain_holders (xs @ next) x =
       (if x = lock_chunk lock then remove1 k (holdlist lock) else chain_holders (xs @ lock # rest) x)"
    "chain_waiters (xs @ next) x =
       (if x = lock_chunk lock \<and> remove1 k (holdlist lock) = [] then [] else chain_waiters (xs @ lock # rest) x)"
proof -
  let ?c = "lock_chunk lock" and ?lock = "lock\<lparr>holdlist := remove1 k (holdlist lock)\<rparr>"
  have nx: "?c \<notin> lock_chunk ` set xs" "?c \<notin> lock_chunk ` set rest" using ok by (auto simp: chain_ok_def)
  then have fx: "find_snaplock xs ?c = None" "find_snaplock rest ?c = None" by (simp_all add: find_snaplock_None)
  have "chain_ok h i (xs @ next) \<and> pend_ok ls' (\<lambda>p. g p + chain_waits (xs @ next) p) \<and>
    mset (sent ls') + pending_replies ls' = mset (sent ls) + pending_replies ls \<and>
    (open_write ls pending \<longrightarrow> open_write ls' pending) \<and>
    snaplocks ls' = snaplocks ls \<and> snaplock_hash_bits ls' = snaplock_hash_bits ls"
  proof (cases "remove1 k (holdlist lock) = []")
    case True
    then have n: "next = rest" "ls' = release_waiters (waitlist lock) ls"
      using run k by (auto simp: release_lock_def)
    have g: "f p = (g p + chain_waits (xs @ rest) p) + count_list (waitlist lock) p" for p using f(2) [of p] by simp
    note rw = release_waiters_ok [OF f(1) g]
    have "chain_ok h i (xs @ rest)" using ok by (auto simp: chain_ok_def)
    with rw show ?thesis by (simp add: n)
  next
    case False
    then have n: "next = ?lock # rest" "ls' = ls" using run k by (auto simp: release_lock_def)
    have "chain_ok h i (xs @ next)" using ok False by (auto simp: chain_ok_def n)
    moreover have "f = (\<lambda>p. g p + chain_waits (xs @ next) p)" using f(2) by (auto simp: n)
    ultimately show ?thesis using f(1) by (simp add: n)
  qed
  then show "chain_ok h i (xs @ next)" "pend_ok ls' (\<lambda>p. g p + chain_waits (xs @ next) p)"
    "mset (sent ls') + pending_replies ls' = mset (sent ls) + pending_replies ls"
    "open_write ls pending \<Longrightarrow> open_write ls' pending"
    "snaplocks ls' = snaplocks ls" "snaplock_hash_bits ls' = snaplock_hash_bits ls" by auto
  show "chain_holders (xs @ next) x =
       (if x = lock_chunk lock then remove1 k (holdlist lock) else chain_holders (xs @ lock # rest) x)"
    "chain_waiters (xs @ next) x =
       (if x = lock_chunk lock \<and> remove1 k (holdlist lock) = [] then [] else chain_waiters (xs @ lock # rest) x)"
    using run k fx by (auto simp: release_lock_def Let_def chain_holders_def chain_waiters_def find_snaplock_append
        split: if_splits option.split)
qed

lemma wait_count_split:
  assumes "i < hash_bins ls"
  shows "wait_count ls p = (wait_count ls p - chain_waits (snaplocks ls i) p) + chain_waits (snaplocks ls i) p"
proof -
  have "chain_waits (snaplocks ls i) p \<le> wait_count ls p"
    using assms unfolding wait_count_def by (intro member_le_sum) auto
  then show ?thesis by simp
qed

lemma bucket_inv:
  assumes t: "table_ok ls" and i: "i < hash_bins ls" and ok: "chain_ok (snaplock_hash ls) i chain"
    and same: "snaplocks ls' = snaplocks ls" "snaplock_hash_bits ls' = snaplock_hash_bits ls"
    and p: "pend_ok ls' (\<lambda>p. (wait_count ls p - chain_waits (snaplocks ls i) p) + chain_waits chain p)"
  shows "lock_inv (ls'\<lparr>snaplocks := (snaplocks ls')(i := chain)\<rparr>)"
proof -
  let ?ls = "ls'\<lparr>snaplocks := (snaplocks ls')(i := chain)\<rparr>"
  have h: "snaplock_hash ?ls = snaplock_hash ls" by (rule ext) (simp add: snaplock_hash_def same)
  have "table_ok ?ls" unfolding table_ok_def h using t ok by (simp add: table_ok_def same)
  moreover have "wait_count ?ls p = (wait_count ls p - chain_waits (snaplocks ls i) p) + chain_waits chain p" for p
  proof -
    have "wait_count ls' = wait_count ls" by (rule ext) (simp add: wait_count_def same)
    then show ?thesis using wait_count_bucket [of i ls' chain p] wait_count_split [OF i, of p] i by (simp add: same)
  qed
  then have "pend_ok ?ls (wait_count ?ls)" using p by (simp add: pend_ok_def)
  ultimately show ?thesis by (simp add: lock_inv_def)
qed

lemma pending_replies_snaplocks [simp]: "pending_replies (ls\<lparr>snaplocks := s\<rparr>) = pending_replies ls"
  by (simp add: pending_replies_def)

lemma open_write_snaplocks [simp]: "open_write (ls\<lparr>snaplocks := s\<rparr>) pending = open_write ls pending"
  by (simp add: open_write_def)

lemma release_chunk_ok:
  assumes inv: "lock_inv ls" and k: "k \<in> set (lock_holders ls c)" and run: "release_chunk c k ls = (r, ls')"
  shows "lock_inv ls'" "mset (sent ls') + pending_replies ls' = mset (sent ls) + pending_replies ls"
    "open_write ls pending \<Longrightarrow> open_write ls' pending"
    "lock_holders ls' x = (if x = c then remove1 k (lock_holders ls c) else lock_holders ls x)"
    "lock_waiters ls' x = (if x = c \<and> remove1 k (lock_holders ls c) = [] then [] else lock_waiters ls x)"
proof -
  have t: "table_ok ls" and pk: "pend_ok ls (wait_count ls)" using inv by (auto simp: lock_inv_def)
  have i: "snaplock_hash ls c < hash_bins ls" using t by (simp add: table_ok_def hash_less)
  obtain lock where lk: "find_snaplock (bucket ls c) c = Some lock"
    using k by (cases "find_snaplock (bucket ls c) c") (simp_all add: lock_holders_def chain_holders_def)
  define before where "before = takeWhile (\<lambda>l. lock_chunk l \<noteq> c) (bucket ls c)"
  obtain rest where rest: "dropWhile (\<lambda>l. lock_chunk l \<noteq> c) (bucket ls c) = lock # rest"
    using chain_split [OF lk] by blast
  have chain: "bucket ls c = before @ lock # rest"
    using takeWhile_dropWhile_id [of "\<lambda>l. lock_chunk l \<noteq> c" "bucket ls c"] rest by (simp add: before_def)
  have c: "lock_chunk lock = c" using find_snaplock_Some [OF lk] by simp
  have ok: "chain_ok (snaplock_hash ls) (snaplock_hash ls c) (before @ lock # rest)"
    using t unfolding table_ok_def by (metis chain)
  have kl: "k \<in> set (holdlist lock)" using k lk by (simp add: lock_holders_def chain_holders_def)
  obtain nxt ls1 where rl: "release_lock k lock rest ls = (nxt, ls1)" by fastforce
  have w: "wait_count ls p = (wait_count ls p - chain_waits (bucket ls c) p) + chain_waits (before @ lock # rest) p" for p
    by (subst chain [symmetric]) (rule wait_count_split [OF i])
  note s = release_lock_ok [OF ok kl pk w rl]
  have h1: "snaplock_hash ls1 c = snaplock_hash ls c" using s(6) by (simp add: snaplock_hash_def)
  have ls': "ls' = ls1\<lparr>snaplocks := (snaplocks ls1)(snaplock_hash ls c := before @ nxt)\<rparr>"
    using run rl by (simp add: release_chunk_def rest before_def set_bucket_def h1 split: if_splits)
  show "lock_inv ls'"
    unfolding ls' by (rule bucket_inv [OF t i s(1) s(5,6) s(2)])
  show "mset (sent ls') + pending_replies ls' = mset (sent ls) + pending_replies ls" using s(3) by (simp add: ls')
  show "open_write ls' pending" if "open_write ls pending" using s(4) [OF that] by (simp add: ls')
  have h: "snaplock_hash ls' x = snaplock_hash ls x" for x by (simp add: snaplock_hash_def ls' s(6))
  have b: "bucket ls' x = (if snaplock_hash ls x = snaplock_hash ls c then before @ nxt else bucket ls x)" for x
    by (simp add: h) (simp add: ls' s(5))
  have bc: "snaplock_hash ls x = snaplock_hash ls c \<Longrightarrow> bucket ls x = before @ lock # rest" for x by (simp add: chain)
  show "lock_holders ls' x = (if x = c then remove1 k (lock_holders ls c) else lock_holders ls x)"
    using s(7) [of x] lk unfolding lock_holders_def b by (auto simp: c bc chain_holders_def)
  show "lock_waiters ls' x = (if x = c \<and> remove1 k (lock_holders ls c) = [] then [] else lock_waiters ls x)"
    using s(8) [of x] lk unfolding lock_waiters_def lock_holders_def b by (auto simp: c bc chain_holders_def)
qed

section \<open>A client goes away\<close>

lemma free_chain_ok:
  assumes "chain_ok h i (xs @ chain)" "pend_ok ls f" "\<And>p. f p = g p + chain_waits (xs @ chain) p"
    and "free_chain k chain ls = (chain', ls')"
  shows "chain_ok h i (xs @ chain') \<and> pend_ok ls' (\<lambda>p. g p + chain_waits (xs @ chain') p) \<and>
    mset (sent ls') + pending_replies ls' = mset (sent ls) + pending_replies ls \<and>
    (open_write ls pending \<longrightarrow> open_write ls' pending) \<and>
    snaplocks ls' = snaplocks ls \<and> snaplock_hash_bits ls' = snaplock_hash_bits ls \<and>
    (\<forall>x. chain_holders chain' x = removeAll k (chain_holders chain x))"
  using assms
proof (induction k chain ls arbitrary: xs f chain' ls' rule: free_chain.induct)
  case (1 k ls)
  have "f = (\<lambda>p. g p + chain_waits xs p)" using 1(3) by auto
  with 1 show ?case by (simp add: chain_holders_def)
next
  case (2 k lock rest ls)
  have lr: "lock_chunk lock \<notin> lock_chunk ` set rest" using 2(3) by (auto simp: chain_ok_def)
  show ?case
  proof (cases "k \<in> set (holdlist lock)")
    case True
    obtain nxt ls1 where rl: "release_lock k lock rest ls = (nxt, ls1)" by fastforce
    note s = release_lock_ok [OF 2(3) True 2(4,5) rl]
    have fc: "free_chain k nxt ls1 = (chain', ls')" using 2(6) True by (simp add: rl)
    note ih = 2(1) [OF True rl [symmetric] s(1,2) refl fc]
    have ok0: "chain_ok h i ([] @ lock # rest)" using 2(3) by (auto simp: chain_ok_def)
    have "chain_holders nxt x = (if x = lock_chunk lock then remove1 k (holdlist lock) else chain_holders (lock # rest) x)" for x
      using release_lock_ok(7) [OF ok0 True _ _ rl, of "\<lambda>p. f p" "\<lambda>p. g p + chain_waits xs p" x] 2(4,5) by simp
    then have "removeAll k (chain_holders nxt x) = removeAll k (chain_holders (lock # rest) x)" for x
      by (simp add: chain_holders_def removeAll_filter_not_eq filter_remove1)
    with ih s(3-6) show ?thesis by simp
  next
    case False
    obtain chain1 ls1 where fc: "free_chain k rest ls = (chain1, ls1)" by fastforce
    then have r: "chain' = lock # chain1" "ls' = ls1" using 2(6) False by auto
    have "chain_ok h i ((xs @ [lock]) @ rest)" using 2(3) by simp
    from 2(2) [OF False this 2(4) _ fc] 2(5)
    have ih: "chain_ok h i ((xs @ [lock]) @ chain1) \<and> pend_ok ls1 (\<lambda>p. g p + chain_waits ((xs @ [lock]) @ chain1) p) \<and>
      mset (sent ls1) + pending_replies ls1 = mset (sent ls) + pending_replies ls \<and>
      (open_write ls pending \<longrightarrow> open_write ls1 pending) \<and>
      snaplocks ls1 = snaplocks ls \<and> snaplock_hash_bits ls1 = snaplock_hash_bits ls \<and>
      (\<forall>x. chain_holders chain1 x = removeAll k (chain_holders rest x))" by simp
    have "chain_holders (lock # chain1) x = removeAll k (chain_holders (lock # rest) x)" for x
      using ih False by (simp add: chain_holders_def removeAll_id)
    with ih show ?thesis by (simp add: r)
  qed
qed

lemma free_client_locks_ok:
  assumes "lock_inv ls"
  shows "lock_inv (free_client_locks k ls)"
    "mset (sent (free_client_locks k ls)) + pending_replies (free_client_locks k ls) = mset (sent ls) + pending_replies ls"
    "open_write ls pending \<Longrightarrow> open_write (free_client_locks k ls) pending"
    "lock_holders (free_client_locks k ls) x = removeAll k (lock_holders ls x)"
proof -
  define step :: "nat \<Rightarrow> 'a lockstate \<Rightarrow> 'a lockstate" where
    "step = (\<lambda>i ls. case free_chain k (snaplocks ls i) ls of (chain, ls) \<Rightarrow> ls\<lparr>snaplocks := (snaplocks ls)(i := chain)\<rparr>)"
  have one: "lock_inv (step i s) \<and>
      mset (sent (step i s)) + pending_replies (step i s) = mset (sent s) + pending_replies s \<and>
      (open_write s pending \<longrightarrow> open_write (step i s) pending) \<and> snaplock_hash_bits (step i s) = snaplock_hash_bits s \<and>
      (\<forall>j x. chain_holders (snaplocks (step i s) j) x =
         (if j = i then removeAll k (chain_holders (snaplocks s j) x) else chain_holders (snaplocks s j) x))"
    if inv: "lock_inv s" and i: "i < hash_bins s" for i and s :: "'a lockstate"
  proof -
    obtain chain s1 where fc: "free_chain k (snaplocks s i) s = (chain, s1)" by fastforce
    have t: "table_ok s" and pk: "pend_ok s (wait_count s)" using inv by (auto simp: lock_inv_def)
    have ok: "chain_ok (snaplock_hash s) i ([] @ snaplocks s i)" using t by (simp add: table_ok_def)
    have w: "wait_count s p = (wait_count s p - chain_waits (snaplocks s i) p) + chain_waits ([] @ snaplocks s i) p" for p
      using wait_count_split [OF i, of p] by simp
    note f = free_chain_ok [OF ok pk w fc, of pending]
    have "lock_inv (s1\<lparr>snaplocks := (snaplocks s1)(i := chain)\<rparr>)"
      by (rule bucket_inv [OF t i]) (use f in simp_all)
    with f show ?thesis by (simp add: fc step_def)
  qed
  have all: "lock_inv (fold step [0..<n] ls) \<and>
      mset (sent (fold step [0..<n] ls)) + pending_replies (fold step [0..<n] ls) = mset (sent ls) + pending_replies ls \<and>
      (open_write ls pending \<longrightarrow> open_write (fold step [0..<n] ls) pending) \<and>
      snaplock_hash_bits (fold step [0..<n] ls) = snaplock_hash_bits ls \<and>
      (\<forall>j x. chain_holders (snaplocks (fold step [0..<n] ls) j) x =
         (if j < n then removeAll k (chain_holders (snaplocks ls j) x) else chain_holders (snaplocks ls j) x))"
    if "n \<le> hash_bins ls" for n
    using that
  proof (induction n)
    case 0 then show ?case using assms by simp
  next
    case (Suc n)
    let ?s = "fold step [0..<n] ls"
    have e: "fold step [0..<Suc n] ls = step n ?s" by simp
    from Suc have ih: "lock_inv ?s \<and> mset (sent ?s) + pending_replies ?s = mset (sent ls) + pending_replies ls \<and>
      (open_write ls pending \<longrightarrow> open_write ?s pending) \<and> snaplock_hash_bits ?s = snaplock_hash_bits ls \<and>
      (\<forall>j x. chain_holders (snaplocks ?s j) x =
         (if j < n then removeAll k (chain_holders (snaplocks ls j) x) else chain_holders (snaplocks ls j) x))" by simp
    moreover from ih Suc.prems have "n < hash_bins ?s" by simp
    ultimately show ?case using one [of ?s n] unfolding e by (simp add: less_Suc_eq)
  qed
  have e: "free_client_locks k ls = fold step [0..<hash_bins ls] ls" by (simp add: free_client_locks_def step_def)
  note a = all [OF order_refl, folded e]
  show "lock_inv (free_client_locks k ls)"
    "mset (sent (free_client_locks k ls)) + pending_replies (free_client_locks k ls) = mset (sent ls) + pending_replies ls"
    "open_write ls pending \<Longrightarrow> open_write (free_client_locks k ls) pending"
    using a by auto
  have b: "snaplock_hash_bits ls \<le> 32" using assms by (simp add: lock_inv_def table_ok_def)
  have "snaplock_hash (free_client_locks k ls) x = snaplock_hash ls x" using a by (simp add: snaplock_hash_def)
  then show "lock_holders (free_client_locks k ls) x = removeAll k (lock_holders ls x)"
    using a hash_less [OF b, of x] by (simp add: lock_holders_def)
qed

section \<open>A write request\<close>

lemma waitfor_replies:
  assumes "lock_inv ls" "open_write ls pending" "waitfor_chunk c pending ls = (pending', ls')"
  shows "pending_replies ls' = pending_replies ls"
proof -
  have same: "due (pendings ls' p) = due (pendings ls p)" for p
  proof (cases "pendings ls p")
    case None
    then show ?thesis using waitfor_inv(10) [OF assms] by (cases "pendings ls' p") (fastforce simp: due_def split: option.split)+
  next
    case (Some d)
    show ?thesis
    proof (cases "pd_reply d")
      case None
      with Some have "\<not> (\<exists>e. pendings ls' p = Some e \<and> pd_reply e \<noteq> None)" using waitfor_inv(10) [OF assms] by fastforce
      then show ?thesis using Some None by (auto simp: due_def split: option.split)
    next
      case (Some r)
      then show ?thesis using waitfor_inv(8) [OF assms \<open>pendings ls p = Some d\<close>] \<open>pendings ls p = Some d\<close> by simp
    qed
  qed
  have n: "next_pending ls \<le> next_pending ls'" by (rule waitfor_inv(9) [OF assms])
  have "pend_ok ls (wait_count ls)" using assms(1) by (simp add: lock_inv_def)
  then have "p \<ge> next_pending ls \<Longrightarrow> due (pendings ls p) = {#}" for p by (simp add: pend_ok_def due_def)
  then have "(\<Sum>p<next_pending ls'. due (pendings ls p)) = (\<Sum>p<next_pending ls. due (pendings ls p))"
    using n by (intro sum.mono_neutral_right) auto
  then show ?thesis by (simp add: pending_replies_def same)
qed

definition waitfor_chunks :: "chunk_t list \<Rightarrow> nat option \<Rightarrow> 'm lockstate \<Rightarrow> nat option \<times> 'm lockstate" where
  "waitfor_chunks cs pending ls = fold (\<lambda>c (pending, ls). waitfor_chunk c pending ls) cs (pending, ls)"

lemma waitfor_chunks_ok:
  assumes "lock_inv ls" "open_write ls pending" "waitfor_chunks cs pending ls = (pending', ls')"
  shows "lock_inv ls' \<and> open_write ls' pending' \<and> pending_replies ls' = pending_replies ls \<and> sent ls' = sent ls \<and>
    (\<forall>x. lock_holders ls' x = lock_holders ls x) \<and>
    (\<forall>p. pending = Some p \<longrightarrow> pending' = Some p) \<and>
    (\<forall>x p. p \<in> set (lock_waiters ls x) \<longrightarrow> p \<in> set (lock_waiters ls' x)) \<and>
    (\<forall>c\<in>set cs. lock_holders ls c \<noteq> [] \<longrightarrow> (\<exists>p. pending' = Some p \<and> p \<in> set (lock_waiters ls' c))) \<and>
    ((\<forall>c\<in>set cs. lock_holders ls c = []) \<longrightarrow> pending' = pending \<and> ls' = ls)"
  using assms
proof (induction cs arbitrary: pending ls)
  case Nil then show ?case by (simp add: waitfor_chunks_def)
next
  case (Cons c cs)
  obtain pend1 ls1 where w: "waitfor_chunk c pending ls = (pend1, ls1)" by fastforce
  note s = waitfor_inv [OF Cons.prems(1,2) w] and r = waitfor_replies [OF Cons.prems(1,2) w]
  have "waitfor_chunks cs pend1 ls1 = (pending', ls')" using Cons.prems(3) by (simp add: waitfor_chunks_def w)
  note ih = Cons.IH [OF s(1,2) this]
  have "pend1 = pending \<and> ls1 = ls" if "lock_holders ls c = []"
  proof -
    have "chain_ok (snaplock_hash ls) (snaplock_hash ls c) (bucket ls c)"
      using Cons.prems(1) by (simp add: lock_inv_def table_ok_def)
    then have "find_snaplock (bucket ls c) c = None"
      using that by (cases "find_snaplock (bucket ls c) c")
        (auto simp: lock_holders_def chain_holders_def chain_ok_def dest: find_snaplock_Some)
    then show ?thesis using w by (simp add: waitfor_chunk_def)
  qed
  moreover have "\<exists>p. pending' = Some p \<and> p \<in> set (lock_waiters ls' c)" if "lock_holders ls c \<noteq> []"
    using s(4) [OF that] ih by blast
  ultimately show ?case using ih s(3,5,6,7) r by auto
qed

lemma lock_waiters_pending:
  assumes "lock_inv ls" "p \<in> set (lock_waiters ls c)"
  shows "lock_holders ls c \<noteq> []" "\<exists>d. pendings ls p = Some d" "0 < wait_count ls p"
proof -
  have t: "table_ok ls" and pk: "pend_ok ls (wait_count ls)" using assms(1) by (auto simp: lock_inv_def)
  obtain l where l: "find_snaplock (bucket ls c) c = Some l" "p \<in> set (waitlist l)"
    using assms(2) by (cases "find_snaplock (bucket ls c) c") (simp_all add: lock_waiters_def chain_waiters_def)
  have m: "l \<in> set (bucket ls c)" using find_snaplock_Some [OF l(1)] by simp
  have "chain_ok (snaplock_hash ls) (snaplock_hash ls c) (bucket ls c)" using t by (simp add: table_ok_def)
  with m l(1) show "lock_holders ls c \<noteq> []" by (auto simp: chain_ok_def lock_holders_def chain_holders_def)
  have "0 < chain_waits (bucket ls c) p"
    using m l(2) unfolding chain_waits_def by (intro Nat.gr0I) (auto simp: count_list_0_iff)
  moreover have "snaplock_hash ls c < hash_bins ls" using t by (simp add: table_ok_def hash_less)
  ultimately show w: "0 < wait_count ls p" using wait_count_split [of "snaplock_hash ls c" ls p] by simp
  then show "\<exists>d. pendings ls p = Some d" using pk unfolding pend_ok_def by (metis less_irrefl not_Some_eq)
qed

lemma no_holders_no_waits:
  assumes "lock_inv ls" "\<And>c. lock_holders ls c = []"
  shows "wait_count ls p = 0"
proof -
  have t: "table_ok ls" using assms(1) by (simp add: lock_inv_def)
  have "snaplocks ls i = []" for i
  proof (cases "snaplocks ls i")
    case (Cons l chain)
    have "chain_ok (snaplock_hash ls) i (snaplocks ls i)" using t by (simp add: table_ok_def)
    then have "snaplock_hash ls (lock_chunk l) = i" "holdlist l \<noteq> []" by (auto simp: chain_ok_def Cons)
    with assms(2) [of "lock_chunk l"] show ?thesis by (simp add: lock_holders_def chain_holders_def Cons)
  qed simp
  then show ?thesis by (simp add: wait_count_def)
qed

lemma no_waits_no_replies:
  assumes "lock_inv ls" "open_write ls None" "\<And>p. wait_count ls p = 0"
  shows "pending_replies ls = {#}"
proof -
  have "pendings ls p = None" for p
  proof (cases "pendings ls p")
    case (Some d)
    then have "pd_reply d \<noteq> None" using assms(2) by (auto simp: open_write_def)
    with Some assms(1,3) show ?thesis by (auto simp: lock_inv_def pend_ok_def)
  qed
  then show ?thesis by (simp add: pending_replies_def due_def)
qed

end
