(* ===== verification/Locks_Correct.thy ===== *)
theory Locks_Correct
  imports Locks_Lemmas
begin

text \<open>
  The correctness of the read locks: every origin write is answered exactly
  once, not before the readers of its chunks are done, and it is answered when
  they are.  The steps are those of the server as far as the lock table is
  concerned.
\<close>

section \<open>The steps of the server on the lock table\<close>

text \<open>The table that start up allocates.\<close>

definition init_locks :: "'m lockstate" where
  "init_locks = \<lparr>snaplock_hash_bits = 8, snaplocks = (\<lambda>_. []), pendings = (\<lambda>_. None), next_pending = 0, sent = []\<rparr>"

text \<open>
  The lock operations of a write request for the chunks \<open>cs\<close>, from the loop
  over the chunks to the reply.
\<close>

definition lock_write :: "chunk_t list \<Rightarrow> nat \<Rightarrow> 'm \<Rightarrow> 'm lockstate \<Rightarrow> 'm lockstate" where
  "lock_write cs sock message ls =
     (case waitfor_chunks cs None ls of
        (None, ls) \<Rightarrow> reply sock message ls
      | (Some p, ls) \<Rightarrow>
          upd_pending p (\<lambda>d. d\<lparr>pd_reply := Some (sock, message), holdcount := holdcount d - 1\<rparr>) ls)"

text \<open>
  The reachable tables, with the replies that the requests so far ask for.
  Clients report the end of a read only for chunks they hold.
\<close>

inductive lock_reach :: "'m lockstate \<Rightarrow> (nat \<times> 'm) list \<Rightarrow> bool" where
  start: "lock_reach init_locks []"
| read: "lock_reach ls ws \<Longrightarrow> lock_reach (readlock_chunk c client ls) ws"
| answer: "lock_reach ls ws \<Longrightarrow> lock_reach (reply sock message ls) (ws @ [(sock, message)])"
| store: "lock_reach ls ws \<Longrightarrow> lock_reach (lock_write cs sock message ls) (ws @ [(sock, message)])"
| finish: "lock_reach ls ws \<Longrightarrow> client \<in> set (lock_holders ls c) \<Longrightarrow> lock_reach (snd (release_chunk c client ls)) ws"
| drop: "lock_reach ls ws \<Longrightarrow> lock_reach (free_client_locks client ls) ws"

section \<open>Lemmas\<close>

lemma reply_simps [simp]:
  "snaplocks (reply s m ls) = snaplocks ls" "snaplock_hash_bits (reply s m ls) = snaplock_hash_bits ls"
  "pendings (reply s m ls) = pendings ls" "next_pending (reply s m ls) = next_pending ls"
  "sent (reply s m ls) = sent ls @ [(s, m)]" "snaplock_hash (reply s m ls) c = snaplock_hash ls c"
  by (simp_all add: reply_def snaplock_hash_def)

lemma reply_inv:
  "lock_inv ls \<Longrightarrow> lock_inv (reply s m ls)"
  "open_write (reply s m ls) pending = open_write ls pending"
  "pending_replies (reply s m ls) = pending_replies ls"
  using table_ok_cong [of ls "reply s m ls"]
  by (auto simp: lock_inv_def pend_ok_def wait_count_def open_write_def pending_replies_def)

lemma init_locks_inv:
  "lock_inv init_locks" "open_write init_locks None" "pending_replies init_locks = {#}" "sent init_locks = []"
  by (simp_all add: init_locks_def lock_inv_def table_ok_def pend_ok_def chain_ok_def wait_count_def
      open_write_def pending_replies_def)

lemma lock_write_wait:
  assumes inv: "lock_inv ls" and op: "open_write ls None" and c: "c \<in> set cs" "lock_holders ls c \<noteq> []"
  obtains p d where "lock_inv (lock_write cs s m ls)" "open_write (lock_write cs s m ls) None"
    "sent (lock_write cs s m ls) = sent ls" "pendings (lock_write cs s m ls) p = Some d" "pd_reply d = Some (s, m)"
    "\<And>x. x \<in> set cs \<Longrightarrow> lock_holders ls x \<noteq> [] \<Longrightarrow> p \<in> set (lock_waiters (lock_write cs s m ls) x)"
    "pending_replies (lock_write cs s m ls) = add_mset (s, m) (pending_replies ls)"
proof -
  obtain pending ls1 where w: "waitfor_chunks cs None ls = (pending, ls1)" by fastforce
  note k = waitfor_chunks_ok [OF inv op w]
  obtain p where p: "pending = Some p" "p \<in> set (lock_waiters ls1 c)" using k c by blast
  have inv1: "lock_inv ls1" and op1: "open_write ls1 (Some p)" using k p(1) by auto
  obtain d where d: "pendings ls1 p = Some d" "pd_reply d = None" using op1 by (auto simp: open_write_def)
  let ?d = "d\<lparr>pd_reply := Some (s, m), holdcount := holdcount d - 1\<rparr>"
  let ?ls = "lock_write cs s m ls"
  have e: "?ls = upd_pending p (\<lambda>d. d\<lparr>pd_reply := Some (s, m), holdcount := holdcount d - 1\<rparr>) ls1"
    by (simp add: lock_write_def w p(1))
  have ps: "pendings ?ls = (pendings ls1)(p \<mapsto> ?d)" by (simp add: e d)
  have wc: "wait_count ?ls q = wait_count ls1 q" for q by (simp add: e wait_count_def)
  have t: "table_ok ls1" and pk: "pend_ok ls1 (wait_count ls1)" using inv1 by (auto simp: lock_inv_def)
  have n: "p < next_pending ls1" using pk d(1) unfolding pend_ok_def by (metis leI option.distinct(1))
  have "table_ok ?ls" using table_ok_cong [OF t, of ?ls] by (simp add: e)
  moreover have "pend_ok ?ls (wait_count ?ls)"
    using pk d lock_waiters_pending(3) [OF inv1 p(2)] unfolding pend_ok_def wc ps by (auto simp: e)
  ultimately have 1: "lock_inv ?ls" by (simp add: lock_inv_def)
  have 2: "open_write ?ls None" using op1 unfolding open_write_def ps by auto
  have 3: "sent ?ls = sent ls" using k by (simp add: e)
  have 4: "p \<in> set (lock_waiters ?ls x)" if "x \<in> set cs" "lock_holders ls x \<noteq> []" for x
    using k that p(1) by (auto simp: e lock_waiters_def)
  have "pending_replies ?ls + due (pendings ls1 p) = pending_replies ls1 + due (Some ?d)"
    using pending_replies_upd [OF n ps] by (simp add: e)
  then have 5: "pending_replies ?ls = add_mset (s, m) (pending_replies ls)" using k d by (simp add: due_def)
  from that [OF 1 2 3 _ _ 4 5] ps show thesis by simp
qed

lemma lock_write_free:
  assumes "lock_inv ls" "open_write ls None" "\<forall>c\<in>set cs. lock_holders ls c = []"
  shows "lock_write cs s m ls = reply s m ls"
proof -
  obtain pending ls1 where w: "waitfor_chunks cs None ls = (pending, ls1)" by fastforce
  from waitfor_chunks_ok [OF assms(1,2) w] assms(3) show ?thesis by (simp add: lock_write_def w)
qed

lemma lock_reach_inv:
  "lock_reach ls ws \<Longrightarrow> lock_inv ls \<and> open_write ls None \<and> mset (sent ls) + pending_replies ls = mset ws"
proof (induction rule: lock_reach.induct)
  case start then show ?case by (simp add: init_locks_inv)
next
  case (read ls ws c client)
  then show ?case
    by (simp add: readlock_inv open_write_def pending_replies_def)
next
  case (answer ls ws s m)
  then show ?case by (simp add: reply_inv)
next
  case (store ls ws cs s m)
  show ?case
  proof (cases "\<forall>c\<in>set cs. lock_holders ls c = []")
    case True
    then show ?thesis using store by (simp add: lock_write_free reply_inv)
  next
    case False
    then obtain c where "c \<in> set cs" "lock_holders ls c \<noteq> []" by blast
    from lock_write_wait [of ls c cs s m, OF _ _ this] store show ?thesis
      by (metis mset_append mset_single_iff_right union_mset_add_mset_right add_mset_add_single)
  qed
next
  case (finish ls ws client c)
  obtain r ls' where "release_chunk c client ls = (r, ls')" by fastforce
  with release_chunk_ok [OF _ finish.hyps(2) this] finish.IH show ?case by simp
next
  case (drop ls ws client)
  then show ?case using free_client_locks_ok(1,2) [of ls client] free_client_locks_ok(3) [where pending = None and ls = ls and k = client] by simp
qed


section \<open>A run with a reader and a writer\<close>

text \<open>Client 5 reads the chunks 7 and 9 from the origin; client 4 writes 7.\<close>

definition reading :: "nat lockstate" where
  "reading = readlock_chunk 9 5 (readlock_chunk 7 5 init_locks)"

definition writing :: "nat lockstate" where
  "writing = lock_write [6, 7] 4 100 reading"

lemma reading_reach: "lock_reach reading []"
  unfolding reading_def by (intro lock_reach.intros)


lemma init_locks_holders: "lock_holders (init_locks :: 'm lockstate) c = []"
  by (simp add: lock_holders_def init_locks_def chain_holders_def)

lemma reading_holders: "lock_holders reading c = (if c = 7 \<or> c = 9 then [5] else [])"
  by (simp add: reading_def readlock_holders init_locks_holders)

section \<open>Properties\<close>



text \<open>
  C31. An origin write to chunks some of which clients are reading is not
  answered: no reply is sent, and the write waits on the lock of each chunk
  that is held.  It stays unanswered while any of those locks has a holder:
  a release that is not the last one of its lock leaves all waiting writes
  where they are.
\<close>

theorem write_waits_for_readers:
  assumes "lock_reach ls ws" "c \<in> set cs" "lock_holders ls c \<noteq> []"
  shows "\<exists>p d. let ls' = lock_write cs sock message ls in
    sent ls' = sent ls \<and> pendings ls' p = Some d \<and> pd_reply d = Some (sock, message) \<and>
    (\<forall>x\<in>set cs. lock_holders ls x \<noteq> [] \<longrightarrow> p \<in> set (lock_waiters ls' x)) \<and>
    (\<forall>x client. 1 < length (lock_holders ls' x) \<and> client \<in> set (lock_holders ls' x) \<longrightarrow>
       lock_waiters (snd (release_chunk x client ls')) x = lock_waiters ls' x)"
proof -
  have i: "lock_inv ls" "open_write ls None" using lock_reach_inv [OF assms(1)] by auto
  obtain p d where w: "lock_inv (lock_write cs sock message ls)" "sent (lock_write cs sock message ls) = sent ls"
    "pendings (lock_write cs sock message ls) p = Some d" "pd_reply d = Some (sock, message)"
    "\<And>x. x \<in> set cs \<Longrightarrow> lock_holders ls x \<noteq> [] \<Longrightarrow> p \<in> set (lock_waiters (lock_write cs sock message ls) x)"
    by (rule lock_write_wait [OF i assms(2,3), of sock message]) blast
  have "lock_waiters (snd (release_chunk x client ls')) x = lock_waiters ls' x"
    if "lock_inv ls'" "1 < length (lock_holders ls' x)" "client \<in> set (lock_holders ls' x)" for x client and ls' :: "'a lockstate"
  proof -
    obtain r ls2 where r: "release_chunk x client ls' = (r, ls2)" by fastforce
    have "length (remove1 client (lock_holders ls' x)) \<noteq> 0" using that(2,3) by (simp add: length_remove1)
    then have "remove1 client (lock_holders ls' x) \<noteq> []" by fastforce
    with release_chunk_ok(5) [OF that(1,3) r] r show ?thesis by simp
  qed
  with w show ?thesis unfolding Let_def by blast
qed

theorem write_waits_for_readers_witness:
  "\<exists>p d. sent writing = [] \<and> pendings writing p = Some d \<and> pd_reply d = Some (4, 100) \<and>
    p \<in> set (lock_waiters writing 7)"
proof -
  have "sent reading = []" by (simp add: reading_def init_locks_def)
  moreover have "(7 :: nat) \<in> set [6, 7]" "lock_holders reading 7 \<noteq> []" by (simp_all add: reading_holders)
  note write_waits_for_readers [OF reading_reach this, of 4 100, folded writing_def, unfolded Let_def]
  ultimately show ?thesis by (metis \<open>lock_holders reading 7 \<noteq> []\<close> list.set_intros)
qed



text \<open>
  C33. When a client that does not hold the lock of a chunk reports the end of
  a read of it, the lock disappears although others hold it: the function
  returns -2, and the next write to the chunk is answered at once.
\<close>

theorem stray_release_drops_lock:
  assumes "lock_reach ls ws" "lock_holders ls c \<noteq> []" "client \<notin> set (lock_holders ls c)"
  shows "case release_chunk c client ls of (r, ls') \<Rightarrow>
    r = -2 \<and> lock_holders ls' c = [] \<and> lock_write [c] sock message ls' = reply sock message ls'"
proof -
  obtain lock where lk: "find_snaplock (bucket ls c) c = Some lock" "client \<notin> set (holdlist lock)"
    using assms(2,3) by (cases "find_snaplock (bucket ls c) c") (simp_all add: lock_holders_def chain_holders_def)
  obtain rest where d: "dropWhile (\<lambda>l. lock_chunk l \<noteq> c) (bucket ls c) = lock # rest"
    using chain_split [OF lk(1)] by blast
  let ?before = "takeWhile (\<lambda>l. lock_chunk l \<noteq> c) (bucket ls c)"
  have r: "release_chunk c client ls = (-2, set_bucket c ?before ls)"
    using lk by (simp add: release_chunk_def d release_lock_def)
  have "find_snaplock ?before c = None" by (auto simp: find_snaplock_None dest: set_takeWhileD)
  then show ?thesis
    by (simp add: r lock_holders_def chain_holders_def lock_write_def waitfor_chunks_def waitfor_chunk_def)
qed

theorem stray_release_drops_lock_witness:
  "case release_chunk 7 3 reading of (r, ls') \<Rightarrow>
    r = -2 \<and> lock_holders ls' 7 = [] \<and> lock_write [7] 4 100 ls' = reply 4 100 ls'"
  by (rule stray_release_drops_lock [OF reading_reach]) (simp_all add: reading_holders)

end
