(* ===== verification/Btree.thy ===== *)
theory Btree
  imports Journal
begin

text \<open>
  The B-tree of exceptions: index nodes over leaves.  A path is the list of the
  nodes from the root down, each with the index \<open>pnext\<close> of the entry behind the
  one that was followed.  Buffers are named by their sectors.
\<close>

type_synonym etree_path = "(sector_t \<times> nat) list"

section \<open>Lookup\<close>

text \<open>The sector in entry \<open>i\<close>; the part of a node behind its entries is zero.\<close>

definition entry_sector :: "enode \<Rightarrow> nat \<Rightarrow> sector_t" where
  "entry_sector node i = (if i < node_count node then ie_sector (node_entries node ! i) else 0)"

definition entry_key :: "enode \<Rightarrow> nat \<Rightarrow> chunk_t" where
  "entry_key node i = (if i < node_count node then ie_key (node_entries node ! i) else 0)"

text \<open>The search of an index node: the key of the first entry is never looked at.\<close>

definition next_index :: "enode \<Rightarrow> chunk_t \<Rightarrow> nat" where
  "next_index node chunk =
     (case find (\<lambda>i. ie_key (node_entries node ! i) > chunk) [1..<node_count node] of
        Some i \<Rightarrow> i | None \<Rightarrow> max 1 (node_count node))"

fun probe_loop :: "'a superblock_scheme \<Rightarrow> chunk_t \<Rightarrow> nat \<Rightarrow> sector_t \<Rightarrow> etree_path \<Rightarrow>
    (sector_t \<times> etree_path) option" where
  "probe_loop sb chunk 0 sector path =
     (case bread sb sector of None \<Rightarrow> None | Some _ \<Rightarrow> Some (sector, path))"
| "probe_loop sb chunk (Suc levels) sector path =
     (case bread sb sector of
        None \<Rightarrow> None
      | Some nodebuf \<Rightarrow>
          (let node = buffer2node nodebuf; pnext = next_index node chunk
           in probe_loop sb chunk levels (entry_sector node (pnext - 1)) (path @ [(sector, pnext)])))"

definition probe :: "'a superblock_scheme \<Rightarrow> chunk_t \<Rightarrow> (sector_t \<times> etree_path) option" where
  "probe sb chunk = probe_loop sb chunk (etree_levels (image sb)) (etree_root (image sb)) []"

abbreviation node_at :: "'a superblock_scheme \<Rightarrow> sector_t \<Rightarrow> enode" where
  "node_at sb sector \<equiv> buffer2node (view sb sector)"

abbreviation leaf_at :: "'a superblock_scheme \<Rightarrow> sector_t \<Rightarrow> eleaf" where
  "leaf_at sb sector \<equiv> buffer2leaf (view sb sector)"

text \<open>Storing a modified block and marking its buffer dirty.\<close>

definition put_dirty :: "sector_t \<Rightarrow> block \<Rightarrow> 'a superblock_scheme \<Rightarrow> 'a superblock_scheme" where
  "put_dirty sector b sb = set_buffer_dirty sector (set_data sector b sb)"

section \<open>New blocks\<close>

definition new_block :: "'a superblock_scheme \<Rightarrow> sector_t option \<times> 'a superblock_scheme" where
  "new_block sb =
     (case alloc_metablock sb of
        (None, sb) \<Rightarrow> (None, sb)
      | (Some newchunk, sb) \<Rightarrow> (Some (newchunk * 2 ^ chunk_sectors_bits (metadata sb)), sb))"

definition new_leaf :: "'a superblock_scheme \<Rightarrow> sector_t option \<times> 'a superblock_scheme" where
  "new_leaf sb =
     (case new_block sb of
        (None, sb) \<Rightarrow> (None, sb)
      | (Some sector, sb) \<Rightarrow>
          (Some sector, put_dirty sector (LeafB (init_leaf no_leaf (allocsize (metadata sb)))) sb))"

definition new_node :: "'a superblock_scheme \<Rightarrow> sector_t option \<times> 'a superblock_scheme" where
  "new_node sb =
     (case new_block sb of
        (None, sb) \<Rightarrow> (None, sb)
      | (Some sector, sb) \<Rightarrow> (Some sector, put_dirty sector (NodeB \<lparr>node_entries = []\<rparr>) sb))"

section \<open>Insertion\<close>

definition insert_child :: "enode \<Rightarrow> nat \<Rightarrow> sector_t \<Rightarrow> chunk_t \<Rightarrow> enode" where
  "insert_child node p child childkey =
     node\<lparr>node_entries := take p (node_entries node) @ \<lparr>ie_key = childkey, ie_sector = child\<rparr> #
            drop p (node_entries node)\<rparr>"

definition new_root :: "sector_t \<Rightarrow> chunk_t \<Rightarrow> 'a superblock_scheme \<Rightarrow> errno option \<times> 'a superblock_scheme" where
  "new_root childsector childkey sb =
     (case new_node sb of
        (None, sb) \<Rightarrow> (Some ENOMEM, sb)
      | (Some newroot, sb) \<Rightarrow>
          (let root = \<lparr>node_entries = [\<lparr>ie_key = 0, ie_sector = etree_root (image sb)\<rparr>,
                                       \<lparr>ie_key = childkey, ie_sector = childsector\<rparr>]\<rparr>;
               sb = sb\<lparr>image := (image sb)\<lparr>etree_root := newroot, etree_levels := etree_levels (image sb) + 1\<rparr>\<rparr>
           in (None, put_dirty newroot (NodeB root) (set_sb_dirty sb))))"

text \<open>
  The loop that climbs the path, given bottom up, and inserts the new child;
  a full node is split and its second half becomes the child of the next level.
\<close>

fun insert_up :: "etree_path \<Rightarrow> sector_t \<Rightarrow> chunk_t \<Rightarrow> 'a superblock_scheme \<Rightarrow> errno option \<times> 'a superblock_scheme" where
  "insert_up [] childsector childkey sb = new_root childsector childkey sb"
| "insert_up ((sector, pnext) # path) childsector childkey sb =
     (let parent = node_at sb sector
      in if node_count parent < alloc_per_node (metadata sb) then
           (None, put_dirty sector (NodeB (insert_child parent pnext childsector childkey)) sb)
         else
           (let half = node_count parent div 2;
                newkey = entry_key parent half
            in case new_node sb of
                 (None, sb) \<Rightarrow> (Some ENOMEM, sb)
               | (Some newsector, sb) \<Rightarrow>
                   (let newnode = \<lparr>node_entries = drop half (node_entries parent)\<rparr>;
                        parent = \<lparr>node_entries = take half (node_entries parent)\<rparr>;
                        sb = (if pnext > half
                              then put_dirty newsector (NodeB (insert_child newnode (pnext - half) childsector childkey))
                                     (put_dirty sector (NodeB parent) sb)
                              else put_dirty sector (NodeB (insert_child parent pnext childsector childkey))
                                     (put_dirty newsector (NodeB newnode) sb))
                    in insert_up path newsector newkey sb)))"

definition add_exception_to_tree :: "sector_t \<Rightarrow> chunk_t \<Rightarrow> chunk_t \<Rightarrow> int \<Rightarrow> etree_path \<Rightarrow>
    'a superblock_scheme \<Rightarrow> errno option \<times> 'a superblock_scheme" where
  "add_exception_to_tree leafbuf target exception snapbit path sb =
     (case add_exception_to_leaf (leaf_at sb leafbuf) target exception snapbit (snapmask sb) of
        Inr leaf \<Rightarrow> (None, put_dirty leafbuf (LeafB leaf) sb)
      | Inl _ \<Rightarrow>
          (case new_leaf sb of
             (None, sb) \<Rightarrow> (Some ENOMEM, sb)
           | (Some childsector, sb) \<Rightarrow>
               (let (childkey, leaf, child) = split_leaf (leaf_at sb leafbuf) (leaf_at sb childsector);
                    sb = set_data childsector (LeafB child) (set_data leafbuf (LeafB leaf) sb);
                    (into, half) = (if target < childkey then (leafbuf, leaf) else (childsector, child))
                in case add_exception_to_leaf half target exception snapbit (snapmask sb) of
                     Inl _ \<Rightarrow> (Some ENOMEM, sb)
                   | Inr half \<Rightarrow>
                       (let sb = set_data into (LeafB half) sb;
                            sb = set_buffer_dirty childsector (set_buffer_dirty leafbuf sb)
                        in insert_up (rev path) childsector childkey sb))))"

section \<open>Traversal\<close>

text \<open>
  The walk over all leaves keeps the path as a stack, the deepest node first.
  Going down, each node on the stack is advanced past the entry that is
  followed.
\<close>

fun push_down :: "'a superblock_scheme \<Rightarrow> nat \<Rightarrow> etree_path \<Rightarrow> etree_path option" where
  "push_down sb 0 stack = Some stack"
| "push_down sb (Suc n) stack =
     (let (sector, stack) =
            (case stack of [] \<Rightarrow> (etree_root (image sb), [])
             | (node, p) # rest \<Rightarrow> (entry_sector (node_at sb node) p, (node, p + 1) # rest))
      in case bread sb sector of
           None \<Rightarrow> None
         | Some _ \<Rightarrow> push_down sb n ((sector, 0) # stack))"

text \<open>The flag tells whether all leaves could be read.\<close>

fun visit_leaves :: "'a superblock_scheme \<Rightarrow> (eleaf \<Rightarrow> 's \<Rightarrow> 's) \<Rightarrow> sector_t list \<Rightarrow> 's \<Rightarrow> bool \<times> 's" where
  "visit_leaves sb visit [] acc = (True, acc)"
| "visit_leaves sb visit (sector # sectors) acc =
     (case bread sb sector of
        None \<Rightarrow> (False, acc)
      | Some leafbuf \<Rightarrow> visit_leaves sb visit sectors (visit (buffer2leaf leafbuf) acc))"

fun pop_finished :: "'a superblock_scheme \<Rightarrow> etree_path \<Rightarrow> etree_path" where
  "pop_finished sb [] = []"
| "pop_finished sb ((sector, p) # stack) =
     (if p = node_count (node_at sb sector) then pop_finished sb stack else (sector, p) # stack)"

text \<open>The entries of the bottom node that are still to be visited.\<close>

definition rest_sectors :: "'a superblock_scheme \<Rightarrow> etree_path \<Rightarrow> sector_t list" where
  "rest_sectors sb stack =
     (case stack of [] \<Rightarrow> [] | (sector, p) # _ \<Rightarrow> map ie_sector (drop p (node_entries (node_at sb sector))))"

text \<open>
  One round: descend to the bottom, visit the leaves there, pop the finished
  nodes.  The first argument bounds the number of rounds; each round finishes
  one bottom node.  The result pairs the error, if any, with what the visits
  have computed so far.
\<close>

fun traverse_loop :: "nat \<Rightarrow> 'a superblock_scheme \<Rightarrow> (eleaf \<Rightarrow> 's \<Rightarrow> 's) \<Rightarrow> etree_path \<Rightarrow> 's \<Rightarrow>
    (errno option \<times> 's) run" where
  "traverse_loop 0 sb visit stack acc = Inl Rounds"
| "traverse_loop (Suc rounds) sb visit stack acc =
     (case push_down sb (max 1 (etree_levels (image sb) - length stack)) stack of
        None \<Rightarrow> Inr (Some EIO, acc)
      | Some stack \<Rightarrow>
          (case visit_leaves sb visit (rest_sectors sb stack) acc of
             (False, acc) \<Rightarrow> Inr (Some EIO, acc)
           | (True, acc) \<Rightarrow>
               (case pop_finished sb (tl stack) of
                  [] \<Rightarrow> Inr (None, acc)
                | stack \<Rightarrow> traverse_loop rounds sb visit stack acc)))"

definition traverse_tree_range :: "nat \<Rightarrow> 'a superblock_scheme \<Rightarrow> chunk_t \<Rightarrow> (eleaf \<Rightarrow> 's \<Rightarrow> 's) \<Rightarrow> 's \<Rightarrow>
    (errno option \<times> 's) run" where
  "traverse_tree_range rounds sb start visit acc =
     (if start = 0 then traverse_loop rounds sb visit [] acc
      else
        (case probe sb start of
           None \<Rightarrow> Inr (Some ENOMEM, acc)
         | Some (leafbuf, path) \<Rightarrow>
             (let acc = visit (leaf_at sb leafbuf) acc; stack = rev path
              in case visit_leaves sb visit (rest_sectors sb stack) acc of
                   (False, acc) \<Rightarrow> Inr (Some EIO, acc)
                 | (True, acc) \<Rightarrow>
                     (case pop_finished sb (tl stack) of
                        [] \<Rightarrow> Inr (None, acc)
                      | stack \<Rightarrow> traverse_loop rounds sb visit stack acc))))"

end
