(* ===== verification/Changelist.thy ===== *)
theory Changelist
  imports Btree
begin

text \<open>
  Lists of changed chunks (\<open>struct change_list\<close> of \<open>src/ddsnap/ddsnap.c\<close>) and
  how the server computes the difference of two snapshots and the sharing of
  chunks from the leaves of the tree.
\<close>

section \<open>Change lists\<close>

text \<open>\<open>cl_length\<close> is the number of entries the array has room for; memory is always available.\<close>

record change_list =
  cl_count :: nat
  cl_length :: nat
  cl_chunksize_bits :: nat
  src_snap :: nat
  tgt_snap :: nat
  cl_chunks :: "chunk_t list"

definition CHUNK_ARRAY_INIT :: nat where [simp]: "CHUNK_ARRAY_INIT = 1024"

definition init_change_list :: "nat \<Rightarrow> nat \<Rightarrow> nat \<Rightarrow> change_list" where
  "init_change_list bits src tgt =
     \<lparr>cl_count = 0, cl_length = CHUNK_ARRAY_INIT, cl_chunksize_bits = bits, src_snap = src, tgt_snap = tgt,
      cl_chunks = []\<rparr>"

definition append_change_list :: "chunk_t \<Rightarrow> change_list \<Rightarrow> change_list" where
  "append_change_list chunkaddr cl =
     (let cl = (if cl_count cl + 1 \<ge> cl_length cl then cl\<lparr>cl_length := cl_length cl * 2\<rparr> else cl)
      in cl\<lparr>cl_chunks := take (cl_count cl) (cl_chunks cl) @ [chunkaddr], cl_count := cl_count cl + 1\<rparr>)"

section \<open>Differences of snapshots\<close>

text \<open>The size of the target snapshot; if the tag occurs more than once, the last entry counts.\<close>

definition target_sectors :: "'a superblock_scheme \<Rightarrow> nat \<Rightarrow> nat" where
  "target_sectors sb tag =
     fold (\<lambda>s n. if snap_tag s = tag then snap_sectors s else n) (snaplist (image sb)) 0"

definition shares_differ :: "u64 \<Rightarrow> u64 \<Rightarrow> exception \<Rightarrow> bool" where
  "shares_differ mask1 mask2 p \<longleftrightarrow>
     (ex_share p AND mask2 = mask2) \<noteq> (ex_share p AND mask1 = mask1)"

definition changed_entry :: "'a superblock_scheme \<Rightarrow> u64 \<Rightarrow> u64 \<Rightarrow> nat \<Rightarrow> eleaf \<Rightarrow> nat \<Rightarrow> bool" where
  "changed_entry sb mask1 mask2 sectors leaf i \<longleftrightarrow>
     (\<exists>p\<in>set (exceptions leaf i). shares_differ mask1 mask2 p) \<and>
     (leaf_base_chunk leaf + leaf_rchunk leaf i) * 2 ^ chunk_sectors_bits (snapdata sb) < sectors"

definition gen_changelist_leaf :: "'a superblock_scheme \<Rightarrow> u64 \<Rightarrow> u64 \<Rightarrow> eleaf \<Rightarrow> change_list \<Rightarrow> change_list" where
  "gen_changelist_leaf sb mask1 mask2 leaf cl =
     (let sectors = target_sectors sb (tgt_snap cl)
      in if sectors = 0 then cl
         else
           fold (\<lambda>i cl. if changed_entry sb mask1 mask2 sectors leaf i
                        then append_change_list (leaf_base_chunk leaf + leaf_rchunk leaf i) cl else cl)
             [0..<leaf_count leaf] cl)"

section \<open>Sharing\<close>

function bit_count :: "u64 \<Rightarrow> nat" where
  "bit_count num = (if num = 0 then 0 else (if bit num 0 then 1 else 0) + bit_count (drop_bit 1 num))"
  by pat_completeness auto
termination
proof (relation "measure unat", goal_cases)
  case 1 then show ?case by simp
next
  case (2 num)
  then have "0 < unat num" by (simp add: unat_gt_0)
  then show ?case by (simp add: drop_bit_eq_div unat_div)
qed

declare bit_count.simps [simp del]

text \<open>
  The table counts, for each snapshot bit and each number of other snapshots,
  the exceptions shared by that many.  An exception with no share ends the
  process.
\<close>

definition count_share :: "exception \<Rightarrow> (nat \<Rightarrow> nat) run \<Rightarrow> (nat \<Rightarrow> nat) run" where
  "count_share p t =
     (case t of
        Inl f \<Rightarrow> Inl f
      | Inr table \<Rightarrow>
          if ex_share p = 0 then Inl Exit
          else
            (let share_count = bit_count (ex_share p) - 1
             in Inr (fold (\<lambda>b table. if ex_share p AND push_bit b 1 \<noteq> 0
                                     then table(MAX_SNAPSHOTS * b + share_count := table (MAX_SNAPSHOTS * b + share_count) + 1)
                                     else table) [0..<MAX_SNAPSHOTS] table)))"

definition calc_sharing :: "eleaf \<Rightarrow> (nat \<Rightarrow> nat) run \<Rightarrow> (nat \<Rightarrow> nat) run" where
  "calc_sharing leaf t =
     fold (\<lambda>i t. fold count_share (exceptions leaf i) t) [0..<leaf_count leaf] t"

end
