(* ===== verification/Btree_Rep.thy ===== *)
theory Btree_Rep
  imports Btree Leaf_Share Journal_Lemmas "HOL-Library.Multiset"
begin

text \<open>
  The blocks of the B-tree read as a tree.  \<open>rep\<close> says that the blocks at the
  sectors of a tree hold it, with all chunks below a node between two bounds
  and no node larger than \<open>m\<close> entries.  A path of the code is a context: the
  nodes above a subtree, each with the siblings to the left and to the right.
\<close>

section \<open>Trees\<close>

datatype etree = Tip sector_t | Branch sector_t "(chunk_t \<times> etree) list"

fun root :: "etree \<Rightarrow> sector_t" where
  "root (Tip s) = s"
| "root (Branch s cs) = s"

fun sectors :: "etree \<Rightarrow> sector_t list" where
  "sectors (Tip s) = [s]"
| "sectors (Branch s cs) = s # concat (map (\<lambda>(k, t). sectors t) cs)"

fun leaf_list :: "etree \<Rightarrow> sector_t list" where
  "leaf_list (Tip s) = [s]"
| "leaf_list (Branch s cs) = concat (map (\<lambda>(k, t). leaf_list t) cs)"

abbreviation kids_sectors :: "(chunk_t \<times> etree) list \<Rightarrow> sector_t list" where
  "kids_sectors cs \<equiv> concat (map (\<lambda>(k, t). sectors t) cs)"

abbreviation kids_leaves :: "(chunk_t \<times> etree) list \<Rightarrow> sector_t list" where
  "kids_leaves cs \<equiv> concat (map (\<lambda>(k, t). leaf_list t) cs)"

definition entry_of :: "chunk_t \<times> etree \<Rightarrow> index_entry" where
  "entry_of c = \<lparr>ie_key = fst c, ie_sector = root (snd c)\<rparr>"

definition node_of :: "(chunk_t \<times> etree) list \<Rightarrow> enode" where
  "node_of cs = \<lparr>node_entries = map entry_of cs\<rparr>"

text \<open>Children that divide an interval at their keys; the key of the first one is not looked at.\<close>

fun kids :: "(chunk_t \<Rightarrow> chunk_t \<Rightarrow> etree \<Rightarrow> bool) \<Rightarrow> chunk_t \<Rightarrow> chunk_t \<Rightarrow> (chunk_t \<times> etree) list \<Rightarrow> bool" where
  "kids R lo hi [] = False"
| "kids R lo hi [(k, t)] = (lo < hi \<and> R lo hi t)"
| "kids R lo hi ((k, t) # (k', t') # cs) = (lo < k' \<and> R lo k' t \<and> kids R k' hi ((k', t') # cs))"

definition leaf_ok :: "nat \<Rightarrow> chunk_t \<Rightarrow> chunk_t \<Rightarrow> eleaf \<Rightarrow> bool" where
  "leaf_ok bs lo hi leaf \<longleftrightarrow> wf_leaf bs leaf \<and> leaf_base_chunk leaf = 0 \<and> (\<forall>(k, es)\<in>set (leaf_abs leaf). lo \<le> k \<and> k < hi)"

fun rep :: "(sector_t \<Rightarrow> block) \<Rightarrow> nat \<Rightarrow> nat \<Rightarrow> nat \<Rightarrow> chunk_t \<Rightarrow> chunk_t \<Rightarrow> etree \<Rightarrow> bool" where
  "rep V m bs 0 lo hi t \<longleftrightarrow> (\<exists>s leaf. t = Tip s \<and> V s = LeafB leaf \<and> leaf_ok bs lo hi leaf)"
| "rep V m bs (Suc n) lo hi t \<longleftrightarrow>
     (\<exists>s cs. t = Branch s cs \<and> V s = NodeB (node_of cs) \<and> length cs \<le> m \<and> kids (rep V m bs n) lo hi cs)"

declare rep.simps [simp del]

lemma rep_0: "rep V m bs 0 lo hi t \<longleftrightarrow> (\<exists>s leaf. t = Tip s \<and> V s = LeafB leaf \<and> leaf_ok bs lo hi leaf)"
  by (simp add: rep.simps)

lemma rep_Suc: "rep V m bs (Suc n) lo hi t \<longleftrightarrow>
     (\<exists>s cs. t = Branch s cs \<and> V s = NodeB (node_of cs) \<and> length cs \<le> m \<and> kids (rep V m bs n) lo hi cs)"
  by (simp add: rep.simps)

section \<open>Children\<close>

lemma kids_less: "kids R lo hi cs \<Longrightarrow> lo < hi"
  by (induction R lo hi cs rule: kids.induct) auto

lemma kids_not_Nil: "kids R lo hi cs \<Longrightarrow> cs \<noteq> []"
  by auto

lemma kids_append:
  assumes "xs \<noteq> []" "ys \<noteq> []"
  shows "kids R lo hi (xs @ ys) \<longleftrightarrow> kids R lo (fst (hd ys)) xs \<and> kids R (fst (hd ys)) hi ys"
  using assms
proof (induction xs arbitrary: lo)
  case (Cons x xs)
  obtain k t where x: "x = (k, t)" by fastforce
  show ?case
  proof (cases xs)
    case Nil
    obtain k' t' ys' where "ys = (k', t') # ys'" using Cons.prems(2) by (cases ys) auto
    then show ?thesis by (simp add: x Nil)
  next
    case (Cons x' xs')
    obtain k' t' where x': "x' = (k', t')" by fastforce
    have "kids R l hi (xs @ ys) \<longleftrightarrow> kids R l (fst (hd ys)) xs \<and> kids R (fst (hd ys)) hi ys" for l
      using Cons.IH Cons.prems(2) Cons by simp
    then show ?thesis by (simp add: x Cons x')
  qed
qed simp

lemma kids_mono:
  assumes "kids R lo hi cs" "\<And>lo hi k t. (k, t) \<in> set cs \<Longrightarrow> R lo hi t \<Longrightarrow> R' lo hi t"
  shows "kids R' lo hi cs"
  using assms by (induction R lo hi cs rule: kids.induct) auto

lemma kids_key_irrelevant: "kids R lo hi ((k, t) # cs) = kids R lo hi ((k', t) # cs)"
  by (cases cs) auto

lemma kids_mem: "kids R lo hi cs \<Longrightarrow> (k, t) \<in> set cs \<Longrightarrow> \<exists>lo hi. R lo hi t"
  by (induction R lo hi cs rule: kids.induct) auto

text \<open>The representation depends on the blocks of the tree only.\<close>

lemma rep_cong:
  assumes "rep V m bs n lo hi t" "\<And>s. s \<in> set (sectors t) \<Longrightarrow> V' s = V s"
  shows "rep V' m bs n lo hi t"
  using assms
proof (induction n arbitrary: lo hi t)
  case 0 then show ?case by (auto simp: rep_0)
next
  case (Suc n)
  obtain s cs where t: "t = Branch s cs" "V s = NodeB (node_of cs)" "length cs \<le> m" "kids (rep V m bs n) lo hi cs"
    using Suc.prems(1) by (auto simp: rep_Suc)
  have "kids (rep V' m bs n) lo hi cs"
  proof (rule kids_mono [OF t(4)])
    fix lo hi k t'
    assume c: "(k, t') \<in> set cs" and r: "rep V m bs n lo hi t'"
    show "rep V' m bs n lo hi t'"
    proof (rule Suc.IH [OF r])
      fix x assume "x \<in> set (sectors t')"
      then have "x \<in> set (sectors t)" using c by (force simp: t(1))
      then show "V' x = V x" by (rule Suc.prems(2))
    qed
  qed
  moreover have "V' s = V s" by (rule Suc.prems(2)) (simp add: t(1))
  ultimately show ?case using t by (auto simp: rep_Suc)
qed

lemma root_in_sectors [simp]: "root t \<in> set (sectors t)"
  by (cases t) auto

lemma leaf_list_sectors: "set (leaf_list t) \<subseteq> set (sectors t)"
  by (induction t) force+

section \<open>Contents\<close>

definition tree_map :: "(sector_t \<Rightarrow> block) \<Rightarrow> sector_t list \<Rightarrow> aleaf" where
  "tree_map V ls = concat (map (\<lambda>s. leaf_abs (buffer2leaf (V s))) ls)"

lemma tree_map_append [simp]: "tree_map V (xs @ ys) = tree_map V xs @ tree_map V ys"
  by (simp add: tree_map_def)

lemma tree_map_Cons: "tree_map V (s # ls) = leaf_abs (buffer2leaf (V s)) @ tree_map V ls"
  by (simp add: tree_map_def)

lemma tree_map_cong: "(\<And>s. s \<in> set ls \<Longrightarrow> V' s = V s) \<Longrightarrow> tree_map V' ls = tree_map V ls"
  by (simp add: tree_map_def cong: map_cong)

definition keys_in :: "chunk_t \<Rightarrow> chunk_t \<Rightarrow> aleaf \<Rightarrow> bool" where
  "keys_in lo hi al \<longleftrightarrow> (\<forall>(k, es)\<in>set al. lo \<le> k \<and> k < hi)"

lemma keys_in_simps [simp]:
  "keys_in lo hi []" "keys_in lo hi (xs @ ys) \<longleftrightarrow> keys_in lo hi xs \<and> keys_in lo hi ys"
  by (auto simp: keys_in_def)

lemma keys_in_mono: "keys_in lo hi al \<Longrightarrow> lo' \<le> lo \<Longrightarrow> hi \<le> hi' \<Longrightarrow> keys_in lo' hi' al"
  by (fastforce simp: keys_in_def)

lemma sorted_keys_append:
  "sorted_wrt (<) (map fst xs) \<Longrightarrow> sorted_wrt (<) (map fst ys) \<Longrightarrow> keys_in lo mid xs \<Longrightarrow> keys_in mid hi ys \<Longrightarrow>
   sorted_wrt (<) (map fst (xs @ ys))"
  by (fastforce simp: sorted_wrt_append keys_in_def)

lemma kids_contents:
  assumes "kids R lo hi cs"
    and "\<And>lo hi k t. (k, t) \<in> set cs \<Longrightarrow> R lo hi t \<Longrightarrow>
      keys_in lo hi (tree_map V (leaf_list t)) \<and> sorted_wrt (<) (map fst (tree_map V (leaf_list t)))"
  shows "keys_in lo hi (tree_map V (kids_leaves cs)) \<and> sorted_wrt (<) (map fst (tree_map V (kids_leaves cs)))"
  using assms
proof (induction R lo hi cs rule: kids.induct)
  case (3 R lo hi k t k' t' cs)
  have ih: "keys_in k' hi (tree_map V (kids_leaves ((k', t') # cs))) \<and>
      sorted_wrt (<) (map fst (tree_map V (kids_leaves ((k', t') # cs))))"
    using 3 by (intro "3.IH") auto
  have t: "keys_in lo k' (tree_map V (leaf_list t))" "sorted_wrt (<) (map fst (tree_map V (leaf_list t)))"
    using 3 by auto
  have "lo < k'" "k' < hi" using 3(2) kids_less by auto
  then have "keys_in lo hi (tree_map V (leaf_list t))" "keys_in lo hi (tree_map V (kids_leaves ((k', t') # cs)))"
    using t ih by (auto intro: keys_in_mono)
  moreover have "sorted_wrt (<) (map fst (tree_map V (leaf_list t) @ tree_map V (kids_leaves ((k', t') # cs))))"
    using t ih by (blast intro: sorted_keys_append)
  ultimately show ?case by simp
qed auto

lemma rep_contents:
  "rep V m bs n lo hi t \<Longrightarrow>
   keys_in lo hi (tree_map V (leaf_list t)) \<and> sorted_wrt (<) (map fst (tree_map V (leaf_list t)))"
proof (induction n arbitrary: lo hi t)
  case 0
  then show ?case by (auto simp: rep_0 leaf_ok_def tree_map_def keys_in_def wf_leaf_simps(6))
next
  case (Suc n)
  then obtain s cs where t: "t = Branch s cs" "kids (rep V m bs n) lo hi cs" by (auto simp: rep_Suc)
  have "keys_in lo hi (tree_map V (kids_leaves cs)) \<and> sorted_wrt (<) (map fst (tree_map V (kids_leaves cs)))"
    by (rule kids_contents [OF t(2)]) (rule Suc.IH)
  then show ?case by (simp add: t(1))
qed

section \<open>Contexts\<close>

text \<open>A node above a subtree: its sector, the children to the left, the key of the subtree, the children to the right.\<close>

type_synonym frame = "sector_t \<times> (chunk_t \<times> etree) list \<times> chunk_t \<times> (chunk_t \<times> etree) list"

fun plug :: "etree \<Rightarrow> frame list \<Rightarrow> etree" where
  "plug t [] = t"
| "plug t ((s, ls, k, rs) # ctx) = plug (Branch s (ls @ (k, t) # rs)) ctx"

definition path_of :: "frame list \<Rightarrow> etree_path" where
  "path_of ctx = map (\<lambda>(s, ls, k, rs). (s, Suc (length ls))) ctx"

definition left_ok :: "(chunk_t \<Rightarrow> chunk_t \<Rightarrow> etree \<Rightarrow> bool) \<Rightarrow> chunk_t \<Rightarrow> (chunk_t \<times> etree) list \<Rightarrow> chunk_t \<Rightarrow> chunk_t \<Rightarrow> bool" where
  "left_ok R lo' ls k lo \<longleftrightarrow> (if ls = [] then lo = lo' else lo = k \<and> kids R lo' k ls)"

definition right_ok :: "(chunk_t \<Rightarrow> chunk_t \<Rightarrow> etree \<Rightarrow> bool) \<Rightarrow> chunk_t \<Rightarrow> (chunk_t \<times> etree) list \<Rightarrow> chunk_t \<Rightarrow> bool" where
  "right_ok R hi rs hi' \<longleftrightarrow> (if rs = [] then hi = hi' else hi = fst (hd rs) \<and> kids R hi hi' rs)"

text \<open>
  The context of a subtree with root \<open>r\<close> and level \<open>n\<close> whose chunks are
  between \<open>lo\<close> and \<open>hi\<close>, in a tree with the bounds \<open>LO\<close> and \<open>HI\<close>.
\<close>

fun ctx_ok :: "(sector_t \<Rightarrow> block) \<Rightarrow> nat \<Rightarrow> nat \<Rightarrow> nat \<Rightarrow> chunk_t \<Rightarrow> chunk_t \<Rightarrow> sector_t \<Rightarrow> frame list \<Rightarrow>
    chunk_t \<Rightarrow> chunk_t \<Rightarrow> bool" where
  "ctx_ok V m bs n lo hi r [] LO HI \<longleftrightarrow> lo = LO \<and> hi = HI"
| "ctx_ok V m bs n lo hi r ((s, ls, k, rs) # ctx) LO HI \<longleftrightarrow>
     (\<exists>lo' hi'. V s = NodeB (node_of (ls @ (k, Tip r) # rs)) \<and> length ls + length rs < m \<and>
        left_ok (rep V m bs n) lo' ls k lo \<and> right_ok (rep V m bs n) hi rs hi' \<and>
        ctx_ok V m bs (Suc n) lo' hi' s ctx LO HI)"

lemma kids_plug:
  assumes "left_ok R lo' ls k lo" "right_ok R hi rs hi'" "kids R lo hi mid" "fst (hd mid) = k"
  shows "kids R lo' hi' (ls @ mid @ rs)"
proof -
  have m: "mid \<noteq> []" using assms(3) by auto
  have "kids R lo hi' (mid @ rs)"
    using assms(2,3) m by (auto simp: right_ok_def kids_append split: if_splits)
  then show ?thesis
    using assms(1,4) m by (auto simp: left_ok_def kids_append split: if_splits)
qed

lemma kids_unplug:
  assumes "kids R lo' hi' (ls @ (k, t) # rs)"
  obtains lo hi where "left_ok R lo' ls k lo" "right_ok R hi rs hi'" "lo < hi" "R lo hi t"
proof -
  obtain lo where l: "left_ok R lo' ls k lo" "kids R lo hi' ((k, t) # rs)"
    using assms by (cases "ls = []") (auto simp: left_ok_def kids_append)
  have "kids R lo hi' ([(k, t)] @ rs)" using l(2) by simp
  then obtain hi where "right_ok R hi rs hi'" "kids R lo hi [(k, t)]"
    by (cases "rs = []") (auto simp: right_ok_def kids_append simp del: append_Cons append_Nil)
  with l(1) show thesis using that by simp
qed

lemma node_of_root: "node_of (ls @ (k, t) # rs) = node_of (ls @ (k, Tip (root t)) # rs)"
  by (simp add: node_of_def entry_of_def)

lemma rep_plug:
  "ctx_ok V m bs n lo hi (root t) ctx LO HI \<Longrightarrow> rep V m bs n lo hi t \<Longrightarrow> lo < hi \<Longrightarrow>
   rep V m bs (n + length ctx) LO HI (plug t ctx)"
proof (induction ctx arbitrary: n lo hi t)
  case (Cons f ctx)
  obtain s ls k rs where f: "f = (s, ls, k, rs)" by (cases f) auto
  obtain lo' hi' where c: "V s = NodeB (node_of (ls @ (k, Tip (root t)) # rs))" "length ls + length rs < m"
    "left_ok (rep V m bs n) lo' ls k lo" "right_ok (rep V m bs n) hi rs hi'"
    "ctx_ok V m bs (Suc n) lo' hi' s ctx LO HI"
    using Cons.prems(1) by (auto simp: f)
  have k: "kids (rep V m bs n) lo' hi' (ls @ (k, t) # rs)"
    using kids_plug [OF c(3,4), of "[(k, t)]"] Cons.prems(2,3) by simp
  then have "rep V m bs (Suc n) lo' hi' (Branch s (ls @ (k, t) # rs))"
    using c(1,2) by (simp add: rep_Suc node_of_root [of ls k t rs])
  with Cons.IH [OF _ this kids_less [OF k]] c(5) show ?case by (simp add: f)
qed simp

section \<open>Search in a node\<close>

lemma find_takeWhile:
  "a \<le> b \<Longrightarrow> (case find P [a..<b] of Some i \<Rightarrow> i | None \<Rightarrow> b) = a + length (takeWhile (\<lambda>i. \<not> P i) [a..<b])"
proof (induction "b - a" arbitrary: a)
  case (Suc x)
  then have "a < b" "[a..<b] = a # [Suc a..<b]" by (auto simp: upt_conv_Cons)
  moreover have "(case find P [Suc a..<b] of Some i \<Rightarrow> i | None \<Rightarrow> b) =
      Suc a + length (takeWhile (\<lambda>i. \<not> P i) [Suc a..<b])"
    by (rule Suc.hyps(1)) (use Suc in auto)
  ultimately show ?case by (auto split: option.splits)
qed auto

lemma next_index_eq:
  assumes "cs \<noteq> []"
  shows "next_index (node_of cs) chunk = Suc (length (takeWhile (\<lambda>c. fst c \<le> chunk) (tl cs)))"
proof -
  have "tl cs = map ((!) cs) [1..<length cs]"
    using assms by (intro nth_equalityI) (auto simp: nth_tl)
  then have "length (takeWhile (\<lambda>c. fst c \<le> chunk) (tl cs)) =
      length (takeWhile (\<lambda>i. \<not> chunk < fst (cs ! i)) [1..<length cs])"
    by (simp add: takeWhile_map comp_def not_less)
  moreover have "find (\<lambda>i. chunk < ie_key (map entry_of cs ! i)) [1..<length cs] =
      find (\<lambda>i. chunk < fst (cs ! i)) [1..<length cs]"
    by (rule find_cong) (auto simp: entry_of_def)
  moreover have "max 1 (length cs) = length cs" "1 \<le> length cs" using assms by (cases cs; simp)+
  ultimately show ?thesis
    using find_takeWhile [of 1 "length cs" "\<lambda>i. chunk < fst (cs ! i)"]
    by (simp add: next_index_def node_of_def node_count_def max_def cong: option.case_cong)
qed

text \<open>The entry the search follows leads to the child that covers the chunk.\<close>

lemma kids_find:
  assumes "kids R lo' hi' cs" "lo' \<le> chunk" "chunk < hi'"
  obtains ls k t rs lo hi where "cs = ls @ (k, t) # rs" "next_index (node_of cs) chunk = Suc (length ls)"
    "left_ok R lo' ls k lo" "right_ok R hi rs hi'" "R lo hi t" "lo \<le> chunk" "chunk < hi"
proof -
  obtain c cs' where cs: "cs = c # cs'" using assms(1) by (cases cs) auto
  define n where "n = length (takeWhile (\<lambda>c. fst c \<le> chunk) cs')"
  let ?ls = "take n cs" and ?rs = "drop n cs'"
  have n: "n \<le> length cs'" unfolding n_def by (rule length_takeWhile_le)
  obtain k t where kt: "cs ! n = (k, t)" by fastforce
  have split: "cs = ?ls @ (k, t) # ?rs"
    using n id_take_nth_drop [of n cs] unfolding kt by (simp add: cs)
  obtain lo hi where u: "left_ok R lo' ?ls k lo" "right_ok R hi ?rs hi'" "lo < hi" "R lo hi t"
    using assms(1) kids_unplug split by metis
  have "lo \<le> chunk"
  proof (cases n)
    case 0 then show ?thesis using u(1) assms(2) by (simp add: left_ok_def)
  next
    case (Suc i)
    then have i: "i < length (takeWhile (\<lambda>c. fst c \<le> chunk) cs')" by (simp add: n_def)
    from takeWhile_nth [OF i] nth_mem [OF i] have "fst (cs' ! i) \<le> chunk"
      by (metis (mono_tags, lifting) set_takeWhileD)
    moreover have "lo = k" using u(1) Suc cs by (auto simp: left_ok_def)
    ultimately show ?thesis using kt Suc by (simp add: cs)
  qed
  moreover have "chunk < hi"
  proof (cases "?rs = []")
    case True then show ?thesis using u(2) assms(3) by (simp add: right_ok_def)
  next
    case False
    then have "n < length cs'" by simp
    then have "\<not> fst (cs' ! n) \<le> chunk" unfolding n_def by (rule nth_length_takeWhile)
    then show ?thesis using u(2) False by (auto simp: right_ok_def hd_drop_conv_nth)
  qed
  moreover have "next_index (node_of cs) chunk = Suc (length ?ls)"
    using n by (simp add: next_index_eq cs n_def [symmetric])
  ultimately show thesis using that split u by metis
qed

section \<open>Lookup\<close>

text \<open>\<open>probe\<close> reaches the leaf whose bounds enclose the chunk, along the path of its context.\<close>

lemma probe_loop_rep:
  assumes "rep (view sb) m bs n lo hi t" "ctx_ok (view sb) m bs n lo hi (root t) ctx LO HI"
    and "lo \<le> chunk" "chunk < hi" "\<forall>s\<in>set (sectors t). \<not> bad_sector sb s"
  shows "\<exists>s lo' hi' ctx'. probe_loop sb chunk n (root t) (rev (path_of ctx)) = Some (s, rev (path_of ctx')) \<and>
    ctx_ok (view sb) m bs 0 lo' hi' s ctx' LO HI \<and> rep (view sb) m bs 0 lo' hi' (Tip s) \<and> lo' \<le> chunk \<and> chunk < hi' \<and>
    plug (Tip s) ctx' = plug t ctx \<and> length ctx' = n + length ctx"
  using assms
proof (induction n arbitrary: lo hi t ctx)
  case 0
  then obtain s where "t = Tip s" by (auto simp: rep_0)
  with 0 show ?case by (auto simp: bread_SomeI)
next
  case (Suc n)
  obtain s cs where t: "t = Branch s cs" "view sb s = NodeB (node_of cs)" "length cs \<le> m" "kids (rep (view sb) m bs n) lo hi cs"
    using Suc.prems(1) by (auto simp: rep_Suc)
  obtain ls k c rs lo' hi' where f: "cs = ls @ (k, c) # rs" "next_index (node_of cs) chunk = Suc (length ls)"
    "left_ok (rep (view sb) m bs n) lo ls k lo'" "right_ok (rep (view sb) m bs n) hi' rs hi"
    "rep (view sb) m bs n lo' hi' c" "lo' \<le> chunk" "chunk < hi'"
    using kids_find [OF t(4) Suc.prems(3,4)] by metis
  have c: "ctx_ok (view sb) m bs n lo' hi' (root c) ((s, ls, k, rs) # ctx) LO HI"
    using f(3,4) t(2,3) Suc.prems(2) by (auto simp: t(1) f(1) node_of_root [of ls k c rs])
  have "entry_sector (node_of cs) (length ls) = root c"
    by (simp add: entry_sector_def node_of_def node_count_def f(1) entry_of_def nth_append)
  moreover have "bread sb s = Some (NodeB (node_of cs))" using Suc.prems(5) t(2) by (simp add: t(1) bread_SomeI)
  ultimately have "probe_loop sb chunk (Suc n) (root t) (rev (path_of ctx)) =
      probe_loop sb chunk n (root c) (rev (path_of ((s, ls, k, rs) # ctx)))"
    using f(2) by (simp add: t(1) path_of_def)
  moreover have "\<forall>x\<in>set (sectors c). \<not> bad_sector sb x" using Suc.prems(5) by (auto simp: t(1) f(1))
  ultimately show ?case using Suc.IH [OF f(5) c f(6,7)] by (simp add: t(1) f(1))
qed

text \<open>A path that \<open>probe\<close> has found, with the leaf it leads to.\<close>

lemma probe_rep:
  assumes "rep (view sb) m bs (etree_levels (image sb)) LO HI t" "root t = etree_root (image sb)"
    and "LO \<le> chunk" "chunk < HI" "\<forall>s\<in>set (sectors t). \<not> bad_sector sb s"
  obtains s lo hi ctx where "probe sb chunk = Some (s, rev (path_of ctx))" "t = plug (Tip s) ctx"
    "ctx_ok (view sb) m bs 0 lo hi s ctx LO HI" "rep (view sb) m bs 0 lo hi (Tip s)" "lo \<le> chunk" "chunk < hi"
    "length ctx = etree_levels (image sb)"
  using probe_loop_rep [OF assms(1) _ assms(3-5), of "[]" LO HI] assms(2)
  by (auto simp: probe_def path_of_def)

section \<open>Sectors and contents in context\<close>

fun ctx_sectors :: "frame list \<Rightarrow> sector_t list" where
  "ctx_sectors [] = []"
| "ctx_sectors ((s, ls, k, rs) # ctx) = s # kids_sectors ls @ kids_sectors rs @ ctx_sectors ctx"

fun ctx_left :: "frame list \<Rightarrow> sector_t list" where
  "ctx_left [] = []"
| "ctx_left ((s, ls, k, rs) # ctx) = ctx_left ctx @ kids_leaves ls"

fun ctx_right :: "frame list \<Rightarrow> sector_t list" where
  "ctx_right [] = []"
| "ctx_right ((s, ls, k, rs) # ctx) = kids_leaves rs @ ctx_right ctx"

lemma mset_sectors_plug: "mset (sectors (plug t ctx)) = mset (sectors t @ ctx_sectors ctx)"
  by (induction t ctx rule: plug.induct) (auto simp: ac_simps)

lemmas set_sectors_plug = mset_eq_setD [OF mset_sectors_plug, unfolded set_append]
  and distinct_sectors_plug = mset_eq_imp_distinct_iff [OF mset_sectors_plug]

lemma leaf_list_plug: "leaf_list (plug t ctx) = ctx_left ctx @ leaf_list t @ ctx_right ctx"
  by (induction t ctx rule: plug.induct) auto

lemma ctx_leaves_sectors: "set (ctx_left ctx) \<union> set (ctx_right ctx) \<subseteq> set (ctx_sectors ctx)"
  using leaf_list_sectors by (induction ctx rule: ctx_sectors.induct) fastforce+

lemma kids_leaves_sectors: "set (kids_leaves cs) \<subseteq> set (kids_sectors cs)"
  using leaf_list_sectors by fastforce

lemma frames_sectors: "fst ` set ctx \<subseteq> set (ctx_sectors ctx)"
  by (induction ctx rule: ctx_sectors.induct) auto

lemma frames_not_leaves:
  "distinct (ctx_sectors ctx) \<Longrightarrow> fst ` set ctx \<inter> (set (ctx_left ctx) \<union> set (ctx_right ctx)) = {}"
proof (induction ctx rule: ctx_sectors.induct)
  case (2 s ls k rs ctx)
  let ?K = "set (kids_sectors ls) \<union> set (kids_sectors rs)" and ?L = "set (kids_leaves ls) \<union> set (kids_leaves rs)"
  let ?C = "set (ctx_left ctx) \<union> set (ctx_right ctx)"
  have ih: "fst ` set ctx \<inter> ?C = {}" by (rule "2.IH") (use "2.prems" in simp)
  have d: "s \<notin> ?K" "s \<notin> set (ctx_sectors ctx)" "set (ctx_sectors ctx) \<inter> ?K = {}"
    using "2.prems" by (simp_all only: ctx_sectors.simps distinct.simps distinct_append set_append) blast+
  have sub: "?L \<subseteq> ?K" "?C \<subseteq> set (ctx_sectors ctx)" "fst ` set ctx \<subseteq> set (ctx_sectors ctx)"
    using kids_leaves_sectors [of ls] kids_leaves_sectors [of rs] ctx_leaves_sectors frames_sectors by blast+
  have f: "fst ` set ((s, ls, k, rs) # ctx) = insert s (fst ` set ctx)" by simp
  have c: "set (ctx_left ((s, ls, k, rs) # ctx)) \<union> set (ctx_right ((s, ls, k, rs) # ctx)) = ?C \<union> ?L"
    unfolding ctx_left.simps ctx_right.simps set_append by blast
  show ?case unfolding f c using ih d sub by blast
qed simp

lemma ctx_ok_cong:
  assumes "ctx_ok V m bs n lo hi r ctx LO HI" "\<And>s. s \<in> set (ctx_sectors ctx) \<Longrightarrow> V' s = V s"
  shows "ctx_ok V' m bs n lo hi r ctx LO HI"
  using assms
proof (induction ctx arbitrary: n lo hi r)
  case (Cons f ctx)
  obtain s ls k rs where f: "f = (s, ls, k, rs)" by (cases f) auto
  have r: "rep V' m bs n a b t" if "rep V m bs n a b t" "(x, t) \<in> set ls \<union> set rs" for a b x t
  proof (rule rep_cong [OF that(1)])
    fix y assume "y \<in> set (sectors t)"
    with that(2) have "y \<in> set (ctx_sectors (f # ctx))" by (auto simp: f)
    then show "V' y = V y" by (rule Cons.prems(2))
  qed
  have "kids (rep V' m bs n) a b cs" if "kids (rep V m bs n) a b cs" "set cs \<subseteq> set ls \<union> set rs" for a b cs
    by (rule kids_mono [OF that(1)]) (use that(2) r in blast)
  moreover have "V' s = V s" by (rule Cons.prems(2)) (simp add: f)
  moreover have "ctx_ok V' m bs (Suc n) a b s ctx LO HI" if "ctx_ok V m bs (Suc n) a b s ctx LO HI" for a b
    by (rule Cons.IH [OF that], rule Cons.prems(2)) (simp add: f)
  ultimately show ?case using Cons.prems(1) by (auto simp: f left_ok_def right_ok_def split: if_splits) blast+
qed simp

text \<open>The chunks to the left of a subtree are below its bounds, those to the right above.\<close>

lemma kids_rep_contents:
  "kids (rep V m bs n) lo hi cs \<Longrightarrow> keys_in lo hi (tree_map V (kids_leaves cs))"
  using kids_contents rep_contents by blast

lemma ctx_contents:
  "ctx_ok V m bs n lo hi r ctx LO HI \<Longrightarrow> lo < hi \<Longrightarrow>
   keys_in LO lo (tree_map V (ctx_left ctx)) \<and> keys_in hi HI (tree_map V (ctx_right ctx)) \<and> LO \<le> lo \<and> hi \<le> HI"
proof (induction ctx arbitrary: n lo hi r)
  case Nil then show ?case by (simp add: tree_map_def)
next
  case (Cons f ctx)
  obtain s ls k rs where f: "f = (s, ls, k, rs)" by (cases f) auto
  obtain lo' hi' where c: "left_ok (rep V m bs n) lo' ls k lo" "right_ok (rep V m bs n) hi rs hi'"
    "ctx_ok V m bs (Suc n) lo' hi' s ctx LO HI"
    using Cons.prems(1) by (auto simp: f)
  have le: "lo' \<le> lo" "hi \<le> hi'" using c(1,2) kids_less by (fastforce simp: left_ok_def right_ok_def split: if_splits)+
  then have "lo' < hi'" using Cons.prems(2) by simp
  note ih = Cons.IH [OF c(3) this]
  have l: "keys_in lo' lo (tree_map V (kids_leaves ls))"
    using c(1) kids_rep_contents by (fastforce simp: left_ok_def tree_map_def split: if_splits)
  have r: "keys_in hi hi' (tree_map V (kids_leaves rs))"
    using c(2) kids_rep_contents by (fastforce simp: right_ok_def tree_map_def split: if_splits)
  show ?case
    using ih l r le by (auto simp: f elim!: keys_in_mono)
qed

lemma alist_upd_middle:
  assumes "keys_in LO lo pre" "keys_in hi HI post" "lo \<le> k" "k < hi" "keys_in lo hi mid"
  shows "alist_upd k f (pre @ mid @ post) = pre @ alist_upd k f mid @ post"
proof -
  have "alist_upd k f (mid @ post) = alist_upd k f mid @ post"
    using assms(2,4) by (induction mid) (cases post; fastforce simp: keys_in_def)+
  moreover have "alist_upd k f (pre @ xs) = pre @ alist_upd k f xs" for xs
    using assms(1,3) by (induction pre) (auto simp: keys_in_def)
  ultimately show ?thesis by simp
qed

end
