(* ===== verification/Btree_Insert.thy ===== *)
theory Btree_Insert
  imports Btree_Rep Alloc_Lemmas
begin

text \<open>
  Insertion into the tree.  \<open>world sb S\<close> says that the metadata allocator is
  consistent, that the blocks \<open>S\<close> are allocated to the tree, and that the
  allocation bitmap lies in allocated chunks of its own: no new block hits the
  tree or the bitmap.
\<close>

section \<open>Blocks of the tree\<close>

definition chunk_sector :: "'a superblock_scheme \<Rightarrow> chunk_t \<Rightarrow> sector_t" where
  "chunk_sector sb c = c * 2 ^ chunk_sectors_bits (metadata sb)"

definition bitmap_area :: "'a superblock_scheme \<Rightarrow> sector_t set" where
  "bitmap_area sb = (\<lambda>i. bitmap_base (asi sb Meta) + chunk_sector sb i) ` {..<bitmap_blocks (asi sb Meta)}"

definition owned :: "'a superblock_scheme \<Rightarrow> sector_t \<Rightarrow> bool" where
  "owned sb s \<longleftrightarrow> (\<exists>c<chunks (asi sb Meta). s = chunk_sector sb c \<and> in_use sb Meta c) \<and> s \<notin> bitmap_area sb"

definition world :: "'a superblock_scheme \<Rightarrow> sector_t set \<Rightarrow> bool" where
  "world sb S \<longleftrightarrow> counted sb Meta \<and> (\<forall>s\<in>S. owned sb s) \<and>
     (\<forall>c<chunks (asi sb Meta). chunk_sector sb c \<in> bitmap_area sb \<longrightarrow> in_use sb Meta c) \<and>
     (\<forall>c<chunks (asi sb Meta). \<not> bad_sector sb (chunk_sector sb c))"

lemma world_readable: "world sb S \<Longrightarrow> s \<in> S \<Longrightarrow> \<not> bad_sector sb s"
  by (auto simp: world_def owned_def)

lemma world_counted: "world sb S \<Longrightarrow> counted sb Meta"
  by (simp add: world_def)

lemma world_mono: "world sb S \<Longrightarrow> T \<subseteq> S \<Longrightarrow> world sb T"
  by (auto simp: world_def)

lemma chunk_sector_inj [simp]: "chunk_sector sb c = chunk_sector sb d \<longleftrightarrow> c = d"
  by (simp add: chunk_sector_def)

lemma bitmap_sector_area:
  assumes "c < bitmap_blocks (asi sb Meta) * 2 ^ bitmap_shift sb"
  shows "bitmap_sector sb Meta c \<in> bitmap_area sb"
proof -
  have "c div 2 ^ bitmap_shift sb < bitmap_blocks (asi sb Meta)"
    using assms by (simp add: less_mult_imp_div_less)
  then show ?thesis by (auto simp: bitmap_sector_def bitmap_area_def chunk_sector_def)
qed

text \<open>The allocator does not see what happens outside its bitmap.\<close>

definition same_alloc :: "'a superblock_scheme \<Rightarrow> 'a superblock_scheme \<Rightarrow> bool" where
  "same_alloc sb sb' \<longleftrightarrow> metadata sb' = metadata sb \<and> asi sb' Meta = asi sb Meta \<and> bad_sector sb' = bad_sector sb \<and>
     deferred_alloc sb' = deferred_alloc sb \<and> defer_range sb' = defer_range sb \<and> snapmask sb' = snapmask sb \<and>
     snapdata sb' = snapdata sb \<and> superblock.more sb' = superblock.more sb \<and>
     (\<forall>s\<in>bitmap_area sb. view sb' s = view sb s)"

lemma same_alloc_simps:
  assumes "same_alloc sb sb'"
  shows "chunk_sector sb' = chunk_sector sb" "bitmap_area sb' = bitmap_area sb" "bitmap_shift sb' = bitmap_shift sb"
    "bitmap_sector sb' Meta = bitmap_sector sb Meta" "asi sb' Meta = asi sb Meta" "metadata sb' = metadata sb"
    "bad_sector sb' = bad_sector sb"
  using assms
  by (auto simp: same_alloc_def chunk_sector_def [abs_def] bitmap_area_def bitmap_shift_def bitmap_sector_def [abs_def])

lemma same_alloc_in_use:
  assumes "same_alloc sb sb'" "c < bitmap_blocks (asi sb Meta) * 2 ^ bitmap_shift sb"
  shows "in_use sb' Meta c = in_use sb Meta c" "chunk_used sb' Meta c = chunk_used sb Meta c"
proof -
  have v: "view sb' (bitmap_sector sb Meta c) = view sb (bitmap_sector sb Meta c)"
    using assms(1) bitmap_sector_area [OF assms(2)] by (simp add: same_alloc_def)
  show u: "chunk_used sb' Meta c = chunk_used sb Meta c"
    by (simp add: chunk_used_def same_alloc_simps [OF assms(1)] v)
  show "in_use sb' Meta c = in_use sb Meta c"
    using assms(1) by (simp add: in_use_def u is_deferred_alloc_def same_alloc_def)
qed

lemma padding_in_bitmap:
  assumes "wf_alloc sb sp" "c < 8 * ((chunks (asi sb sp) + 7) div 8)"
  shows "c < bitmap_blocks (asi sb sp) * 2 ^ bitmap_shift sb"
proof -
  have "chunks (asi sb sp) \<le> bitmap_blocks (asi sb sp) * 2 ^ bitmap_shift sb" using assms(1) by (simp add: wf_alloc_def)
  then have "chunks (asi sb sp) \<le> 8 * (bitmap_blocks (asi sb sp) * allocsize (metadata sb))"
    unfolding shift_allocsize [OF assms(1)] by simp
  then have "(chunks (asi sb sp) + 7) div 8 \<le> bitmap_blocks (asi sb sp) * allocsize (metadata sb)" by linarith
  with assms(2) shift_allocsize [OF assms(1)] show ?thesis by simp
qed

lemma same_alloc_counted:
  assumes s: "same_alloc sb sb'" and c: "counted sb Meta"
  shows "counted sb' Meta"
proof -
  have wf: "wf_alloc sb Meta" using c by (simp add: counted_def)
  have le: "chunks (asi sb Meta) \<le> bitmap_blocks (asi sb Meta) * 2 ^ bitmap_shift sb"
    using wf by (simp add: wf_alloc_def)
  have ok: "bitmap_ok sb' Meta i" if "i < bitmap_blocks (asi sb Meta)" "bitmap_ok sb Meta i" for i
  proof -
    have "bitmap_base (asi sb Meta) + i * 2 ^ chunk_sectors_bits (metadata sb) \<in> bitmap_area sb"
      using that(1) by (auto simp: bitmap_area_def chunk_sector_def)
    then have "view sb' (bitmap_base (asi sb Meta) + i * 2 ^ chunk_sectors_bits (metadata sb)) =
        view sb (bitmap_base (asi sb Meta) + i * 2 ^ chunk_sectors_bits (metadata sb))"
      using s by (simp add: same_alloc_def)
    with that(2) show ?thesis unfolding bitmap_ok_def Let_def same_alloc_simps [OF s] by simp
  qed
  have "wf_alloc sb' Meta"
    using wf ok same_alloc_in_use(2) [OF s padding_in_bitmap [OF wf]]
    by (auto simp: wf_alloc_def same_alloc_simps [OF s])
  moreover have "{c. c < chunks (asi sb Meta) \<and> \<not> in_use sb' Meta c} = {c. c < chunks (asi sb Meta) \<and> \<not> in_use sb Meta c}"
    using same_alloc_in_use(1) [OF s order.strict_trans2 [OF _ le]] by auto
  ultimately show ?thesis using c by (simp add: counted_def same_alloc_simps [OF s])
qed

lemma same_alloc_world:
  assumes s: "same_alloc sb sb'" and w: "world sb S"
  shows "world sb' S"
proof -
  have le: "chunks (asi sb Meta) \<le> bitmap_blocks (asi sb Meta) * 2 ^ bitmap_shift sb"
    using w by (simp add: world_def counted_def wf_alloc_def)
  note u = same_alloc_in_use(1) [OF s order.strict_trans2 [OF _ le]]
  have "counted sb' Meta" using same_alloc_counted [OF s] w by (simp add: world_def)
  then show ?thesis using w by (auto simp: world_def owned_def same_alloc_simps [OF s] u)
qed

text \<open>What stays when blocks are allocated and stored: chunks in use stay in use.\<close>

definition later :: "'a superblock_scheme \<Rightarrow> 'a superblock_scheme \<Rightarrow> bool" where
  "later sb sb' \<longleftrightarrow> metadata sb' = metadata sb \<and> snapdata sb' = snapdata sb \<and> snapmask sb' = snapmask sb \<and>
     superblock.more sb' = superblock.more sb \<and> chunks (asi sb' Meta) = chunks (asi sb Meta) \<and>
     (\<forall>c<chunks (asi sb Meta). in_use sb Meta c \<longrightarrow> in_use sb' Meta c)"

lemma later_refl [simp]: "later sb sb"
  by (simp add: later_def)

lemma later_trans [trans]: "later a b \<Longrightarrow> later b c \<Longrightarrow> later a c"
  by (auto simp: later_def)

lemma laterD:
  "later sb sb' \<Longrightarrow> metadata sb' = metadata sb" "later sb sb' \<Longrightarrow> snapmask sb' = snapmask sb"
  by (simp_all add: later_def)

lemma same_alloc_later:
  assumes "same_alloc sb sb'" "counted sb Meta"
  shows "later sb sb'"
proof -
  have "chunks (asi sb Meta) \<le> bitmap_blocks (asi sb Meta) * 2 ^ bitmap_shift sb"
    using assms(2) by (simp add: counted_def wf_alloc_def)
  then show ?thesis
    using assms(1) same_alloc_in_use(1) [OF assms(1) order.strict_trans2] by (auto simp: later_def same_alloc_def)
qed

section \<open>Storing and allocating blocks\<close>

lemma asi_put_dirty [simp]: "asi (put_dirty s b sb) sp = asi sb sp"
  by (cases sp) (simp_all add: asi_def put_dirty_def set_buffer_dirty_def set_data_def)

lemma put_dirty_simps [simp]:
  "view (put_dirty s b sb) = (view sb)(s := b)" "image (put_dirty s b sb) = image sb"
  "metadata (put_dirty s b sb) = metadata sb" "snapmask (put_dirty s b sb) = snapmask sb"
  "bad_sector (put_dirty s b sb) = bad_sector sb" "deferred_alloc (put_dirty s b sb) = deferred_alloc sb"
  "defer_range (put_dirty s b sb) = defer_range sb" "snapdata (put_dirty s b sb) = snapdata sb"
  "superblock.more (put_dirty s b sb) = superblock.more sb"
  by (simp_all add: put_dirty_def) (simp_all add: set_buffer_dirty_def set_data_def)

lemma asi_buffer [simp]:
  "asi (set_data s b sb) sp = asi sb sp" "asi (set_buffer_dirty s sb) sp = asi sb sp"
  by (cases sp; simp add: asi_def set_buffer_dirty_def set_data_def)+

lemma buffer_simps [simp]:
  "image (set_data s b sb) = image sb" "image (set_buffer_dirty s sb) = image sb"
  "metadata (set_data s b sb) = metadata sb" "metadata (set_buffer_dirty s sb) = metadata sb"
  "snapmask (set_data s b sb) = snapmask sb" "snapmask (set_buffer_dirty s sb) = snapmask sb"
  "deferred_alloc (set_data s b sb) = deferred_alloc sb" "deferred_alloc (set_buffer_dirty s sb) = deferred_alloc sb"
  "defer_range (set_data s b sb) = defer_range sb" "defer_range (set_buffer_dirty s sb) = defer_range sb"
  "snapdata (set_data s b sb) = snapdata sb" "snapdata (set_buffer_dirty s sb) = snapdata sb"
  "superblock.more (set_data s b sb) = superblock.more sb" "superblock.more (set_buffer_dirty s sb) = superblock.more sb"
  by (simp_all add: set_buffer_dirty_def set_data_def)

lemma world_outside: "world sb S \<Longrightarrow> s \<in> S \<Longrightarrow> s \<notin> bitmap_area sb"
  by (simp add: world_def owned_def)

lemma same_alloc_put: "world sb S \<Longrightarrow> s \<in> S \<Longrightarrow> same_alloc sb (put_dirty s b sb)"
  by (auto simp: same_alloc_def world_def owned_def)

lemma world_put: "world sb S \<Longrightarrow> s \<in> S \<Longrightarrow> world (put_dirty s b sb) S"
  using same_alloc_world same_alloc_put by blast

lemma later_put: "world sb S \<Longrightarrow> s \<in> S \<Longrightarrow> later sb (put_dirty s b sb)"
  using same_alloc_later same_alloc_put world_counted by blast

text \<open>What allocation of a block keeps, apart from the blocks themselves.\<close>

definition keeps :: "'a superblock_scheme \<Rightarrow> 'a superblock_scheme \<Rightarrow> sector_t set \<Rightarrow> bool" where
  "keeps sb sb' S \<longleftrightarrow> later sb sb' \<and>
     etree_root (image sb') = etree_root (image sb) \<and> etree_levels (image sb') = etree_levels (image sb) \<and>
     (\<forall>s\<in>S. view sb' s = view sb s)"

lemma alloc_world:
  assumes w: "world sb S" and free: "0 < freechunks (asi sb Meta)"
  obtains c sb' where "alloc_chunk Meta sb = (Some c, sb')" "c < chunks (asi sb Meta)" "\<not> in_use sb Meta c" "in_use sb' Meta c"
    "chunk_sector sb c \<notin> S" "world sb' (insert (chunk_sector sb c) S)" "keeps sb sb' S"
    "freechunks (asi sb Meta) = Suc (freechunks (asi sb' Meta))"
proof -
  have c: "counted sb Meta" and wf: "wf_alloc sb Meta" using w by (auto simp: world_def counted_def)
  obtain c sb' where run: "alloc_chunk Meta sb = (Some c, sb')"
    using bitmap_allocator.alloc_succeeds [OF c free] by auto
  note a = alloc_chunk_Some [OF wf run]
  note fr = alloc_frameD [OF a(4)] and img = erase_imgD [OF alloc_frameD(10) [OF a(4), of Meta]]
  have big: "chunks (asi sb Meta) \<le> bitmap_blocks (asi sb Meta) * 2 ^ bitmap_shift sb" "chunks (asi sb Meta) < 2 ^ 64"
    using wf by (auto simp: wf_alloc_def)
  have cs: "chunk_sector sb' = chunk_sector sb" using fr(1) by (simp add: chunk_sector_def [abs_def])
  have area: "bitmap_area sb' = bitmap_area sb" by (simp add: bitmap_area_def cs img)
  have use: "in_use sb' Meta x \<longleftrightarrow> in_use sb Meta x \<or> x = c" if "x < chunks (asi sb Meta)" for x
    using a(5) that big(2) by simp
  have ba: "bitmap_sector sb Meta c \<in> bitmap_area sb"
    by (rule bitmap_sector_area [OF order.strict_trans2 [OF a(1) big(1)]])
  have new: "chunk_sector sb c \<notin> bitmap_area sb" using w a(1,2) by (auto simp: world_def)
  have free': "freechunks (asi sb Meta) = Suc (freechunks (asi sb' Meta))"
    using bitmap_allocator.alloc_free [OF c run] .
  have "counted sb' Meta" using bitmap_allocator.alloc_Some [OF c run] by simp
  then have "world sb' (insert (chunk_sector sb c) S)"
    using w a(1) new use by (auto simp: world_def owned_def cs area img fr(4))
  moreover have "chunk_sector sb c \<notin> S" using w a(2) by (auto simp: world_def owned_def)
  moreover have "\<forall>s\<in>S. view sb' s = view sb s"
    using w ba a(6) by (metis world_def owned_def)
  moreover have "later sb sb'" using fr use img(2) by (simp add: later_def)
  ultimately show thesis using that [of c sb'] run a(1,2) use fr free' by (simp add: keeps_def)
qed

lemma new_block_world:
  assumes w: "world sb S" and free: "0 < freechunks (asi sb Meta)"
  obtains s sb' where "new_block sb = (Some s, sb')" "s \<notin> S" "world sb' (insert s S)" "keeps sb sb' S"
    "freechunks (asi sb Meta) = Suc (freechunks (asi sb' Meta))"
proof (rule alloc_world [OF w free])
  fix c sb'
  assume a: "alloc_chunk Meta sb = (Some c, sb')" "chunk_sector sb c \<notin> S" "world sb' (insert (chunk_sector sb c) S)" "keeps sb sb' S"
    "freechunks (asi sb Meta) = Suc (freechunks (asi sb' Meta))"
  have "metadata sb' = metadata sb" using a(4) by (simp add: keeps_def later_def)
  then have "new_block sb = (Some (chunk_sector sb c), sb')"
    using a(1) by (simp add: new_block_def alloc_metablock_def chunk_sector_def)
  with a that show thesis by blast
qed

lemma put_new_block:
  assumes "world sb' (insert s S)" "keeps sb sb' S" "s \<notin> S"
  shows "world (put_dirty s b sb') (insert s S)" "keeps sb (put_dirty s b sb') S"
  using assms world_put [OF assms(1)] later_trans later_put [OF assms(1), of s b] by (auto simp: keeps_def)

lemma new_node_world:
  assumes "world sb S" "0 < freechunks (asi sb Meta)"
  obtains s sb' where "new_node sb = (Some s, sb')" "s \<notin> S" "world sb' (insert s S)" "keeps sb sb' S"
    "freechunks (asi sb Meta) = Suc (freechunks (asi sb' Meta))"
  by (rule new_block_world [OF assms]) (use put_new_block that in \<open>fastforce simp: new_node_def\<close>)

lemma new_leaf_world:
  assumes "world sb S" "0 < freechunks (asi sb Meta)"
  obtains s sb' where "new_leaf sb = (Some s, sb')" "s \<notin> S" "world sb' (insert s S)" "keeps sb sb' S"
    "freechunks (asi sb Meta) = Suc (freechunks (asi sb' Meta))"
  by (rule new_block_world [OF assms]) (use put_new_block that in \<open>fastforce simp: new_leaf_def\<close>)

section \<open>Nodes\<close>

lemma node_of_simps:
  "node_count (node_of cs) = length cs"
  "insert_child (node_of cs) p (root t) key = node_of (take p cs @ (key, t) # drop p cs)"
  "\<lparr>node_entries = take i (node_entries (node_of cs))\<rparr> = node_of (take i cs)"
  "\<lparr>node_entries = drop i (node_entries (node_of cs))\<rparr> = node_of (drop i cs)"
  "i < length cs \<Longrightarrow> entry_key (node_of cs) i = fst (cs ! i)"
  by (auto simp: node_of_def node_count_def insert_child_def entry_key_def entry_of_def take_map drop_map)

text \<open>Splitting a node first and inserting into one half is inserting first and splitting then.\<close>

lemma split_insert:
  assumes "p \<le> length xs"
  shows "half < p \<Longrightarrow> take half xs = take half (take p xs @ y # drop p xs)"
    "half < p \<Longrightarrow> take (p - half) (drop half xs) @ y # drop (p - half) (drop half xs) = drop half (take p xs @ y # drop p xs)"
    "p \<le> half \<Longrightarrow> take p (take half xs) @ y # drop p (take half xs) = take (Suc half) (take p xs @ y # drop p xs)"
    "p \<le> half \<Longrightarrow> drop half xs = drop (Suc half) (take p xs @ y # drop p xs)"
  using assms by (simp_all add: min_def drop_take Suc_diff_le)

lemma hd_split_insert:
  assumes "p \<le> length xs" "half < length xs"
  shows "hd (drop (if half < p then half else Suc half) (take p xs @ y # drop p xs)) = xs ! half"
  using assms by (auto simp: hd_drop_conv_nth nth_append min_def)

lemma root_plug_cong: "root t = root t' \<Longrightarrow> root (plug t ctx) = root (plug t' ctx)"
proof (induction ctx arbitrary: t t')
  case (Cons f ctx)
  then show ?case by (cases f) simp
qed simp

section \<open>Insertion of a child\<close>

definition tree_in :: "nat \<Rightarrow> chunk_t \<Rightarrow> chunk_t \<Rightarrow> 'a superblock_scheme \<Rightarrow> etree \<Rightarrow> bool" where
  "tree_in bs LO HI sb t \<longleftrightarrow>
     rep (view sb) (alloc_per_node (metadata sb)) bs (etree_levels (image sb)) LO HI t \<and>
     root t = etree_root (image sb) \<and> distinct (sectors t) \<and> world sb (set (sectors t))"

text \<open>
  A subtree that has been divided in two at \<open>key\<close>, in its context: \<open>child_due\<close>
  is the state in which the loop of \<open>add_exception_to_tree\<close> takes over.
\<close>

definition child_due :: "nat \<Rightarrow> chunk_t \<Rightarrow> chunk_t \<Rightarrow> 'a superblock_scheme \<Rightarrow> nat \<Rightarrow> chunk_t \<Rightarrow> etree \<Rightarrow> etree \<Rightarrow> frame list \<Rightarrow> bool" where
  "child_due bs LO HI sb n key t t2 ctx \<longleftrightarrow>
     world sb (set (sectors t @ sectors t2 @ ctx_sectors ctx)) \<and> distinct (sectors t @ sectors t2 @ ctx_sectors ctx) \<and>
     (\<exists>lo hi. ctx_ok (view sb) (alloc_per_node (metadata sb)) bs n lo hi (root t) ctx LO HI \<and> lo < key \<and> key < hi \<and>
        rep (view sb) (alloc_per_node (metadata sb)) bs n lo key t \<and>
        rep (view sb) (alloc_per_node (metadata sb)) bs n key hi t2) \<and>
     etree_root (image sb) = root (plug t ctx) \<and> etree_levels (image sb) = n + length ctx"

text \<open>The outcome: a tree with both halves, in which only the nodes of the path have changed.\<close>

definition child_added :: "nat \<Rightarrow> chunk_t \<Rightarrow> chunk_t \<Rightarrow> 'a superblock_scheme \<Rightarrow> 'a superblock_scheme \<Rightarrow> etree \<Rightarrow> etree \<Rightarrow>
    frame list \<Rightarrow> bool" where
  "child_added bs LO HI sb sb' t t2 ctx \<longleftrightarrow>
     (\<exists>t'. tree_in bs LO HI sb' t' \<and> leaf_list t' = ctx_left ctx @ leaf_list t @ leaf_list t2 @ ctx_right ctx) \<and>
     later sb sb' \<and>
     (\<forall>s\<in>set (sectors t @ sectors t2 @ ctx_sectors ctx). s \<notin> fst ` set ctx \<longrightarrow> view sb' s = view sb s)"

lemma new_root_added:
  assumes due: "child_due bs LO HI sb n key t t2 []" and m: "2 \<le> alloc_per_node (metadata sb)"
    and free: "0 < freechunks (asi sb Meta)"
  shows "\<exists>sb'. new_root (root t2) key sb = (None, sb') \<and> child_added bs LO HI sb sb' t t2 []"
proof -
  let ?S = "set (sectors t @ sectors t2)"
  have w: "world sb ?S" and d: "distinct (sectors t @ sectors t2)" and lv: "etree_levels (image sb) = n"
    and rt: "etree_root (image sb) = root t" and ord: "LO < key" "key < HI"
    and r: "rep (view sb) (alloc_per_node (metadata sb)) bs n LO key t" "rep (view sb) (alloc_per_node (metadata sb)) bs n key HI t2"
    using due by (auto simp: child_due_def)
  obtain s sb1 where nn: "new_node sb = (Some s, sb1)" "s \<notin> ?S" "world sb1 (insert s ?S)" "keeps sb sb1 ?S"
    using new_node_world [OF w free] by metis
  let ?cs = "[(0, t), (key, t2)]"
  let ?sb2 = "set_sb_dirty (sb1\<lparr>image := (image sb1)\<lparr>etree_root := s, etree_levels := etree_levels (image sb1) + 1\<rparr>\<rparr>)"
  let ?sb3 = "put_dirty s (NodeB (node_of ?cs)) ?sb2"
  have run: "new_root (root t2) key sb = (None, ?sb3)"
    using nn(4) by (simp add: new_root_def nn(1) Let_def keeps_def rt node_of_def entry_of_def)
  have v2: "view ?sb2 = view sb1" by (simp add: set_sb_dirty_def view_def fun_eq_iff split: option.split)
  have "asi ?sb2 Meta = asi sb1 Meta"
    by (cases "as_asi (metadata sb1)") (simp_all add: asi_def set_sb_dirty_def)
  then have sa: "same_alloc sb1 ?sb2"
    unfolding same_alloc_def v2 by (simp add: set_sb_dirty_def)
  note w2 = same_alloc_world [OF sa nn(3)]
  have "later sb sb1" using nn(4) by (simp add: keeps_def)
  also have "later sb1 ?sb2" by (rule same_alloc_later [OF sa world_counted [OF nn(3)]])
  also have "later ?sb2 ?sb3" by (rule later_put [OF w2]) simp
  finally have lt: "later sb ?sb3" .
  from world_put [OF w2] have w3: "world ?sb3 (set (sectors (Branch s ?cs)))"
    by simp
  have v: "view ?sb3 x = view sb x" if "x \<in> ?S" for x
    using that nn(2,4) unfolding put_dirty_simps v2 by (auto simp: keeps_def)
  have im: "metadata ?sb3 = metadata sb" "snapmask ?sb3 = snapmask sb" "etree_levels (image ?sb3) = Suc n" "etree_root (image ?sb3) = s"
    using nn(4) lv by (simp_all add: set_sb_dirty_def keeps_def later_def)
  have "rep (view ?sb3) (alloc_per_node (metadata sb)) bs n LO key t" "rep (view ?sb3) (alloc_per_node (metadata sb)) bs n key HI t2"
    using rep_cong [OF r(1), of "view ?sb3"] rep_cong [OF r(2), of "view ?sb3"] v by (simp_all only: set_append Un_iff simp_thms)
  then have "rep (view ?sb3) (alloc_per_node (metadata sb)) bs (Suc n) LO HI (Branch s ?cs)"
    using m ord by (simp add: rep_Suc)
  then have "tree_in bs LO HI ?sb3 (Branch s ?cs)"
    unfolding tree_in_def im using w3 d nn(2) by auto
  then have "child_added bs LO HI sb ?sb3 t t2 []"
    using v lt unfolding child_added_def by (intro conjI exI [of _ "Branch s ?cs"]) auto
  with run show ?thesis by blast
qed

lemma child_due_frame:
  assumes "child_due bs LO HI sb n key t t2 ((s, ls, k, rs) # ctx)"
  defines "m \<equiv> alloc_per_node (metadata sb)"
  obtains lo' hi' where "view sb s = NodeB (node_of (ls @ (k, t) # rs))"
    "kids (rep (view sb) m bs n) lo' hi' (ls @ (k, t) # (key, t2) # rs)" "length ls + length rs < m"
    "ctx_ok (view sb) m bs (Suc n) lo' hi' s ctx LO HI"
    "etree_root (image sb) = root (plug (Branch s []) ctx)" "etree_levels (image sb) = Suc n + length ctx"
proof -
  have m: "alloc_per_node (metadata sb) = m" by (simp add: m_def)
  obtain lo hi lo' hi' where c: "view sb s = NodeB (node_of (ls @ (k, Tip (root t)) # rs))" "length ls + length rs < m"
    "left_ok (rep (view sb) m bs n) lo' ls k lo" "right_ok (rep (view sb) m bs n) hi rs hi'"
    "ctx_ok (view sb) m bs (Suc n) lo' hi' s ctx LO HI" "lo < key" "key < hi"
    "rep (view sb) m bs n lo key t" "rep (view sb) m bs n key hi t2"
    "etree_root (image sb) = root (plug (Branch s (ls @ (k, t) # rs)) ctx)" "etree_levels (image sb) = n + length ((s, ls, k, rs) # ctx)"
    using assms(1) unfolding child_due_def m by auto
  have "kids (rep (view sb) m bs n) lo' hi' (ls @ [(k, t), (key, t2)] @ rs)"
    by (rule kids_plug [OF c(3,4)]) (use c(6-9) in simp_all)
  then show thesis
    using that [of lo' hi'] c root_plug_cong [of "Branch s (ls @ (k, t) # rs)" "Branch s []" ctx]
    by (simp add: node_of_root [of ls k t rs])
qed

text \<open>Insertion into a node with room.\<close>

lemma insert_room:
  assumes due: "child_due bs LO HI sb n key t t2 ((s, ls, k, rs) # ctx)"
    and room: "length ls + length rs + 1 < alloc_per_node (metadata sb)"
  shows "child_added bs LO HI sb (put_dirty s (NodeB (node_of (ls @ (k, t) # (key, t2) # rs))) sb) t t2 ((s, ls, k, rs) # ctx)"
    (is "child_added _ _ _ _ ?sb _ _ _")
proof -
  let ?m = "alloc_per_node (metadata sb)" and ?cs = "ls @ (k, t) # (key, t2) # rs"
  let ?b = "Branch s ?cs"
  have w: "world sb (set (sectors t @ sectors t2 @ ctx_sectors ((s, ls, k, rs) # ctx)))"
    and d: "distinct (sectors t @ sectors t2 @ ctx_sectors ((s, ls, k, rs) # ctx))"
    using due by (auto simp: child_due_def)
  obtain lo' hi' where c: "kids (rep (view sb) ?m bs n) lo' hi' ?cs"
    "ctx_ok (view sb) ?m bs (Suc n) lo' hi' s ctx LO HI"
    "etree_root (image sb) = root (plug (Branch s []) ctx)" "etree_levels (image sb) = Suc n + length ctx"
    by (rule child_due_frame [OF due])
  have v: "view ?sb x = view sb x" if "x \<noteq> s" for x using that by simp
  have "kids (rep (view ?sb) ?m bs n) lo' hi' ?cs"
    by (rule kids_mono [OF c(1)], erule rep_cong, rule v) (use d in fastforce)
  then have "rep (view ?sb) ?m bs (Suc n) lo' hi' ?b" using room by (simp add: rep_Suc)
  moreover have "ctx_ok (view ?sb) ?m bs (Suc n) lo' hi' (root ?b) ctx LO HI"
    using ctx_ok_cong [OF c(2), of "view ?sb"] v d by fastforce
  ultimately have "rep (view ?sb) ?m bs (Suc n + length ctx) LO HI (plug ?b ctx)"
    using rep_plug kids_less [OF c(1)] by blast
  moreover have ms: "mset (sectors (plug ?b ctx)) = mset (sectors t @ sectors t2 @ ctx_sectors ((s, ls, k, rs) # ctx))"
    by (simp add: mset_sectors_plug ac_simps)
  moreover have "world ?sb (set (sectors (plug ?b ctx)))"
    unfolding mset_eq_setD [OF ms] by (rule world_put [OF w]) simp
  ultimately have "tree_in bs LO HI ?sb (plug ?b ctx)"
    using c(3,4) root_plug_cong [of ?b "Branch s []" ctx] mset_eq_imp_distinct_iff [OF ms] d
    by (simp add: tree_in_def)
  then show ?thesis
    using later_put [OF w, of s] unfolding child_added_def
    by (intro conjI exI [of _ "plug ?b ctx"]) (auto simp: leaf_list_plug)
qed

text \<open>A full node is divided; the two halves are due in the context above.\<close>

lemma insert_split:
  assumes due: "child_due bs LO HI sb n key t t2 ((s, ls, k, rs) # ctx)"
    and nn: "new \<notin> set (sectors t @ sectors t2 @ ctx_sectors ((s, ls, k, rs) # ctx))"
      "world sb1 (insert new (set (sectors t @ sectors t2 @ ctx_sectors ((s, ls, k, rs) # ctx))))"
      "keeps sb sb1 (set (sectors t @ sectors t2 @ ctx_sectors ((s, ls, k, rs) # ctx)))"
    and cs: "ls @ (k, t) # (key, t2) # rs = as @ bs2" "as \<noteq> []" "bs2 \<noteq> []"
    and len: "length as \<le> alloc_per_node (metadata sb)" "length bs2 \<le> alloc_per_node (metadata sb)"
    and sb2: "view sb2 = (view sb1)(s := NodeB (node_of as), new := NodeB (node_of bs2))" "image sb2 = image sb1"
      "later sb1 sb2"
      "world sb2 (insert new (set (sectors t @ sectors t2 @ ctx_sectors ((s, ls, k, rs) # ctx))))"
  shows "child_due bs LO HI sb2 (Suc n) (fst (hd bs2)) (Branch s as) (Branch new bs2) ctx"
    "child_added bs LO HI sb2 sb' (Branch s as) (Branch new bs2) ctx \<Longrightarrow> child_added bs LO HI sb sb' t t2 ((s, ls, k, rs) # ctx)"
proof -
  let ?m = "alloc_per_node (metadata sb)" and ?S = "sectors t @ sectors t2 @ ctx_sectors ((s, ls, k, rs) # ctx)"
  have d: "distinct ?S" using due by (simp add: child_due_def)
  obtain lo' hi' where c: "kids (rep (view sb) ?m bs n) lo' hi' (as @ bs2)"
    "ctx_ok (view sb) ?m bs (Suc n) lo' hi' s ctx LO HI"
    "etree_root (image sb) = root (plug (Branch s []) ctx)" "etree_levels (image sb) = Suc n + length ctx"
    by (rule child_due_frame [OF due]) (use cs(1) in auto)
  have sec: "mset (kids_sectors as @ kids_sectors bs2) = mset (sectors t @ sectors t2 @ kids_sectors ls @ kids_sectors rs)"
    using arg_cong [OF cs(1), of "\<lambda>l. mset (kids_sectors l)"] by (simp add: ac_simps)
  have lv: "kids_leaves as @ kids_leaves bs2 = kids_leaves ls @ leaf_list t @ leaf_list t2 @ kids_leaves rs"
    using arg_cong [OF cs(1), of kids_leaves] by simp
  have ms: "mset (sectors (Branch s as) @ sectors (Branch new bs2) @ ctx_sectors ctx) = mset (new # ?S)"
    using sec by (simp add: ac_simps)
  have d': "distinct (sectors (Branch s as) @ sectors (Branch new bs2) @ ctx_sectors ctx)"
    using mset_eq_imp_distinct_iff [OF ms] d nn(1) by simp
  have lt: "later sb sb2" using nn(3) sb2(3) later_trans by (auto simp: keeps_def)
  have same: "metadata sb2 = metadata sb" "etree_root (image sb2) = etree_root (image sb)"
    "etree_levels (image sb2) = etree_levels (image sb)" using nn(3) laterD(1) [OF lt] by (simp_all add: keeps_def sb2)
  have v: "view sb2 x = view sb x" if "x \<in> set ?S" "x \<noteq> s" for x
    using that nn(1,3) by (auto simp: sb2(1) keeps_def)
  have vk: "view sb2 x = view sb x" if "x \<in> set (kids_sectors as @ kids_sectors bs2)" for x
  proof -
    have "x \<in> set (sectors t @ sectors t2 @ kids_sectors ls @ kids_sectors rs)" using that unfolding mset_eq_setD [OF sec] .
    then show ?thesis using d by (intro v) auto
  qed
  have "kids (rep (view sb2) ?m bs n) lo' hi' (as @ bs2)"
    by (rule kids_mono [OF c(1)], erule rep_cong, rule vk) auto
  then have "rep (view sb2) ?m bs (Suc n) lo' (fst (hd bs2)) (Branch s as)" "rep (view sb2) ?m bs (Suc n) (fst (hd bs2)) hi' (Branch new bs2)"
    "lo' < fst (hd bs2)" "fst (hd bs2) < hi'"
    using len cs(2,3) nn(1) kids_less by (auto simp: rep_Suc kids_append sb2(1))
  moreover have "ctx_ok (view sb2) ?m bs (Suc n) lo' hi' s ctx LO HI"
    by (rule ctx_ok_cong [OF c(2)], rule v) (use d in auto)
  moreover have "world sb2 (set (sectors (Branch s as) @ sectors (Branch new bs2) @ ctx_sectors ctx))"
    using sb2(4) unfolding mset_eq_setD [OF ms] by simp
  ultimately show "child_due bs LO HI sb2 (Suc n) (fst (hd bs2)) (Branch s as) (Branch new bs2) ctx"
    using d' c(3,4) same root_plug_cong [of "Branch s as" "Branch s []" ctx] by (auto simp: child_due_def)
  show "child_added bs LO HI sb sb' t t2 ((s, ls, k, rs) # ctx)"
    if a: "child_added bs LO HI sb2 sb' (Branch s as) (Branch new bs2) ctx"
  proof -
    have "view sb' x = view sb x" if x: "x \<in> set ?S" "x \<notin> fst ` set ((s, ls, k, rs) # ctx)" for x
    proof -
      have "x \<in> set (sectors (Branch s as) @ sectors (Branch new bs2) @ ctx_sectors ctx)"
        using x(1) unfolding mset_eq_setD [OF ms] by simp
      moreover have "\<forall>x\<in>set (sectors (Branch s as) @ sectors (Branch new bs2) @ ctx_sectors ctx).
          x \<notin> fst ` set ctx \<longrightarrow> view sb' x = view sb2 x"
        using a unfolding child_added_def by blast
      moreover have "x \<notin> fst ` set ctx" using x(2) by simp
      ultimately have "view sb' x = view sb2 x" by blast
      also have "\<dots> = view sb x" by (rule v [OF x(1)]) (use x(2) in auto)
      finally show ?thesis .
    qed
    then show ?thesis using a lv later_trans [OF lt] by (auto simp: child_added_def)
  qed
qed

lemma insert_up_added:
  assumes "child_due bs LO HI sb n key t t2 ctx" "2 \<le> alloc_per_node (metadata sb)"
    and "length ctx < freechunks (asi sb Meta)"
  shows "\<exists>sb'. insert_up (path_of ctx) (root t2) key sb = (None, sb') \<and> child_added bs LO HI sb sb' t t2 ctx"
  using assms
proof (induction ctx arbitrary: sb n key t t2)
  case Nil
  then show ?case using new_root_added by (simp add: path_of_def)
next
  case (Cons f ctx)
  obtain s ls k rs where f: "f = (s, ls, k, rs)" by (cases f) auto
  note due = Cons.prems(1) [unfolded f]
  let ?m = "alloc_per_node (metadata sb)" and ?cs = "ls @ (k, t) # rs" and ?p = "Suc (length ls)"
  let ?ds = "ls @ (k, t) # (key, t2) # rs" and ?S = "set (sectors t @ sectors t2 @ ctx_sectors ((s, ls, k, rs) # ctx))"
  obtain lo' hi' where c: "view sb s = NodeB (node_of ?cs)" "length ls + length rs < ?m"
    by (rule child_due_frame [OF due])
  have ds: "?ds = take ?p ?cs @ (key, t2) # drop ?p ?cs" by simp
  show ?case
  proof (cases "length ?cs < ?m")
    case True
    then have "insert_up (path_of (f # ctx)) (root t2) key sb = (None, put_dirty s (NodeB (node_of ?ds)) sb)"
      by (simp add: f path_of_def c(1) Let_def node_of_simps)
    with insert_room [OF due] True show ?thesis by (auto simp: f)
  next
    case False
    define half where "half = length ?cs div 2"
    define h where "h = (if half < ?p then half else Suc half)"
    have len: "2 \<le> length ?cs" "length ?cs \<le> ?m" using False Cons.prems(2) c(2) by auto
    then have half: "half < length ?cs" "0 < half" unfolding half_def by auto
    have h: "0 < h" "h < length ?ds" using half len by (auto simp: h_def)
    have w: "world sb ?S" using due by (simp add: child_due_def)
    have fr: "0 < freechunks (asi sb Meta)" using Cons.prems(3) by simp
    obtain new sb1 where nn: "new_node sb = (Some new, sb1)" "new \<notin> ?S" "world sb1 (insert new ?S)" "keeps sb sb1 ?S"
      "freechunks (asi sb Meta) = Suc (freechunks (asi sb1 Meta))"
      using new_node_world [OF w fr] by metis
    define sb2 where "sb2 = (if ?p > half
        then put_dirty new (NodeB (node_of (drop h ?ds))) (put_dirty s (NodeB (node_of (take h ?ds))) sb1)
        else put_dirty s (NodeB (node_of (take h ?ds))) (put_dirty new (NodeB (node_of (drop h ?ds))) sb1))"
    have pl: "?p \<le> length ?cs" by simp
    have run: "insert_up (path_of (f # ctx)) (root t2) key sb = insert_up (path_of ctx) new (fst (hd (drop h ?ds))) sb2"
    proof (cases "half < ?p")
      case True
      then have hh: "h = half" by (simp add: h_def)
      have ins: "insert_child (node_of (drop half ?cs)) (?p - half) (root t2) key = node_of (drop h ?ds)"
        "node_of (take half ?cs) = node_of (take h ?ds)" "entry_key (node_of ?cs) half = fst (hd (drop h ?ds))"
        using split_insert(1,2) [OF pl True, of "(key, t2)"] hd_split_insert [OF pl half(1), of "(key, t2)"] half(1) True
        unfolding hh ds by (simp_all only: node_of_simps if_True)
      show ?thesis
        using True False
        by (simp only: f path_of_def list.map prod.case insert_up.simps c(1) buffer2node.simps Let_def node_of_simps(1,3,4)
            half_def [symmetric] nn(1) ins sb2_def if_True if_False option.case)
    next
      case False2: False
      then have hh: "h = Suc half" and le: "?p \<le> half" by (simp_all add: h_def)
      have ins: "insert_child (node_of (take half ?cs)) ?p (root t2) key = node_of (take h ?ds)"
        "node_of (drop half ?cs) = node_of (drop h ?ds)" "entry_key (node_of ?cs) half = fst (hd (drop h ?ds))"
        using split_insert(3,4) [OF pl le, of "(key, t2)"] hd_split_insert [OF pl half(1), of "(key, t2)"] half(1) False2
        unfolding hh ds by (simp_all only: node_of_simps if_False)
      show ?thesis
        using False2 False
        by (simp only: f path_of_def list.map prod.case insert_up.simps c(1) buffer2node.simps Let_def node_of_simps(1,3,4)
            half_def [symmetric] nn(1) ins sb2_def if_False option.case)
    qed
    have sn: "s \<noteq> new" "s \<in> ?S" using nn(2) by auto
    have sb2: "view sb2 = (view sb1)(s := NodeB (node_of (take h ?ds)), new := NodeB (node_of (drop h ?ds)))"
      "image sb2 = image sb1" "later sb1 sb2" "world sb2 (insert new ?S)" "asi sb2 Meta = asi sb1 Meta"
      using sn world_put [OF world_put [OF nn(3)]] later_trans [OF later_put [OF nn(3)] later_put [OF world_put [OF nn(3)]]]
      unfolding sb2_def by (auto simp: fun_upd_twist)
    have cut: "?ds = take h ?ds @ drop h ?ds" "take h ?ds \<noteq> []" "drop h ?ds \<noteq> []" using h by (simp_all only: append_take_drop_id) auto
    have l2: "length (take h ?ds) \<le> ?m" "length (drop h ?ds) \<le> ?m" using len h half by (auto simp: h_def min_def)
    note sp = insert_split [OF due nn(2-4) cut l2 sb2(1-4)]
    have "2 \<le> alloc_per_node (metadata sb2)" "length ctx < freechunks (asi sb2 Meta)"
      using Cons.prems(2,3) nn(4,5) sb2(3,5) by (auto simp: keeps_def dest!: laterD(1))
    from Cons.IH [OF sp(1) this] sp(2) show ?thesis unfolding run unfolding f root.simps by blast
  qed
qed

end
