(* ===== verification/Btree_Tree.thy ===== *)
theory Btree_Tree
  imports Btree_Insert
begin

text \<open>
  The tree that the superblock refers to, its contents as one association
  list, and what insertion of an exception does to it.
\<close>

section \<open>The tree of a superblock\<close>

fun tree_at :: "(sector_t \<Rightarrow> block) \<Rightarrow> nat \<Rightarrow> sector_t \<Rightarrow> etree" where
  "tree_at V 0 s = Tip s"
| "tree_at V (Suc n) s = Branch s (map (\<lambda>e. (ie_key e, tree_at V n (ie_sector e))) (node_entries (buffer2node (V s))))"

definition tree_of :: "'a superblock_scheme \<Rightarrow> etree" where
  "tree_of sb = tree_at (view sb) (etree_levels (image sb)) (etree_root (image sb))"

text \<open>
  All chunk numbers are below \<open>2 ^ 32\<close>, the size of the directory keys in a
  leaf; blocks are as large as the allocation unit of the metadata.
\<close>

definition btree_ok :: "'a superblock_scheme \<Rightarrow> bool" where
  "btree_ok sb \<longleftrightarrow> tree_in (allocsize (metadata sb)) 0 (2 ^ 32) sb (tree_of sb)"

definition btree_map :: "'a superblock_scheme \<Rightarrow> aleaf" where
  "btree_map sb = tree_map (view sb) (leaf_list (tree_of sb))"

definition btree_shares :: "'a superblock_scheme \<Rightarrow> bool" where
  "btree_shares sb \<longleftrightarrow> (\<forall>(k, es)\<in>set (btree_map sb). wf_shares (snapmask sb) es)"

lemma rep_tree_at: "rep V m bs n lo hi t \<Longrightarrow> tree_at V n (root t) = t"
proof (induction n arbitrary: lo hi t)
  case 0 then show ?case by (auto simp: rep_0)
next
  case (Suc n)
  obtain s cs where t: "t = Branch s cs" "V s = NodeB (node_of cs)" "kids (rep V m bs n) lo hi cs"
    using Suc.prems by (auto simp: rep_Suc)
  have "tree_at V n (root c) = c" if "(k, c) \<in> set cs" for k c
    using kids_mem [OF t(3) that] by (auto dest: Suc.IH)
  then have "map (\<lambda>e. (ie_key e, tree_at V n (ie_sector e))) (map entry_of cs) = cs"
    unfolding map_map comp_def by (intro map_idI) (auto simp: entry_of_def)
  then show ?case by (simp add: t(1,2) node_of_def)
qed

lemma tree_in_tree_of: "tree_in bs LO HI sb t \<Longrightarrow> tree_of sb = t"
  using rep_tree_at by (fastforce simp: tree_in_def tree_of_def)

lemma btree_okI:
  assumes "tree_in (allocsize (metadata sb)) 0 (2 ^ 32) sb t"
  shows "btree_ok sb" "btree_map sb = tree_map (view sb) (leaf_list t)"
  using assms by (simp_all add: btree_ok_def btree_map_def tree_in_tree_of)

lemma btree_map_sorted: "btree_ok sb \<Longrightarrow> sorted_wrt (<) (map fst (btree_map sb))"
  using rep_contents by (fastforce simp: btree_ok_def tree_in_def btree_map_def)

section \<open>Lookup\<close>

lemma leaf_target_base: "leaf_base_chunk leaf = 0 \<Longrightarrow> chunk < 2 ^ 32 \<Longrightarrow> leaf_target leaf chunk = chunk"
  by (simp add: leaf_target_def u64_sub_eq)

lemma map_of_outside: "keys_in lo hi al \<Longrightarrow> \<not> (lo \<le> k \<and> k < hi) \<Longrightarrow> map_of al k = None"
  by (auto simp: keys_in_def map_of_eq_None_iff)

text \<open>Where \<open>probe\<close> leads, in terms of the contents of the whole tree.\<close>

lemma probe_leaf:
  assumes ok: "btree_ok sb" and chunk: "chunk < 2 ^ 32"
  obtains s lo hi ctx leaf where "probe sb chunk = Some (s, rev (path_of ctx))" "tree_of sb = plug (Tip s) ctx"
    "ctx_ok (view sb) (alloc_per_node (metadata sb)) (allocsize (metadata sb)) 0 lo hi s ctx 0 (2 ^ 32)"
    "view sb s = LeafB leaf" "leaf_ok (allocsize (metadata sb)) lo hi leaf" "lo \<le> chunk" "chunk < hi"
    "length ctx = etree_levels (image sb)"
    "btree_map sb = tree_map (view sb) (ctx_left ctx) @ leaf_abs leaf @ tree_map (view sb) (ctx_right ctx)"
    "keys_in 0 lo (tree_map (view sb) (ctx_left ctx))" "keys_in hi (2 ^ 32) (tree_map (view sb) (ctx_right ctx))"
proof -
  have t: "rep (view sb) (alloc_per_node (metadata sb)) (allocsize (metadata sb)) (etree_levels (image sb)) 0 (2 ^ 32) (tree_of sb)"
    "root (tree_of sb) = etree_root (image sb)" "\<forall>s\<in>set (sectors (tree_of sb)). \<not> bad_sector sb s"
    using ok world_readable by (fastforce simp: btree_ok_def tree_in_def)+
  show thesis
  proof (rule probe_rep [OF t(1,2) _ chunk t(3)])
    fix s lo hi ctx
    assume p: "probe sb chunk = Some (s, rev (path_of ctx))" "tree_of sb = plug (Tip s) ctx"
      "ctx_ok (view sb) (alloc_per_node (metadata sb)) (allocsize (metadata sb)) 0 lo hi s ctx 0 (2 ^ 32)"
      "rep (view sb) (alloc_per_node (metadata sb)) (allocsize (metadata sb)) 0 lo hi (Tip s)" "lo \<le> chunk" "chunk < hi"
      "length ctx = etree_levels (image sb)"
    then obtain leaf where l: "view sb s = LeafB leaf" "leaf_ok (allocsize (metadata sb)) lo hi leaf" by (auto simp: rep_0)
    have "btree_map sb = tree_map (view sb) (ctx_left ctx) @ leaf_abs leaf @ tree_map (view sb) (ctx_right ctx)"
      unfolding btree_map_def p(2) leaf_list_plug by (simp add: tree_map_def l(1))
    then show thesis using that p l ctx_contents [OF p(3)] by auto
  qed simp
qed

lemma probe_loop_cong:
  assumes "rep (view sb) m bs n lo hi t" "lo \<le> chunk" "chunk < hi"
    and "\<forall>s\<in>set (sectors t). view sb' s = view sb s \<and> \<not> bad_sector sb s \<and> \<not> bad_sector sb' s"
  shows "probe_loop sb' chunk n (root t) path = probe_loop sb chunk n (root t) path"
  using assms
proof (induction n arbitrary: lo hi t path)
  case 0 then show ?case by (auto simp: rep_0 bread_SomeI)
next
  case (Suc n)
  obtain s cs where t: "t = Branch s cs" "view sb s = NodeB (node_of cs)" "kids (rep (view sb) m bs n) lo hi cs"
    using Suc.prems(1) by (auto simp: rep_Suc)
  obtain ls k c rs lo' hi' where f: "cs = ls @ (k, c) # rs" "next_index (node_of cs) chunk = Suc (length ls)"
    "rep (view sb) m bs n lo' hi' c" "lo' \<le> chunk" "chunk < hi'"
    using kids_find [OF t(3) Suc.prems(2,3)] by metis
  have "entry_sector (node_of cs) (length ls) = root c"
    by (simp add: entry_sector_def node_of_def node_count_def f(1) entry_of_def nth_append)
  moreover have "probe_loop sb' chunk n (root c) path = probe_loop sb chunk n (root c) path" for path
    by (rule Suc.IH [OF f(3-5)]) (use Suc.prems(4) in \<open>auto simp: t(1) f(1)\<close>)
  moreover have "bread sb s = Some (NodeB (node_of cs))" "bread sb' s = Some (NodeB (node_of cs))"
    using Suc.prems(4) t(2) by (simp_all add: t(1) bread_SomeI)
  ultimately show ?case by (simp add: t(1) f(2))
qed

text \<open>Allocations elsewhere do not change the tree.\<close>

lemma btree_keeps:
  assumes ok: "btree_ok sb" and k: "keeps sb sb' (set (sectors (tree_of sb)))" and w: "world sb' (set (sectors (tree_of sb)))"
  shows "btree_ok sb'" "btree_map sb' = btree_map sb" "chunk < 2 ^ 32 \<Longrightarrow> probe sb' chunk = probe sb chunk"
    "tree_of sb' = tree_of sb"
proof -
  let ?t = "tree_of sb"
  have t: "rep (view sb) (alloc_per_node (metadata sb)) (allocsize (metadata sb)) (etree_levels (image sb)) 0 (2 ^ 32) ?t"
    "root ?t = etree_root (image sb)" "distinct (sectors ?t)" "world sb (set (sectors ?t))"
    using ok by (auto simp: btree_ok_def tree_in_def)
  have v: "view sb' s = view sb s" if "s \<in> set (sectors ?t)" for s using k that by (simp add: keeps_def)
  have tr: "tree_in (allocsize (metadata sb')) 0 (2 ^ 32) sb' ?t"
    using rep_cong [OF t(1) v] t(2,3) w k by (simp add: tree_in_def keeps_def later_def)
  show "btree_ok sb'" by (rule btree_okI(1) [OF tr])
  show "btree_map sb' = btree_map sb"
    unfolding btree_okI(2) [OF tr] unfolding btree_map_def
    by (rule tree_map_cong, rule v) (use leaf_list_sectors in blast)
  show "tree_of sb' = tree_of sb" by (rule tree_in_tree_of [OF tr])
  assume "chunk < 2 ^ 32"
  then show "probe sb' chunk = probe sb chunk"
    using probe_loop_cong [OF t(1), of chunk sb' "[]"] k t(2) v world_readable [OF t(4)] world_readable [OF w]
    by (simp add: probe_def keeps_def)
qed

lemma leaf_of_tree:
  assumes "keys_in 0 lo pre" "keys_in hi HI post" "lo \<le> chunk" "chunk < hi"
  shows "map_of (pre @ mid @ post) chunk = map_of mid chunk"
  using map_of_outside [OF assms(1), of chunk] map_of_outside [OF assms(2), of chunk] assms(3,4)
  by (auto simp: map_add_def split: option.split)

section \<open>Insertion\<close>

lemma leaf_ok_keys: "leaf_ok bs lo hi leaf \<longleftrightarrow> wf_leaf bs leaf \<and> leaf_base_chunk leaf = 0 \<and> keys_in lo hi (leaf_abs leaf)"
  by (simp add: leaf_ok_def keys_in_def)

lemma add_leaf_ok:
  assumes "leaf_ok bs lo hi leaf" "add_exception_to_leaf leaf chunk e snap active = Inr leaf'"
    and "lo \<le> chunk" "chunk < hi" "chunk < 2 ^ 32"
  shows "leaf_ok bs lo hi leaf'" "leaf_abs leaf' = add_exception_spec chunk e snap active (leaf_abs leaf)"
proof -
  have wf: "wf_leaf bs leaf" and b: "leaf_base_chunk leaf = 0" using assms(1) by (auto simp: leaf_ok_def)
  note r = add_exception_to_leaf_result [OF wf assms(2)]
  show abs: "leaf_abs leaf' = add_exception_spec chunk e snap active (leaf_abs leaf)"
    using r(3) leaf_target_base [OF b assms(5)] by simp
  have k: "\<forall>(k, es)\<in>set (leaf_abs leaf). lo \<le> k \<and> k < hi" using assms(1) by (simp add: leaf_ok_def)
  have "lo \<le> k \<and> k < hi" if "(k, es) \<in> set (leaf_abs leaf')" for k es
    using set_alist_upd [OF that [unfolded abs add_exception_spec_def]] k assms(3,4) by auto
  then have "keys_in lo hi (leaf_abs leaf')" by (auto simp: keys_in_def)
  then show "leaf_ok bs lo hi leaf'" using r(1,2) b by (simp add: leaf_ok_keys)
qed

text \<open>The two halves of a leaf.\<close>

lemma split_leaf_ok:
  assumes ok: "leaf_ok bs lo hi leaf" and sp: "split_leaf leaf leaf2 = (key, l, r)" and n: "2 \<le> leaf_count leaf"
  shows "leaf_ok bs lo key l" "leaf_ok bs key hi r" "lo < key" "key < hi" "leaf_abs leaf = leaf_abs l @ leaf_abs r"
proof -
  have wf: "wf_leaf bs leaf" and b: "leaf_base_chunk leaf = 0" and k: "keys_in lo hi (leaf_abs leaf)"
    using ok by (auto simp: leaf_ok_keys)
  note abs = split_leaf_abs [OF sp wf_leaf_simps(1) [OF wf]] and eqs = split_leaf_eq [OF sp] and w = split_leaf_wf [OF sp wf]
  let ?h = "split_head leaf"
  have h: "0 < ?h" "?h < leaf_count leaf" using n by (auto simp: split_head_def)
  show cat: "leaf_abs leaf = leaf_abs l @ leaf_abs r" by (simp add: abs)
  have key: "key = fst (leaf_abs leaf ! ?h)" using eqs(1) b h by (simp add: leaf_abs_nth)
  have srt: "sorted_wrt (<) (map fst (leaf_abs leaf))" by (rule wf_leaf_simps(6) [OF wf])
  have less: "fst (leaf_abs leaf ! i) < fst (leaf_abs leaf ! j)" if "i < j" "j < leaf_count leaf" for i j
    using sorted_wrt_nth_less [OF srt that(1)] that by simp
  have kl: "keys_in lo key (leaf_abs l)"
  proof -
    have "lo \<le> fst x \<and> fst x < key" if x: "x \<in> set (leaf_abs l)" for x
    proof -
      obtain i where "i < length (take ?h (leaf_abs leaf))" "take ?h (leaf_abs leaf) ! i = x"
        using x unfolding abs(1) in_set_conv_nth by blast
      then have i: "i < ?h" "x = leaf_abs leaf ! i" by auto
      then have "x \<in> set (leaf_abs leaf)" using h by (simp add: leaf_abs_entry)
      then show ?thesis using k less [OF i(1) h(2)] by (auto simp: keys_in_def key i(2))
    qed
    then show ?thesis by (auto simp: keys_in_def)
  qed
  have kr: "keys_in key hi (leaf_abs r)"
  proof -
    have "key \<le> fst x \<and> fst x < hi" if x: "x \<in> set (leaf_abs r)" for x
    proof -
      obtain i where i: "?h + i < leaf_count leaf" "x = leaf_abs leaf ! (?h + i)"
        using x h by (auto simp: abs in_set_conv_nth less_diff_conv ac_simps)
      then have "x \<in> set (leaf_abs leaf)" by (simp add: leaf_abs_entry)
      moreover have "key \<le> fst x" using i less [of ?h "?h + i"] by (cases i) (auto simp: key intro: less_imp_le)
      ultimately show ?thesis using k by (auto simp: keys_in_def)
    qed
    then show ?thesis by (auto simp: keys_in_def)
  qed
  show "leaf_ok bs lo key l" "leaf_ok bs key hi r" using kl kr w(1,2) eqs(4,5) b by (auto simp: leaf_ok_keys)
  have "leaf_abs leaf ! 0 \<in> set (leaf_abs leaf)" "leaf_abs leaf ! ?h \<in> set (leaf_abs leaf)"
    using h by (intro nth_mem; simp)+
  then show "lo < key" "key < hi" using k less [OF h] unfolding keys_in_def key by fastforce+
qed

text \<open>Insertion into a leaf with room leaves the nodes as they are.\<close>

lemma add_to_leaf_tree:
  assumes ok: "btree_ok sb" and chunk: "chunk < 2 ^ 32"
    and t: "tree_of sb = plug (Tip s) ctx"
    and c: "ctx_ok (view sb) (alloc_per_node (metadata sb)) (allocsize (metadata sb)) 0 lo hi s ctx 0 (2 ^ 32)"
    and l: "leaf_ok (allocsize (metadata sb)) lo hi leaf'" "lo < hi" "length ctx = etree_levels (image sb)"
  shows "btree_ok (put_dirty s (LeafB leaf') sb)"
    "btree_map (put_dirty s (LeafB leaf') sb) =
       tree_map (view sb) (ctx_left ctx) @ leaf_abs leaf' @ tree_map (view sb) (ctx_right ctx)"
proof -
  let ?sb = "put_dirty s (LeafB leaf') sb" and ?m = "alloc_per_node (metadata sb)" and ?bs = "allocsize (metadata sb)"
  have d: "distinct (s # ctx_sectors ctx)" and w: "world sb (set (s # ctx_sectors ctx))" and r: "root (tree_of sb) = etree_root (image sb)"
    using ok distinct_sectors_plug [of "Tip s" ctx] set_sectors_plug [of "Tip s" ctx]
    by (auto simp: btree_ok_def tree_in_def t)
  have v: "view ?sb x = view sb x" if "x \<in> set (ctx_sectors ctx)" for x using that d by auto
  have "ctx_ok (view ?sb) ?m ?bs 0 lo hi (root (Tip s)) ctx 0 (2 ^ 32)"
    unfolding root.simps by (rule ctx_ok_cong [OF c v])
  moreover have "rep (view ?sb) ?m ?bs 0 lo hi (Tip s)" using l(1) by (simp add: rep_0)
  ultimately have "rep (view ?sb) ?m ?bs (etree_levels (image sb)) 0 (2 ^ 32) (plug (Tip s) ctx)"
    using rep_plug l(2,3) by (metis add_0)
  moreover have "world ?sb (set (sectors (plug (Tip s) ctx)))"
    unfolding set_sectors_plug using world_put [OF w] by simp
  ultimately have tr: "tree_in (allocsize (metadata ?sb)) 0 (2 ^ 32) ?sb (plug (Tip s) ctx)"
    using d r by (simp add: tree_in_def t distinct_sectors_plug)
  show "btree_ok ?sb" by (rule btree_okI(1) [OF tr])
  have "tree_map (view ?sb) xs = tree_map (view sb) xs" if "set xs \<subseteq> set (ctx_sectors ctx)" for xs
    by (rule tree_map_cong, rule v) (use that in auto)
  then show "btree_map ?sb = tree_map (view sb) (ctx_left ctx) @ leaf_abs leaf' @ tree_map (view sb) (ctx_right ctx)"
    using ctx_leaves_sectors [of ctx] unfolding btree_okI(2) [OF tr] leaf_list_plug
    by (simp add: tree_map_Cons)
qed

text \<open>A leaf that has been split: the new half is due as a child of the node above.\<close>

lemma split_leaf_tree:
  assumes ok: "btree_ok sb" and t: "tree_of sb = plug (Tip s) ctx"
    and c: "ctx_ok (view sb) (alloc_per_node (metadata sb)) (allocsize (metadata sb)) 0 lo hi s ctx 0 (2 ^ 32)"
    and len: "length ctx = etree_levels (image sb)"
    and nn: "new \<notin> set (s # ctx_sectors ctx)" "world sb1 (insert new (set (s # ctx_sectors ctx)))"
      "keeps sb sb1 (set (s # ctx_sectors ctx))"
    and halves: "leaf_ok (allocsize (metadata sb)) lo key l" "leaf_ok (allocsize (metadata sb)) key hi r" "lo < key" "key < hi"
    and sb2: "view sb2 = (view sb1)(s := LeafB l, new := LeafB r)" "image sb2 = image sb1" "metadata sb2 = metadata sb1"
      "world sb2 (insert new (set (s # ctx_sectors ctx)))"
  shows "child_due (allocsize (metadata sb)) 0 (2 ^ 32) sb2 0 key (Tip s) (Tip new) ctx"
    "child_added (allocsize (metadata sb)) 0 (2 ^ 32) sb2 sb' (Tip s) (Tip new) ctx \<Longrightarrow> btree_ok sb' \<and>
       btree_map sb' = tree_map (view sb) (ctx_left ctx) @ leaf_abs l @ leaf_abs r @ tree_map (view sb) (ctx_right ctx)"
proof -
  let ?m = "alloc_per_node (metadata sb)" and ?bs = "allocsize (metadata sb)"
  have d: "distinct (s # ctx_sectors ctx)" and rt: "root (plug (Tip s) ctx) = etree_root (image sb)"
    using ok distinct_sectors_plug [of "Tip s" ctx] by (auto simp: btree_ok_def tree_in_def t)
  have same: "metadata sb2 = metadata sb" "etree_root (image sb2) = etree_root (image sb)"
    "etree_levels (image sb2) = etree_levels (image sb)" using nn(3) by (simp_all add: keeps_def sb2 later_def)
  have v: "view sb2 x = view sb x" if "x \<in> set (ctx_sectors ctx)" for x
    using that nn(1,3) d by (auto simp: sb2(1) keeps_def)
  have "ctx_ok (view sb2) ?m ?bs 0 lo hi s ctx 0 (2 ^ 32)" by (rule ctx_ok_cong [OF c v])
  moreover have "rep (view sb2) ?m ?bs 0 lo key (Tip s)" "rep (view sb2) ?m ?bs 0 key hi (Tip new)"
    using halves(1,2) nn(1) by (auto simp: rep_0 sb2(1))
  moreover have "world sb2 (set (sectors (Tip s) @ sectors (Tip new) @ ctx_sectors ctx))"
    using sb2(4) by (simp add: insert_commute)
  ultimately show "child_due ?bs 0 (2 ^ 32) sb2 0 key (Tip s) (Tip new) ctx"
    using halves(3,4) d nn(1) rt len unfolding child_due_def same by auto
  assume a: "child_added ?bs 0 (2 ^ 32) sb2 sb' (Tip s) (Tip new) ctx"
  have m': "allocsize (metadata sb') = ?bs" using a same(1) by (simp add: child_added_def later_def)
  obtain t' where t': "tree_in (allocsize (metadata sb')) 0 (2 ^ 32) sb' t'"
    "leaf_list t' = ctx_left ctx @ [s, new] @ ctx_right ctx"
    using a unfolding child_added_def m' by auto
  have frames: "fst ` set ctx \<inter> set (ctx_left ctx @ [s, new] @ ctx_right ctx) = {}"
    using frames_not_leaves [of ctx] frames_sectors [of ctx] d nn(1) by auto
  have v': "view sb' x = view sb2 x" if "x \<in> set (ctx_left ctx @ [s, new] @ ctx_right ctx)" for x
  proof -
    have "x \<in> set (sectors (Tip s) @ sectors (Tip new) @ ctx_sectors ctx)" "x \<notin> fst ` set ctx"
      using that frames ctx_leaves_sectors [of ctx] by auto
    then show ?thesis using a unfolding child_added_def by blast
  qed
  have "tree_map (view sb') xs = tree_map (view sb) xs" if "set xs \<subseteq> set (ctx_left ctx) \<union> set (ctx_right ctx)" for xs
  proof (rule tree_map_cong)
    fix x assume "x \<in> set xs"
    with that have x: "x \<in> set (ctx_left ctx) \<union> set (ctx_right ctx)" by blast
    then have "view sb' x = view sb2 x" by (intro v') auto
    also have "\<dots> = view sb x" by (rule v) (use x ctx_leaves_sectors [of ctx] in blast)
    finally show "view sb' x = view sb x" .
  qed
  moreover have "tree_map (view sb') [s, new] = leaf_abs l @ leaf_abs r"
    using v' [of s] v' [of new] nn(1) by (simp add: tree_map_def sb2(1))
  ultimately show "btree_ok sb' \<and>
       btree_map sb' = tree_map (view sb) (ctx_left ctx) @ leaf_abs l @ leaf_abs r @ tree_map (view sb) (ctx_right ctx)"
    using btree_okI [OF t'(1)] by (simp only: t'(2) tree_map_append) simp
qed

text \<open>
  \<open>add_exception_to_tree\<close> on a path that \<open>probe\<close> has found.  There are blocks
  for a leaf, for a node on every level and for a new root.
\<close>

lemma add_exception_to_tree_ok:
  assumes ok: "btree_ok sb" and shares: "btree_shares sb" and chunk: "chunk < 2 ^ 32"
    and bs: "1088 \<le> allocsize (metadata sb)" and m: "2 \<le> alloc_per_node (metadata sb)"
    and free: "etree_levels (image sb) + 2 \<le> freechunks (asi sb Meta)"
    and pr: "probe sb chunk = Some (leafbuf, path)"
  shows "\<exists>sb'. add_exception_to_tree leafbuf chunk e snap path sb = (None, sb') \<and> btree_ok sb' \<and>
    btree_map sb' = add_exception_spec chunk e snap (snapmask sb) (btree_map sb) \<and>
    later sb sb'"
proof -
  let ?bs = "allocsize (metadata sb)" and ?f = "add_exception_spec chunk e snap (snapmask sb)"
  obtain lo hi ctx leaf where p: "path = rev (path_of ctx)" "tree_of sb = plug (Tip leafbuf) ctx"
    "ctx_ok (view sb) (alloc_per_node (metadata sb)) ?bs 0 lo hi leafbuf ctx 0 (2 ^ 32)"
    "view sb leafbuf = LeafB leaf" "leaf_ok ?bs lo hi leaf" "lo \<le> chunk" "chunk < hi" "length ctx = etree_levels (image sb)"
    and map: "btree_map sb = tree_map (view sb) (ctx_left ctx) @ leaf_abs leaf @ tree_map (view sb) (ctx_right ctx)"
    "keys_in 0 lo (tree_map (view sb) (ctx_left ctx))" "keys_in hi (2 ^ 32) (tree_map (view sb) (ctx_right ctx))"
    by (rule probe_leaf [OF ok chunk]) (use pr in auto)
  have spec: "?f (btree_map sb) = tree_map (view sb) (ctx_left ctx) @ ?f (leaf_abs leaf) @ tree_map (view sb) (ctx_right ctx)"
    using alist_upd_middle [OF map(2,3) p(6,7)] p(5) by (simp add: map(1) add_exception_spec_def leaf_ok_keys)
  have wf: "wf_leaf ?bs leaf" using p(5) by (simp add: leaf_ok_def)
  show ?thesis
  proof (cases "add_exception_to_leaf leaf chunk e snap (snapmask sb)")
    case (Inr leaf')
    note a = add_leaf_ok [OF p(5) Inr p(6,7) chunk]
    have "add_exception_to_tree leafbuf chunk e snap path sb = (None, put_dirty leafbuf (LeafB leaf') sb)"
      by (simp add: add_exception_to_tree_def p(4) Inr)
    moreover have "later sb (put_dirty leafbuf (LeafB leaf') sb)"
      by (rule later_put [of sb "set (sectors (tree_of sb))"]) (use ok in \<open>auto simp: btree_ok_def tree_in_def p(2) set_sectors_plug\<close>)
    ultimately show ?thesis using add_to_leaf_tree [OF ok chunk p(2,3) a(1) _ p(8)] p(6,7) a(2) spec by auto
  next
    case (Inl err)
    have need: "leaf_need x chunk \<le> 24" for x by (simp add: leaf_need_def)
    have full: "leaf_freespace leaf < 24"
      using add_exception_to_leaf_ok [OF wf, of chunk e snap "snapmask sb"] need [of leaf] Inl by fastforce
    have sh: "wf_leaf_shares (snapmask sb) leaf"
      using shares by (auto simp: wf_leaf_shares_def btree_shares_def map(1))
    let ?S = "set (leafbuf # ctx_sectors ctx)"
    have w: "world sb ?S" using ok by (auto simp: btree_ok_def tree_in_def p(2) set_sectors_plug)
    have fr: "0 < freechunks (asi sb Meta)" using free by simp
    obtain new sb1 where nn: "new_leaf sb = (Some new, sb1)" "new \<notin> ?S" "world sb1 (insert new ?S)" "keeps sb sb1 ?S"
      "freechunks (asi sb Meta) = Suc (freechunks (asi sb1 Meta))"
      using new_leaf_world [OF w fr] by metis
    have v1: "leaf_at sb1 leafbuf = leaf" using nn(4) p(4) by (simp add: keeps_def)
    obtain key l r where sp: "split_leaf leaf (leaf_at sb1 new) = (key, l, r)" by (metis prod_cases3)
    note h = split_leaf_ok [OF p(5) sp full_leaf_count [OF wf sh bs full]]
    note room = split_leaf_room [OF wf sh bs full sp]
    let ?into = "if chunk < key then l else r"
    have "leaf_need ?into chunk \<le> leaf_freespace ?into" using need [of l] need [of r] room by simp
    moreover have "wf_leaf ?bs ?into" using h(1,2) by (simp add: leaf_ok_def)
    ultimately obtain half where half: "add_exception_to_leaf ?into chunk e snap (snapmask sb) = Inr half"
      using add_exception_to_leaf_ok by blast
    define l' where "l' = (if chunk < key then half else l)"
    define r' where "r' = (if chunk < key then r else half)"
    have halves: "leaf_ok ?bs lo key l'" "leaf_ok ?bs key hi r'" "leaf_abs l' @ leaf_abs r' = ?f (leaf_abs leaf)"
    proof -
      have kl: "keys_in 0 0 []" "keys_in key key []" by simp_all
      show "leaf_ok ?bs lo key l'" "leaf_ok ?bs key hi r'"
        using h(1,2) add_leaf_ok(1) [OF h(1) _ p(6) _ chunk] add_leaf_ok(1) [OF h(2) _ _ p(7) chunk] half
        by (auto simp: l'_def r'_def split: if_splits)
      show "leaf_abs l' @ leaf_abs r' = ?f (leaf_abs leaf)"
      proof (cases "chunk < key")
        case True
        have "?f ([] @ leaf_abs l @ leaf_abs r) = [] @ ?f (leaf_abs l) @ leaf_abs r"
          unfolding add_exception_spec_def
          by (rule alist_upd_middle [of lo lo "[]" key hi]) (use True h p(6) in \<open>auto simp: leaf_ok_keys\<close>)
        then show ?thesis using True half add_leaf_ok(2) [OF h(1) _ p(6) True chunk] by (simp add: l'_def r'_def h(5))
      next
        case False
        then have le: "key \<le> chunk" by simp
        have "?f (leaf_abs l @ leaf_abs r @ []) = leaf_abs l @ ?f (leaf_abs r) @ []"
          unfolding add_exception_spec_def
          by (rule alist_upd_middle [of lo key _ hi hi]) (use le h p(7) in \<open>auto simp: leaf_ok_keys\<close>)
        then show ?thesis using False half add_leaf_ok(2) [OF h(2) _ le p(7) chunk] by (simp add: l'_def r'_def h(5))
      qed
    qed
    define sb2 where "sb2 = set_buffer_dirty new (set_buffer_dirty leafbuf
        (set_data (if chunk < key then leafbuf else new) (LeafB half) (set_data new (LeafB r) (set_data leafbuf (LeafB l) sb1))))"
    have "snapmask (set_data new (LeafB r) (set_data leafbuf (LeafB l) sb1)) = snapmask sb"
      using nn(4) by (simp add: keeps_def later_def)
    then have run: "add_exception_to_tree leafbuf chunk e snap path sb = insert_up (path_of ctx) new key sb2"
      using half by (simp add: add_exception_to_tree_def p(1,4) Inl nn(1) v1 sp sb2_def Let_def split: if_splits)
    have sb2: "view sb2 = (view sb1)(leafbuf := LeafB l', new := LeafB r')" "image sb2 = image sb1" "metadata sb2 = metadata sb1"
      "snapmask sb2 = snapmask sb1" "asi sb2 Meta = asi sb1 Meta" "same_alloc sb1 sb2"
      using nn(2) world_outside [OF nn(3)] by (auto simp: sb2_def l'_def r'_def same_alloc_def)
    have w2: "world sb2 (insert new ?S)" by (rule same_alloc_world [OF sb2(6) nn(3)])
    note due = split_leaf_tree [OF ok p(2,3,8) nn(2-4) halves(1,2) h(3,4) sb2(1-3) w2]
    have "2 \<le> alloc_per_node (metadata sb2)" "length ctx < freechunks (asi sb2 Meta)"
      using m free nn(4,5) p(8) by (simp_all add: sb2 keeps_def later_def)
    from insert_up_added [OF due(1) this] obtain sb' where
      up: "insert_up (path_of ctx) (root (Tip new)) key sb2 = (None, sb')" "child_added ?bs 0 (2 ^ 32) sb2 sb' (Tip leafbuf) (Tip new) ctx"
      by blast
    moreover have "later sb sb'"
      using up(2) nn(4) later_trans same_alloc_later [OF sb2(6) world_counted [OF nn(3)]]
      by (metis child_added_def keeps_def)
    ultimately show ?thesis using due(2) spec halves(3) run by (intro exI [of _ sb']) auto
  qed
qed

end
