(* ===== verification/Btree_Traverse.thy ===== *)
theory Btree_Traverse
  imports Btree_Tree
begin

text \<open>
  The walk over the leaves.  The stack of the code is a list of frames, the
  deepest first: a node with the children it is done with and those still to
  be visited.
\<close>

section \<open>Shape\<close>

fun shape :: "'a superblock_scheme \<Rightarrow> nat \<Rightarrow> etree \<Rightarrow> bool" where
  "shape sb 0 t \<longleftrightarrow> (\<exists>s. t = Tip s \<and> \<not> bad_sector sb s)"
| "shape sb (Suc n) t \<longleftrightarrow>
     (\<exists>s cs. t = Branch s cs \<and> cs \<noteq> [] \<and> view sb s = NodeB (node_of cs) \<and> \<not> bad_sector sb s \<and> (\<forall>(k, c)\<in>set cs. shape sb n c))"

declare shape.simps [simp del]

lemma shape_0: "shape sb 0 t \<longleftrightarrow> (\<exists>s. t = Tip s \<and> \<not> bad_sector sb s)"
  by (simp add: shape.simps)

lemma shape_Suc: "shape sb (Suc n) t \<longleftrightarrow>
     (\<exists>s cs. t = Branch s cs \<and> cs \<noteq> [] \<and> view sb s = NodeB (node_of cs) \<and> \<not> bad_sector sb s \<and> (\<forall>(k, c)\<in>set cs. shape sb n c))"
  by (simp add: shape.simps)

lemma rep_shape:
  "rep (view sb) m bs n lo hi t \<Longrightarrow> \<forall>s\<in>set (sectors t). \<not> bad_sector sb s \<Longrightarrow> shape sb n t"
proof (induction n arbitrary: lo hi t)
  case 0 then show ?case by (auto simp: rep_0 shape_0)
next
  case (Suc n)
  obtain s cs where t: "t = Branch s cs" "view sb s = NodeB (node_of cs)" "kids (rep (view sb) m bs n) lo hi cs"
    using Suc.prems(1) by (auto simp: rep_Suc)
  have "shape sb n c" if "(k, c) \<in> set cs" for k c
    using kids_mem [OF t(3) that] Suc.prems(2) that by (fastforce intro: Suc.IH simp: t(1))
  then show ?case using t Suc.prems(2) kids_not_Nil by (auto simp: shape_Suc)
qed

lemma shape_leaves: "shape sb n t \<Longrightarrow> leaf_list t \<noteq> []"
proof (induction n arbitrary: t)
  case (Suc n) then show ?case by (fastforce simp: shape_Suc neq_Nil_conv)
qed (auto simp: shape_0)

section \<open>Frames\<close>

type_synonym walk_frame = "sector_t \<times> (chunk_t \<times> etree) list \<times> (chunk_t \<times> etree) list"

fun frames_ok :: "'a superblock_scheme \<Rightarrow> nat \<Rightarrow> walk_frame list \<Rightarrow> bool" where
  "frames_ok sb n [] \<longleftrightarrow> True"
| "frames_ok sb n ((s, ds, rs) # fs) \<longleftrightarrow>
     view sb s = NodeB (node_of (ds @ rs)) \<and> (\<forall>(k, t)\<in>set rs. shape sb n t) \<and> frames_ok sb (Suc n) fs"

definition stack_of :: "walk_frame list \<Rightarrow> etree_path" where
  "stack_of fs = map (\<lambda>(s, ds, rs). (s, length ds)) fs"

definition todo :: "walk_frame list \<Rightarrow> sector_t list" where
  "todo fs = concat (map (\<lambda>(s, ds, rs). kids_leaves rs) fs)"

lemma stack_of_simps [simp]:
  "stack_of [] = []" "stack_of ((s, ds, rs) # fs) = (s, length ds) # stack_of fs" "stack_of (fs @ gs) = stack_of fs @ stack_of gs"
  "length (stack_of fs) = length fs"
  by (simp_all add: stack_of_def)

lemma todo_simps [simp]:
  "todo [] = []" "todo ((s, ds, rs) # fs) = kids_leaves rs @ todo fs" "todo (fs @ gs) = todo fs @ todo gs"
  by (simp_all add: todo_def)

lemma frames_ok_append: "frames_ok sb n (fs @ gs) \<longleftrightarrow> frames_ok sb n fs \<and> frames_ok sb (n + length fs) gs"
  by (induction sb n fs rule: frames_ok.induct) auto

text \<open>The descent along the first children.\<close>

lemma push_down_shape:
  "shape sb (Suc n) t \<Longrightarrow>
   \<exists>s cs fs. push_down sb n ((root t, 0) # stk) = Some (stack_of ((s, [], cs) # fs) @ stk) \<and>
     frames_ok sb 0 ((s, [], cs) # fs) \<and> length fs = n \<and> todo ((s, [], cs) # fs) = leaf_list t \<and> cs \<noteq> []"
proof (induction n arbitrary: t stk)
  case 0
  then obtain s cs where "t = Branch s cs" "cs \<noteq> []" "view sb s = NodeB (node_of cs)" "\<forall>(k, c)\<in>set cs. shape sb 0 c"
    by (auto simp: shape_Suc)
  then show ?case by (intro exI [of _ s] exI [of _ cs] exI [of _ "[]"]) auto
next
  case (Suc n)
  then obtain s k c cs where t: "t = Branch s ((k, c) # cs)" "view sb s = NodeB (node_of ((k, c) # cs))"
    "shape sb (Suc n) c" "\<forall>(k, c)\<in>set cs. shape sb (Suc n) c"
    by (auto simp: shape_Suc [of _ "Suc n"] neq_Nil_conv)
  have rd: "bread sb (root c) \<noteq> None" using t(3) by (auto simp: shape_Suc bread_SomeI)
  have es: "entry_sector (node_at sb s) 0 = root c"
    by (simp add: t(2) entry_sector_def node_of_def node_count_def entry_of_def)
  obtain b bs fs where ih: "push_down sb n ((root c, 0) # (s, 1) # stk) = Some (stack_of ((b, [], bs) # fs) @ (s, 1) # stk)"
    "frames_ok sb 0 ((b, [], bs) # fs)" "length fs = n" "todo ((b, [], bs) # fs) = leaf_list c" "bs \<noteq> []"
    using Suc.IH [OF t(3)] by blast
  have "push_down sb (Suc n) ((root t, 0) # stk) = Some (stack_of ((b, [], bs) # fs @ [(s, [(k, c)], cs)]) @ stk)"
    using ih(1) rd by (auto simp: t(1) es)
  moreover have "frames_ok sb 0 ((b, [], bs) # fs @ [(s, [(k, c)], cs)])"
    using ih(2,3) t(2,4) frames_ok_append [of sb 0 "(b, [], bs) # fs"] by simp
  ultimately show ?case using ih(3-5)
    by (intro exI [of _ b] exI [of _ bs] exI [of _ "fs @ [(s, [(k, c)], cs)]"]) (simp add: t(1))
qed

lemma visit_leaves_fold:
  "\<forall>s\<in>set xs. \<not> bad_sector sb s \<Longrightarrow> visit_leaves sb visit xs acc = (True, fold visit (map (leaf_at sb) xs) acc)"
  by (induction xs arbitrary: acc) (auto simp: bread_SomeI)

lemma bottom_sectors:
  assumes "view sb s = NodeB (node_of (ds @ cs))" "\<forall>(k, c)\<in>set cs. shape sb 0 c"
  shows "rest_sectors sb ((s, length ds) # stk) = kids_leaves cs" "\<forall>s\<in>set (kids_leaves cs). \<not> bad_sector sb s"
proof -
  have "map ie_sector (map entry_of cs) = kids_leaves cs"
    using assms(2) by (induction cs) (auto simp: shape_0 entry_of_def)
  then show "rest_sectors sb ((s, length ds) # stk) = kids_leaves cs"
    by (simp add: rest_sectors_def assms(1) node_of_def)
  show "\<forall>s\<in>set (kids_leaves cs). \<not> bad_sector sb s" using assms(2) by (fastforce simp: shape_0)
qed

lemma pop_frames:
  "frames_ok sb n fs \<Longrightarrow>
   pop_finished sb (stack_of fs) = stack_of (dropWhile (\<lambda>(s, ds, rs). rs = []) fs) \<and>
   todo (dropWhile (\<lambda>(s, ds, rs). rs = []) fs) = todo fs \<and>
   frames_ok sb (n + length fs - length (dropWhile (\<lambda>(s, ds, rs). rs = []) fs)) (dropWhile (\<lambda>(s, ds, rs). rs = []) fs)"
proof (induction sb n fs rule: frames_ok.induct)
  case (2 sb n s ds rs fs)
  then show ?case by (cases "rs = []") (auto simp: node_of_def node_count_def)
qed simp

section \<open>The loop\<close>

text \<open>One round behind the descent: visit the leaves of a bottom node and pop what is finished.\<close>

lemma walk_round:
  assumes "frames_ok sb 0 ((s, ds, cs) # fs)"
  shows "visit_leaves sb visit (rest_sectors sb (stack_of ((s, ds, cs) # fs))) acc =
      (True, fold visit (map (leaf_at sb) (kids_leaves cs)) acc)"
    "pop_finished sb (tl (stack_of ((s, ds, cs) # fs))) = stack_of (dropWhile (\<lambda>(s, ds, rs). rs = []) fs)"
    "todo ((s, ds, cs) # fs) = kids_leaves cs @ todo (dropWhile (\<lambda>(s, ds, rs). rs = []) fs)"
    "frames_ok sb (Suc (length fs) - length (dropWhile (\<lambda>(s, ds, rs). rs = []) fs)) (dropWhile (\<lambda>(s, ds, rs). rs = []) fs)"
  using assms pop_frames [of sb 1 fs] bottom_sectors [of sb s ds cs] by (auto simp: visit_leaves_fold)

lemma hd_dropWhile_rest:
  "dropWhile (\<lambda>(s, ds, rs). rs = []) fs = (s, ds, rs) # gs \<Longrightarrow> rs \<noteq> []"
  using hd_dropWhile [of "\<lambda>(s, ds, rs). rs = []" fs] by auto

lemma traverse_frames:
  assumes "frames_ok sb n ((s, ds, (k, t) # rs) # fs)" "1 \<le> n" "n + Suc (length fs) = etree_levels (image sb)"
    and "length (todo ((s, ds, (k, t) # rs) # fs)) \<le> rounds"
  shows "traverse_loop rounds sb visit (stack_of ((s, ds, (k, t) # rs) # fs)) acc =
    Inr (None, fold visit (map (leaf_at sb) (todo ((s, ds, (k, t) # rs) # fs))) acc)"
  using assms
proof (induction rounds arbitrary: n s ds k t rs fs acc)
  case 0
  then show ?case using shape_leaves [of sb n t] by simp
next
  case (Suc rounds)
  obtain i where i: "n = Suc i" using Suc.prems(2) by (cases n) auto
  have v: "view sb s = NodeB (node_of (ds @ (k, t) # rs))" and t: "shape sb (Suc i) t"
    using Suc.prems(1) by (auto simp: i)
  have up: "frames_ok sb (Suc i) ((s, ds @ [(k, t)], rs) # fs)" using Suc.prems(1) by (simp add: i)
  have es: "entry_sector (node_at sb s) (length ds) = root t"
    by (simp add: v entry_sector_def node_of_def node_count_def entry_of_def nth_append)
  have rd: "bread sb (root t) \<noteq> None" using t by (auto simp: shape_Suc bread_SomeI)
  obtain b bs gs where p: "push_down sb i ((root t, 0) # stack_of ((s, ds @ [(k, t)], rs) # fs)) =
      Some (stack_of ((b, [], bs) # gs @ (s, ds @ [(k, t)], rs) # fs))"
    "frames_ok sb 0 ((b, [], bs) # gs)" "length gs = i" "todo ((b, [], bs) # gs) = leaf_list t" "bs \<noteq> []"
    using push_down_shape [OF t, of "stack_of ((s, ds @ [(k, t)], rs) # fs)"] by auto
  let ?fs = "gs @ (s, ds @ [(k, t)], rs) # fs"
  let ?rest = "dropWhile (\<lambda>(s, ds, rs). rs = []) ?fs"
  have ok: "frames_ok sb 0 ((b, [], bs) # ?fs)"
    using frames_ok_append [of sb 0 "(b, [], bs) # gs"] p(2,3) up by simp
  note r = walk_round [OF ok]
  have lt: "leaf_list t = kids_leaves bs @ todo gs" using p(4) by simp
  have td: "todo ((s, ds, (k, t) # rs) # fs) = kids_leaves bs @ todo ?rest"
    using r(3) by (simp add: lt)
  have "max 1 (etree_levels (image sb) - Suc (length fs)) = Suc i" using Suc.prems(3) by (simp add: i)
  then have push: "push_down sb (max 1 (etree_levels (image sb) - length (stack_of ((s, ds, (k, t) # rs) # fs))))
      (stack_of ((s, ds, (k, t) # rs) # fs)) = Some (stack_of ((b, [], bs) # ?fs))"
    using p(1) rd by (auto simp: es)
  have step: "traverse_loop (Suc rounds) sb visit (stack_of ((s, ds, (k, t) # rs) # fs)) acc =
      (case stack_of ?rest of [] \<Rightarrow> Inr (None, fold visit (map (leaf_at sb) (kids_leaves bs)) acc)
       | x # xs \<Rightarrow> traverse_loop rounds sb visit (x # xs) (fold visit (map (leaf_at sb) (kids_leaves bs)) acc))"
    unfolding traverse_loop.simps push option.case r(1,2) prod.case bool.case by (simp split: list.split)
  show ?case
  proof (cases ?rest)
    case Nil
    show ?thesis unfolding step td Nil by simp
  next
    case (Cons f gs')
    obtain s' ds' rs' where f: "f = (s', ds', rs')" by (cases f) auto
    obtain k' t' rs'' where rs': "rs' = (k', t') # rs''" using hd_dropWhile_rest Cons f by (metis neq_Nil_conv surj_pair)
    have n': "length ?rest \<le> length ?fs" by (rule length_dropWhile_le)
    have "leaf_list t' \<noteq> []" "kids_leaves bs \<noteq> []"
      using r(4) p(2,5) shape_leaves unfolding Cons f rs' by (fastforce simp: neq_Nil_conv)+
    then have "length (todo ((s', ds', (k', t') # rs'') # gs')) \<le> rounds"
      using Suc.prems(4) unfolding td Cons f rs' by (cases "kids_leaves bs") auto
    moreover have "1 \<le> Suc (length ?fs) - length ?rest"
      "Suc (length ?fs) - length ?rest + Suc (length gs') = etree_levels (image sb)"
      using n' Suc.prems(3) p(3) by (auto simp: Cons i)
    ultimately show ?thesis
      using Suc.IH [OF r(4) [unfolded Cons f rs'], folded f rs'] unfolding step td Cons f rs' by simp
  qed
qed

text \<open>What is left of the walk behind the leaves of a bottom node.\<close>

lemma walk_rest:
  assumes ok: "frames_ok sb 0 ((b, ds, bs) # fs)" and len: "Suc (length fs) = etree_levels (image sb)"
    and rounds: "length (todo fs) \<le> rounds"
  shows "(case visit_leaves sb visit (rest_sectors sb (stack_of ((b, ds, bs) # fs))) acc of
      (False, acc) \<Rightarrow> Inr (Some EIO, acc)
    | (True, acc) \<Rightarrow>
        (case pop_finished sb (tl (stack_of ((b, ds, bs) # fs))) of
           [] \<Rightarrow> Inr (None, acc)
         | stack \<Rightarrow> traverse_loop rounds sb visit stack acc)) =
    Inr (None, fold visit (map (leaf_at sb) (todo ((b, ds, bs) # fs))) acc)"
proof -
  let ?rest = "dropWhile (\<lambda>(s, ds, rs). rs = []) fs"
  note r = walk_round [OF ok]
  have td: "todo fs = todo ?rest" using r(3) by simp
  show ?thesis
  proof (cases ?rest)
    case Nil
    show ?thesis unfolding r(1,2) r(3) Nil by simp
  next
    case (Cons f gs)
    obtain s' ds' rs' where f: "f = (s', ds', rs')" by (cases f) auto
    obtain k' t' rs'' where rs': "rs' = (k', t') # rs''" using hd_dropWhile_rest Cons f by (metis neq_Nil_conv surj_pair)
    have "length ?rest \<le> length fs" by (rule length_dropWhile_le)
    then have n: "1 \<le> Suc (length fs) - length ?rest" "Suc (length fs) - length ?rest + Suc (length gs) = etree_levels (image sb)"
      using len by (auto simp: Cons)
    have "length (todo (f # gs)) \<le> rounds" using rounds unfolding td Cons .
    note t = traverse_frames [OF r(4) [unfolded Cons f rs'] n [unfolded Cons f rs'] this [unfolded f rs']]
    show ?thesis
      unfolding r(1,2) r(3) Cons f rs' using t [unfolded length_Cons] by simp
  qed
qed

text \<open>The whole walk: every leaf from the one that covers \<open>start\<close> is visited once, in order.\<close>

lemma traverse_all:
  assumes ok: "btree_ok sb" and lev: "1 \<le> etree_levels (image sb)" and rounds: "length (leaf_list (tree_of sb)) \<le> rounds"
  shows "traverse_loop rounds sb visit [] acc = Inr (None, fold visit (map (leaf_at sb) (leaf_list (tree_of sb))) acc)"
proof -
  obtain n where n: "etree_levels (image sb) = Suc n" using lev by (cases "etree_levels (image sb)") auto
  have t: "shape sb (Suc n) (tree_of sb)" "root (tree_of sb) = etree_root (image sb)"
    using ok rep_shape world_readable unfolding n [symmetric] by (fastforce simp: btree_ok_def tree_in_def)+
  obtain m where m: "rounds = Suc m" using rounds shape_leaves [OF t(1)] by (cases rounds) auto
  obtain b bs fs where p: "push_down sb n ((root (tree_of sb), 0) # []) = Some (stack_of ((b, [], bs) # fs) @ [])"
    "frames_ok sb 0 ((b, [], bs) # fs)" "length fs = n" "todo ((b, [], bs) # fs) = leaf_list (tree_of sb)" "bs \<noteq> []"
    using push_down_shape [OF t(1), of "[]"] by blast
  have "bread sb (root (tree_of sb)) \<noteq> None" using t(1) by (auto simp: shape_Suc bread_SomeI)
  then have push: "push_down sb (max 1 (etree_levels (image sb) - length ([] :: etree_path))) [] = Some (stack_of ((b, [], bs) # fs))"
    using p(1) by (auto simp: n t(2))
  have "kids_leaves bs \<noteq> []" using p(2,5) shape_leaves by (fastforce simp: neq_Nil_conv)
  then have le: "length (todo fs) \<le> m" using rounds p(4) by (cases "kids_leaves bs") (auto simp: m simp flip: p(4))
  show ?thesis
    unfolding m traverse_loop.simps push option.case
    using walk_rest [OF p(2) _ le, of visit acc] by (simp only: p(3) n p(4))
qed

lemma ctx_frames:
  assumes "ctx_ok (view sb) m bs n lo hi (root t) ctx LO HI" "\<forall>s\<in>set (ctx_sectors ctx). \<not> bad_sector sb s"
  shows "\<exists>fs. frames_ok sb n fs \<and> stack_of fs = path_of ctx \<and> todo fs = ctx_right ctx \<and> length fs = length ctx"
  using assms
proof (induction ctx arbitrary: n lo hi t)
  case (Cons f ctx)
  obtain s ls k rs where f: "f = (s, ls, k, rs)" by (cases f) auto
  obtain lo' hi' where c: "view sb s = NodeB (node_of (ls @ (k, Tip (root t)) # rs))"
    "right_ok (rep (view sb) m bs n) hi rs hi'" "ctx_ok (view sb) m bs (Suc n) lo' hi' (root (Tip s)) ctx LO HI"
    using Cons.prems(1) by (auto simp: f)
  obtain fs where fs: "frames_ok sb (Suc n) fs" "stack_of fs = path_of ctx" "todo fs = ctx_right ctx" "length fs = length ctx"
    using Cons.IH [OF c(3)] Cons.prems(2) by (auto simp: f)
  have "shape sb n c" if x: "(x, c) \<in> set rs" for x c
  proof -
    have "kids (rep (view sb) m bs n) hi hi' rs" using c(2) x by (auto simp: right_ok_def split: if_splits)
    from kids_mem [OF this x] show ?thesis using rep_shape Cons.prems(2) x by (fastforce simp: f)
  qed
  then show ?case using c(1) fs
    by (intro exI [of _ "(s, ls @ [(k, Tip (root t))], rs) # fs"]) (auto simp: f path_of_def)
qed (auto simp: path_of_def)

lemma traverse_from:
  assumes ok: "btree_ok sb" and lev: "1 \<le> etree_levels (image sb)" and rounds: "length (leaf_list (tree_of sb)) \<le> rounds"
    and start: "start < 2 ^ 32"
  shows "\<exists>pre post. leaf_list (tree_of sb) = pre @ post \<and> keys_in 0 start (tree_map (view sb) pre) \<and>
    traverse_tree_range rounds sb start visit acc = Inr (None, fold visit (map (leaf_at sb) post) acc)"
proof (cases "start = 0")
  case True
  then show ?thesis using traverse_all [OF ok lev rounds]
    by (intro exI [of _ "[]"] exI [of _ "leaf_list (tree_of sb)"]) (simp add: traverse_tree_range_def tree_map_def)
next
  case False
  obtain s lo hi ctx leaf where p: "probe sb start = Some (s, rev (path_of ctx))" "tree_of sb = plug (Tip s) ctx"
    "ctx_ok (view sb) (alloc_per_node (metadata sb)) (allocsize (metadata sb)) 0 lo hi s ctx 0 (2 ^ 32)"
    "lo \<le> start" "length ctx = etree_levels (image sb)" "keys_in 0 lo (tree_map (view sb) (ctx_left ctx))"
    by (rule probe_leaf [OF ok start])
  have "\<forall>x\<in>set (ctx_sectors ctx). \<not> bad_sector sb x"
    using ok world_readable by (fastforce simp: btree_ok_def tree_in_def p(2) set_sectors_plug)
  with ctx_frames [of sb _ _ 0 lo hi "Tip s" ctx] p(3) obtain fs where
    fs: "frames_ok sb 0 fs" "stack_of fs = path_of ctx" "todo fs = ctx_right ctx" "length fs = length ctx" by fastforce
  obtain b ds bs gs where g: "fs = (b, ds, bs) # gs" using fs(4) p(5) lev by (cases fs) auto
  have "length (todo gs) \<le> rounds" using rounds fs(3) by (simp add: p(2) leaf_list_plug g flip: fs(3))
  note w = walk_rest [OF fs(1) [unfolded g] _ this, folded g, unfolded fs(2,3)]
  have "traverse_tree_range rounds sb start visit acc = Inr (None, fold visit (map (leaf_at sb) (s # ctx_right ctx)) acc)"
    using False w [of visit "visit (leaf_at sb s) acc"] fs(4) p(5)
    unfolding traverse_tree_range_def p(1) option.case prod.case Let_def rev_rev_ident by (simp add: g)
  moreover have "keys_in 0 start (tree_map (view sb) (ctx_left ctx))" using p(4,6) by (rule keys_in_mono [rotated 2]) simp
  ultimately show ?thesis by (intro exI [of _ "ctx_left ctx"] exI [of _ "s # ctx_right ctx"]) (simp add: p(2) leaf_list_plug)
qed

text \<open>All leaves of a well-formed tree count their chunks from zero.\<close>

lemma leaves_base:
  assumes "btree_ok sb"
  shows "\<forall>s\<in>set (leaf_list (tree_of sb)). leaf_base_chunk (leaf_at sb s) = 0"
proof -
  have "\<forall>s\<in>set (leaf_list t). leaf_base_chunk (leaf_at sb s) = 0" if "rep (view sb) m bs n lo hi t" for m bs n lo hi t
    using that
  proof (induction n arbitrary: lo hi t)
    case 0 then show ?case by (auto simp: rep_0 leaf_ok_def)
  next
    case (Suc n)
    then obtain s cs where t: "t = Branch s cs" "kids (rep (view sb) m bs n) lo hi cs" by (auto simp: rep_Suc)
    show ?case using kids_mem [OF t(2)] Suc.IH by (fastforce simp: t(1))
  qed
  then show ?thesis using assms by (auto simp: btree_ok_def tree_in_def)
qed

end
