(* ===== verification/Btree_Delete.thy ===== *)
theory Btree_Delete
  imports Btree
begin

text \<open>
  Deleting the exceptions of snapshots from the tree: a walk over all leaves
  that merges a leaf with the previous one and a node with the previous one of
  its level wherever they fit into one block.  The walk keeps the path to the
  leaf, the nodes on hold (the previous node of each level) and the previous
  leaf.
\<close>

record walk =
  w_path :: etree_path
  w_hold :: "sector_t option list"
  w_prev :: "sector_t option"
  w_leaf :: sector_t

definition merge_nodes :: "enode \<Rightarrow> enode \<Rightarrow> enode" where
  "merge_nodes node node2 = node\<lparr>node_entries := node_entries node @ node_entries node2\<rparr>"

definition finished_level :: "'a superblock_scheme \<Rightarrow> etree_path \<Rightarrow> nat \<Rightarrow> bool" where
  "finished_level sb path level \<longleftrightarrow> snd (path ! level) = node_count (node_at sb (fst (path ! level)))"

text \<open>
  The entry before \<open>pnext\<close> goes away.  If it was the first of its node, the key
  of the entry that is now the first moves up to the lowest node of the path
  that was not entered through its first entry.
\<close>

definition set_key :: "enode \<Rightarrow> nat \<Rightarrow> chunk_t \<Rightarrow> enode" where
  "set_key node i key = node\<lparr>node_entries := (node_entries node)[i := (node_entries node ! i)\<lparr>ie_key := key\<rparr>]\<rparr>"

definition remove_index :: "etree_path \<Rightarrow> nat \<Rightarrow> 'a superblock_scheme \<Rightarrow> etree_path \<times> 'a superblock_scheme" where
  "remove_index path level sb =
     (let (sector, pnext) = path ! level;
          node = node_at sb sector;
          pivot = entry_key node pnext;
          node = node\<lparr>node_entries := take (pnext - 1) (node_entries node) @ drop pnext (node_entries node)\<rparr>;
          path = path[level := (sector, pnext - 1)];
          sb = put_dirty sector (NodeB node) sb
      in if pnext - 1 = node_count node then (path, sb)
         else if pnext - 1 = 0 then
           (case find (\<lambda>i. snd (path ! i) \<noteq> 1) (rev [0..<level]) of
              None \<Rightarrow> (path, sb)
            | Some i \<Rightarrow>
                (let (parent, p) = path ! i
                 in (path, put_dirty parent (NodeB (set_key (node_at sb parent) (p - 1) pivot)) sb)))
         else (path, sb))"

definition brelse_free :: "sector_t \<Rightarrow> 'a superblock_scheme \<Rightarrow> 'a superblock_scheme" where
  "brelse_free buffer sb = set_buffer_empty buffer (free_block buffer sb)"

text \<open>The leaf at hand: removal of the snapshots, then the merge with the previous leaf.\<close>

definition clean_leaf :: "u64 \<Rightarrow> sector_t \<Rightarrow> 'a superblock_scheme \<Rightarrow> 'a superblock_scheme" where
  "clean_leaf m leafbuf sb =
     (let (any, leaf, sb) = delete_snapshots_from_leaf free_exception dirty_buffer_count_check m (leaf_at sb leafbuf) sb;
          sb = set_data leafbuf (LeafB leaf) sb
      in if any then set_buffer_dirty leafbuf sb else sb)"

definition merge_leaf :: "nat \<Rightarrow> walk \<Rightarrow> 'a superblock_scheme \<Rightarrow> walk \<times> 'a superblock_scheme" where
  "merge_leaf level w sb =
     (case w_prev w of
        None \<Rightarrow> (w\<lparr>w_prev := Some (w_leaf w)\<rparr>, sb)
      | Some prevleaf \<Rightarrow>
          (let this = leaf_at sb (w_leaf w); prev = leaf_at sb prevleaf
           in if leaf_payload this \<le> leaf_freespace prev then
                (let sb = set_data prevleaf (LeafB (merge_leaves prev this)) sb;
                     (path, sb) = remove_index (w_path w) level sb;
                     sb = set_buffer_dirty prevleaf sb;
                     sb = brelse_free (w_leaf w) sb
                 in (w\<lparr>w_path := path\<rparr>, dirty_buffer_count_check sb))
              else (w\<lparr>w_prev := Some (w_leaf w)\<rparr>, sb)))"

text \<open>The node at \<open>level\<close> of the path is finished: it is merged with the one on hold or takes its place.\<close>

definition merge_node :: "nat \<Rightarrow> walk \<Rightarrow> 'a superblock_scheme \<Rightarrow> walk \<times> 'a superblock_scheme" where
  "merge_node level w sb =
     (let thisbuf = fst (w_path w ! level);
          keep = w\<lparr>w_hold := (w_hold w)[level := Some thisbuf]\<rparr>
      in case w_hold w ! level of
           None \<Rightarrow> (keep, sb)
         | Some prevbuf \<Rightarrow>
             (let this = node_at sb thisbuf; prev = node_at sb prevbuf
              in if node_count this \<le> u32_sub (alloc_per_node (metadata sb)) (node_count prev) then
                   (let sb = set_data prevbuf (NodeB (merge_nodes prev this)) sb;
                        (path, sb) = remove_index (w_path w) (level - 1) sb;
                        sb = set_buffer_dirty prevbuf sb;
                        sb = brelse_free thisbuf sb
                    in (w\<lparr>w_path := path\<rparr>, dirty_buffer_count_check sb))
                 else (keep, sb)))"

text \<open>Popping finished nodes: the level at which the walk goes on, or \<open>None\<close> at the end of the root.\<close>

fun pop_nodes :: "nat \<Rightarrow> walk \<Rightarrow> 'a superblock_scheme \<Rightarrow> nat option \<times> walk \<times> 'a superblock_scheme" where
  "pop_nodes 0 w sb = (None, merge_node 0 w sb)"
| "pop_nodes (Suc level) w sb =
     (let (w, sb) = merge_node (Suc level) w sb
      in if finished_level sb (w_path w) level then pop_nodes level w sb else (Some level, w, sb))"

fun push_nodes :: "nat \<Rightarrow> nat \<Rightarrow> walk \<Rightarrow> 'a superblock_scheme \<Rightarrow> walk option" where
  "push_nodes 0 level w sb = Some w"
| "push_nodes (Suc n) level w sb =
     (let (sector, pnext) = w_path w ! level;
          child = entry_sector (node_at sb sector) pnext
      in case bread sb child of
           None \<Rightarrow> None
         | Some _ \<Rightarrow>
             push_nodes n (level + 1)
               (w\<lparr>w_path := (w_path w)[level := (sector, pnext + 1), level + 1 := (child, 0)]\<rparr>) sb)"

fun drop_levels :: "sector_t list \<Rightarrow> 'a superblock_scheme \<Rightarrow> 'a superblock_scheme" where
  "drop_levels (root # next # hold) sb =
     (if node_count (node_at sb root) = 1 then
        (let sb = sb\<lparr>image := (image sb)\<lparr>etree_root := next\<rparr>\<rparr>;
             sb = dirty_buffer_count_check (brelse_free root sb);
             sb = sb\<lparr>image := (image sb)\<lparr>etree_levels := etree_levels (image sb) - 1\<rparr>\<rparr>
         in drop_levels (next # hold) (set_sb_dirty sb))
      else sb)"
| "drop_levels _ sb = sb"

definition finish_delete :: "u64 \<Rightarrow> walk \<Rightarrow> 'a superblock_scheme \<Rightarrow> 'a superblock_scheme" where
  "finish_delete m w sb =
     (let sb = drop_levels (map the (w_hold w)) sb;
          sb = (if dirty_buffers sb \<noteq> [] then commit_transaction False sb else sb);
          sb = sb\<lparr>snapmask := snapmask sb AND NOT m\<rparr>
      in save_sb (set_sb_dirty sb))"

text \<open>
  One round of the walk: the result is an error or the end (left), or the
  next leaf (right).
\<close>

definition next_leaf :: "nat \<Rightarrow> walk \<Rightarrow> 'a superblock_scheme \<Rightarrow> errno + walk \<times> 'a superblock_scheme" where
  "next_leaf level w sb =
     (let sb = dirty_buffer_count_check sb;
          (sector, pnext) = w_path w ! level;
          leafbuf = entry_sector (node_at sb sector) pnext
      in case bread sb leafbuf of
           None \<Rightarrow> Inl ENOMEM
         | Some _ \<Rightarrow> Inr (w\<lparr>w_path := (w_path w)[level := (sector, pnext + 1)], w_leaf := leafbuf\<rparr>, sb))"

definition delete_round :: "u64 \<Rightarrow> nat \<Rightarrow> walk \<Rightarrow> 'a superblock_scheme \<Rightarrow>
    (errno option \<times> 'a superblock_scheme) + walk \<times> 'a superblock_scheme" where
  "delete_round m levels w sb =
     (let sb = clean_leaf m (w_leaf w) sb;
          (w, sb) = merge_leaf (levels - 1) w sb;
          next = (\<lambda>w sb. case next_leaf (levels - 1) w sb of
                    Inl e \<Rightarrow> Inl (Some e, dirty_buffer_count_check sb) | Inr r \<Rightarrow> Inr r)
      in if finished_level sb (w_path w) (levels - 1) then
           (case pop_nodes (levels - 1) w sb of
              (None, w, sb) \<Rightarrow> Inl (None, finish_delete m w sb)
            | (Some level, w, sb) \<Rightarrow>
                (case push_nodes (levels - 1 - level) level w sb of
                   None \<Rightarrow> Inl (Some ENOMEM, sb)
                 | Some w \<Rightarrow> next w sb))
         else next w sb)"

text \<open>The first argument bounds the number of rounds; each round handles one leaf.\<close>

fun delete_loop :: "nat \<Rightarrow> u64 \<Rightarrow> nat \<Rightarrow> walk \<Rightarrow> 'a superblock_scheme \<Rightarrow>
    (errno option \<times> 'a superblock_scheme) run" where
  "delete_loop 0 m levels w sb = Inl Rounds"
| "delete_loop (Suc rounds) m levels w sb =
     (case delete_round m levels w sb of
        Inl r \<Rightarrow> Inr r
      | Inr (w, sb) \<Rightarrow> delete_loop rounds m levels w sb)"

definition delete_tree_range :: "nat \<Rightarrow> u64 \<Rightarrow> chunk_t \<Rightarrow> 'a superblock_scheme \<Rightarrow>
    (errno option \<times> 'a superblock_scheme) run" where
  "delete_tree_range rounds m resume sb =
     (case probe sb resume of
        None \<Rightarrow> Inr (Some ENOMEM, sb)
      | Some (leafbuf, path) \<Rightarrow>
          delete_loop rounds m (etree_levels (image sb))
            \<lparr>w_path = path, w_hold = replicate (etree_levels (image sb)) None, w_prev = None, w_leaf = leafbuf\<rparr>
            (commit_transaction False sb))"

end
