(* ===== verification/Copyout.thy ===== *)
theory Copyout
  imports Journal
begin

text \<open>
  Copying chunks to the snapshot store.  \<open>copyout\<close> remembers one run of
  consecutive copies, \<open>finish_copyout\<close> performs it.  The data devices map a
  chunk number to the bytes of the chunk; the highest bit of \<open>source_chunk\<close>
  tells the snapshot store from the origin.
\<close>

type_synonym contents = "u8 list"

record copier = superblock +
  source_chunk :: nat
  dest_exception :: nat
  copy_chunks :: nat
  org_data :: "chunk_t \<Rightarrow> contents"
  snap_data :: "chunk_t \<Rightarrow> contents"

definition chunk_highbit :: nat where [simp]: "chunk_highbit = 63"

definition snap_source :: "chunk_t \<Rightarrow> chunk_t" where
  "snap_source chunk = chunk + 2 ^ chunk_highbit"

definition read_chunk :: "'a copier_scheme \<Rightarrow> bool \<Rightarrow> chunk_t \<Rightarrow> contents" where
  "read_chunk sb is_snap chunk = (if is_snap then snap_data sb chunk else org_data sb chunk)"

definition finish_copyout :: "'a copier_scheme \<Rightarrow> 'a copier_scheme" where
  "finish_copyout sb =
     (if copy_chunks sb \<noteq> 0 then
        (let is_snap = source_chunk sb div 2 ^ chunk_highbit \<noteq> 0;
             source = source_chunk sb mod 2 ^ chunk_highbit;
             copybuf = map (\<lambda>i. read_chunk sb is_snap (source + i)) [0..<copy_chunks sb];
             dest = dest_exception sb
         in sb\<lparr>snap_data := (\<lambda>c. if dest \<le> c \<and> c < dest + copy_chunks sb then copybuf ! (c - dest) else snap_data sb c),
               copy_chunks := 0\<rparr>)
      else sb)"

definition copyout :: "chunk_t \<Rightarrow> chunk_t \<Rightarrow> 'a copier_scheme \<Rightarrow> 'a copier_scheme" where
  "copyout chunk exc sb =
     (if (source_chunk sb + copy_chunks sb) mod 2 ^ 64 = chunk \<and>
         (dest_exception sb + copy_chunks sb) mod 2 ^ 64 = exc \<and>
         copy_chunks sb < copybuf_size sb div 2 ^ allocsize_bits (asi sb Snap)
      then sb\<lparr>copy_chunks := copy_chunks sb + 1\<rparr>
      else (finish_copyout sb)\<lparr>copy_chunks := 1, source_chunk := chunk, dest_exception := exc\<rparr>)"

end
