(* ===== verification/Snapshots.thy ===== *)
theory Snapshots
  imports Superblock Leaf_Share
begin

text \<open>
  The list of snapshots in the superblock.  A pointer into the list is the
  index of the entry.
\<close>

section \<open>Operations\<close>

definition find_snap :: "'a superblock_scheme \<Rightarrow> nat \<Rightarrow> nat option" where
  "find_snap sb tag =
     (let snapshots = snaplist (image sb)
      in find (\<lambda>i. snap_tag (snapshots ! i) = tag) [0..<length snapshots])"

definition is_squashed :: "snapshot \<Rightarrow> bool" where
  "is_squashed snapshot \<longleftrightarrow> snap_bit snapshot = SNAPSHOT_SQUASHED"

definition usecount :: "'a superblock_scheme \<Rightarrow> snapshot \<Rightarrow> u16" where
  "usecount sb snap = (if is_squashed snap then 0 else sb_usecount sb (snap_bit snap)) + snap_usecount snap"

definition victim_step :: "'a superblock_scheme \<Rightarrow> nat \<Rightarrow> nat \<Rightarrow> nat" where
  "victim_step sb i best =
     (let snap = snaplist (image sb) ! i; bsnap = snaplist (image sb) ! best
      in if is_squashed snap then best
         else if \<not> is_squashed bsnap \<and> (usecount sb snap \<noteq> 0 \<and> usecount sb bsnap = 0) then best
         else if \<not> is_squashed bsnap \<and> ((usecount sb snap = 0) = (usecount sb bsnap = 0)) \<and>
                 snap_prio bsnap \<le> snap_prio snap then best
         else i)"

definition find_victim :: "'a superblock_scheme \<Rightarrow> nat" where
  "find_victim sb = fold (victim_step sb) [1..<length (snaplist (image sb))] 0"

definition calc_snapmask :: "'a superblock_scheme \<Rightarrow> u64" where
  "calc_snapmask sb =
     fold (\<lambda>snap m. if \<not> is_squashed snap then m OR push_bit (snap_bit snap) 1 else m)
       (snaplist (image sb)) 0"

definition unused_step :: "'a superblock_scheme \<Rightarrow> nat \<Rightarrow> nat \<Rightarrow> nat" where
  "unused_step sb i best =
     (let snap = snaplist (image sb) ! i; bsnap = snaplist (image sb) ! best
      in if usecount sb snap \<noteq> 0 \<and> usecount sb bsnap = 0 then best
         else if ((usecount sb snap = 0) = (usecount sb bsnap = 0)) \<and> snap_prio bsnap \<le> snap_prio snap then best
         else i)"

definition find_unused :: "'a superblock_scheme \<Rightarrow> nat" where
  "find_unused sb = fold (unused_step sb) [1..<length (snaplist (image sb))] 0"

text \<open>
  Parts of \<open>delete_snap\<close> and \<open>create_snapshot\<close>: the removal of an entry
  (the \<open>memmove\<close> of the entries behind it), the search for a free bit, and the
  new entry.
\<close>

definition remove_snap :: "nat \<Rightarrow> 'a superblock_scheme \<Rightarrow> 'a superblock_scheme" where
  "remove_snap i sb =
     sb\<lparr>image := (image sb)\<lparr>snaplist := take i (snaplist (image sb)) @ drop (Suc i) (snaplist (image sb))\<rparr>\<rparr>"

definition free_snapbit :: "u64 \<Rightarrow> nat option" where
  "free_snapbit m = find (\<lambda>i. m AND push_bit i 1 = 0) [0..<MAX_SNAPSHOTS]"

definition append_snap :: "nat \<Rightarrow> nat \<Rightarrow> nat \<Rightarrow> 'a superblock_scheme \<Rightarrow> 'a superblock_scheme" where
  "append_snap now snaptag i sb =
     (let snapshot = \<lparr>snap_ctime = now, snap_tag = snaptag, snap_usecount = 0, snap_bit = i, snap_prio = 0,
                      snap_sectors = orgsectors (image sb)\<rparr>
      in set_sb_dirty (sb\<lparr>image := (image sb)\<lparr>snaplist := snaplist (image sb) @ [snapshot]\<rparr>,
                           snapmask := snapmask sb OR push_bit i 1\<rparr>))"

section \<open>Invariant\<close>

text \<open>
  The bits of the snapshots that are not squashed are distinct and make up the
  mask of active snapshots; the tags are distinct.
\<close>

definition active_bits :: "snapshot list \<Rightarrow> nat list" where
  "active_bits ss = map snap_bit (filter (\<lambda>s. \<not> is_squashed s) ss)"

definition wf_snaps :: "'a superblock_scheme \<Rightarrow> bool" where
  "wf_snaps sb \<longleftrightarrow>
     (let ss = snaplist (image sb)
      in length ss \<le> MAX_SNAPSHOTS \<and> distinct (map snap_tag ss) \<and> distinct (active_bits ss) \<and>
         (\<forall>s\<in>set ss. snap_bit s \<le> SNAPSHOT_SQUASHED) \<and> snapmask sb = calc_snapmask sb)"

section \<open>Searching\<close>

lemma find_SomeI_idx:
  "find P xs = Some x \<Longrightarrow> x \<in> set xs \<and> P x"
  by (auto simp: find_Some_iff)

lemma find_snap_Some:
  assumes "find_snap sb tag = Some i"
  shows "i < length (snaplist (image sb))" "snap_tag (snaplist (image sb) ! i) = tag"
  using assms by (auto simp: find_snap_def Let_def dest: find_SomeI_idx)

lemma find_snap_None: "find_snap sb tag = None \<longleftrightarrow> tag \<notin> snap_tag ` set (snaplist (image sb))"
  by (auto simp: find_snap_def Let_def find_None_iff image_iff dest: nth_mem) (metis in_set_conv_nth)

lemma bit_calc_snapmask:
  "bit (calc_snapmask sb) b \<longleftrightarrow> b < 64 \<and> b \<in> set (active_bits (snaplist (image sb)))"
proof -
  have "bit (fold (\<lambda>snap m. if \<not> is_squashed snap then m OR push_bit (snap_bit snap) 1 else m) ss m) b \<longleftrightarrow>
      bit (m :: u64) b \<or> b < 64 \<and> b \<in> set (active_bits ss)" for ss m
    by (induction ss arbitrary: m) (auto simp: active_bits_def bit_or_iff bit_snapbit)
  then show ?thesis by (simp add: calc_snapmask_def)
qed

lemma active_bits_simps [simp]:
  "active_bits [] = []"
  "active_bits (xs @ ys) = active_bits xs @ active_bits ys"
  "active_bits [s] = (if is_squashed s then [] else [snap_bit s])"
  by (auto simp: active_bits_def)

lemma active_bits_less:
  "\<forall>s\<in>set ss. snap_bit s \<le> 64 \<Longrightarrow> b \<in> set (active_bits ss) \<Longrightarrow> b < 64"
  by (auto simp: active_bits_def is_squashed_def intro: le_neq_implies_less)

lemma length_active_bits: "length (active_bits ss) \<le> length ss"
  by (simp add: active_bits_def)

lemma wf_snaps_simps:
  assumes "wf_snaps sb"
  shows "length (snaplist (image sb)) \<le> 64" "distinct (map snap_tag (snaplist (image sb)))"
    "distinct (active_bits (snaplist (image sb)))"
    "\<forall>s\<in>set (snaplist (image sb)). snap_bit s \<le> SNAPSHOT_SQUASHED"
    "bit (snapmask sb) b \<longleftrightarrow> b \<in> set (active_bits (snaplist (image sb)))"
  using assms by (auto simp: wf_snaps_def Let_def bit_calc_snapmask dest: active_bits_less)

lemma free_snapbit_Some: "free_snapbit m = Some i \<Longrightarrow> i < 64 \<and> \<not> bit m i"
  by (auto simp: free_snapbit_def and_snapbit_eq_0_iff dest: find_SomeI_idx)

text \<open>As long as there are fewer than 64 snapshots there is a bit for a new one.\<close>

lemma free_snapbit_exists:
  assumes "wf_snaps sb" "length (snaplist (image sb)) < MAX_SNAPSHOTS"
  shows "\<exists>i. free_snapbit (snapmask sb) = Some i"
proof (rule ccontr)
  assume "\<nexists>i. free_snapbit (snapmask sb) = Some i"
  then have "{..<64} \<subseteq> set (active_bits (snaplist (image sb)))"
    by (auto simp: free_snapbit_def find_None_iff and_snapbit_eq_0_iff wf_snaps_simps(5) [OF assms(1)])
  from card_mono [OF _ this] have "64 \<le> length (active_bits (snaplist (image sb)))"
    using card_length [of "active_bits (snaplist (image sb))"] by simp
  with length_active_bits [of "snaplist (image sb)"] assms(2) show False by simp
qed

lemma wf_snaps_append:
  assumes wf: "wf_snaps sb" and "length (snaplist (image sb)) < MAX_SNAPSHOTS" "find_snap sb tag = None"
    and "free_snapbit (snapmask sb) = Some i"
  shows "wf_snaps (append_snap now tag i sb)"
proof -
  note s = wf_snaps_simps [OF wf]
  have i: "i < 64" "i \<notin> set (active_bits (snaplist (image sb)))"
    using free_snapbit_Some [OF assms(4)] s(5) by auto
  have l: "snaplist (image (append_snap now tag i sb)) = snaplist (image sb) @
      [\<lparr>snap_ctime = now, snap_tag = tag, snap_usecount = 0, snap_bit = i, snap_prio = 0,
        snap_sectors = orgsectors (image sb)\<rparr>]"
    and m: "snapmask (append_snap now tag i sb) = snapmask sb OR 2 ^ i"
    by (simp_all add: append_snap_def set_sb_dirty_def Let_def)
  have "snapmask (append_snap now tag i sb) = calc_snapmask (append_snap now tag i sb)"
    using i(1) active_bits_less [of "snaplist (image sb)"] s(4)
    by (intro bit_word_eqI) (auto simp: m bit_calc_snapmask l bit_or_iff bit_snapbit s(5) is_squashed_def)
  then show ?thesis
    using s(1-4) i assms(2,3) find_snap_None [of sb tag]
    by (auto simp: wf_snaps_def l is_squashed_def Let_def)
qed

section \<open>The choice of a victim\<close>

text \<open>The order of preference: unused before used, then low priority before high.\<close>

definition victim_less :: "'a superblock_scheme \<Rightarrow> snapshot \<Rightarrow> snapshot \<Rightarrow> bool" where
  "victim_less sb a b \<longleftrightarrow>
     (usecount sb a = 0 \<and> usecount sb b \<noteq> 0) \<or>
     ((usecount sb a = 0) = (usecount sb b = 0) \<and> snap_prio a < snap_prio b)"

text \<open>\<open>i\<close> is the first of the best entries among those that satisfy \<open>P\<close> below \<open>n\<close>.\<close>

definition first_best :: "'a superblock_scheme \<Rightarrow> (nat \<Rightarrow> bool) \<Rightarrow> nat \<Rightarrow> nat \<Rightarrow> bool" where
  "first_best sb P n i \<longleftrightarrow>
     (let ss = snaplist (image sb)
      in i < n \<and> P i \<and> (\<forall>j<n. P j \<longrightarrow> \<not> victim_less sb (ss ! j) (ss ! i) \<and>
           (\<not> victim_less sb (ss ! i) (ss ! j) \<longrightarrow> i \<le> j)))"

lemma victim_less_trans:
  "\<not> victim_less sb b a \<Longrightarrow> \<not> victim_less sb c b \<Longrightarrow> \<not> victim_less sb c a"
  "victim_less sb a b \<Longrightarrow> \<not> victim_less sb c b \<Longrightarrow> victim_less sb a c"
  "\<not> victim_less sb a a"
  by (auto simp: victim_less_def)

lemma first_best_step:
  assumes fb: "first_best sb P n best" and "P n"
  shows "first_best sb P (Suc n)
    (if victim_less sb (snaplist (image sb) ! n) (snaplist (image sb) ! best) then n else best)"
proof -
  let ?ss = "snaplist (image sb)"
  have b: "best < n" "P best" using fb by (auto simp: first_best_def Let_def)
  have j: "\<not> victim_less sb (?ss ! j) (?ss ! best)" "\<not> victim_less sb (?ss ! best) (?ss ! j) \<Longrightarrow> best \<le> j"
    if "j < n" "P j" for j using fb that by (auto simp: first_best_def Let_def)
  show ?thesis
  proof (cases "victim_less sb (?ss ! n) (?ss ! best)")
    case True
    have lt: "victim_less sb (?ss ! n) (?ss ! j)" if "j < n" "P j" for j
      by (rule victim_less_trans(2) [OF True j(1) [OF that]])
    have "\<not> victim_less sb (?ss ! j) (?ss ! n)" if "j < n" "P j" for j
      using lt [OF that] by (auto simp: victim_less_def)
    with True lt show ?thesis using assms(2) victim_less_trans(3)
      by (simp add: first_best_def Let_def less_Suc_eq) blast
  next
    case False
    then show ?thesis using b j by (auto simp: first_best_def less_Suc_eq)
  qed
qed

lemma first_best_skip: "first_best sb P n best \<Longrightarrow> \<not> P n \<Longrightarrow> first_best sb P (Suc n) best"
  by (auto simp: first_best_def Let_def less_Suc_eq)

lemma fold_upt_induct:
  assumes "I m x" "\<And>i y. m \<le> i \<Longrightarrow> i < n \<Longrightarrow> I i y \<Longrightarrow> I (Suc i) (f i y)" "m \<le> n"
  shows "I n (fold f [m..<n] x)"
  using assms(3,2)
proof (induction n rule: dec_induct)
  case base then show ?case using assms(1) by simp
next
  case (step n) then show ?case by simp
qed

lemma unused_step_eq:
  "unused_step sb i best =
     (if victim_less sb (snaplist (image sb) ! i) (snaplist (image sb) ! best) then i else best)"
  by (auto simp: unused_step_def victim_less_def Let_def)

lemma find_unused_best:
  assumes "snaplist (image sb) \<noteq> []"
  shows "first_best sb (\<lambda>_. True) (length (snaplist (image sb))) (find_unused sb)"
  unfolding find_unused_def
proof (rule fold_upt_induct)
  show "first_best sb (\<lambda>_. True) 1 0" by (simp add: first_best_def Let_def victim_less_trans(3))
  show "first_best sb (\<lambda>_. True) (Suc i) (unused_step sb i y)" if "first_best sb (\<lambda>_. True) i y" for i y
    using first_best_step [OF that] by (simp add: unused_step_eq)
  show "1 \<le> length (snaplist (image sb))" using assms by (cases "snaplist (image sb)") auto
qed

lemma find_victim_best:
  assumes "snaplist (image sb) \<noteq> []"
  shows "if \<forall>s\<in>set (snaplist (image sb)). is_squashed s then find_victim sb = 0
    else first_best sb (\<lambda>i. \<not> is_squashed (snaplist (image sb) ! i)) (length (snaplist (image sb))) (find_victim sb)"
proof -
  let ?ss = "snaplist (image sb)"
  let ?P = "\<lambda>i. \<not> is_squashed (?ss ! i)"
  let ?I = "\<lambda>n best. if \<forall>j<n. is_squashed (?ss ! j) then best = 0 else first_best sb ?P n best"
  have "?I (length ?ss) (find_victim sb)"
    unfolding find_victim_def
  proof (rule fold_upt_induct)
    show "?I 1 0" by (simp add: first_best_def Let_def victim_less_trans(3))
    show "1 \<le> length ?ss" using assms by (cases ?ss) auto
    fix i best assume "1 \<le> i" and I: "?I i best"
    show "?I (Suc i) (victim_step sb i best)"
    proof (cases "\<forall>j<i. is_squashed (?ss ! j)")
      case True
      with I \<open>1 \<le> i\<close> have "best = 0" "is_squashed (?ss ! 0)" by auto
      with True show ?thesis
        by (auto simp: victim_step_def Let_def less_Suc_eq first_best_def Let_def victim_less_trans(3))
    next
      case False
      with I have fb: "first_best sb ?P i best" by simp
      then have "\<not> is_squashed (?ss ! best)" by (simp add: first_best_def Let_def)
      then have "victim_step sb i best = (if ?P i then
          (if victim_less sb (?ss ! i) (?ss ! best) then i else best) else best)"
        by (auto simp: victim_step_def victim_less_def Let_def)
      moreover have "\<not> (\<forall>j<Suc i. is_squashed (?ss ! j))" using False by (auto simp: less_Suc_eq)
      ultimately show ?thesis using first_best_step [OF fb] first_best_skip [OF fb] by auto
    qed
  qed
  then show ?thesis by (auto simp: all_set_conv_all_nth)
qed

end
