(* ===== verification/Unique.thy ===== *)
theory Unique
  imports Btree_Delete Copyout Snapshots
begin

text \<open>
  Making a chunk writable: free space is ensured by deleting snapshots, the
  tree is searched, and if the chunk is still shared a new exception is
  allocated, the copy is queued and the exception enters the tree.  Creation
  and deletion of snapshots are here too.

  Every operation that may delete a snapshot takes the bound of the walk over
  the tree.
\<close>

section \<open>Deleting snapshots\<close>

definition delete_snap :: "nat \<Rightarrow> nat \<Rightarrow> 'a superblock_scheme \<Rightarrow> (errno option \<times> 'a superblock_scheme) run" where
  "delete_snap rounds i sb =
     (let snap = snaplist (image sb) ! i
      in if is_squashed snap then Inr (None, set_sb_dirty (remove_snap i sb))
         else
           (let sb = sb\<lparr>sb_usecount := (sb_usecount sb)(snap_bit snap := 0)\<rparr>;
                sb = set_sb_dirty (remove_snap i sb);
                sb = commit_deferred_allocs sb
            in delete_tree_range rounds (push_bit (snap_bit snap) 1) 0 sb))"

text \<open>
  No victim is left: the free counts are corrected.
\<close>

definition recount_free :: "'a superblock_scheme \<Rightarrow> 'a superblock_scheme" where
  "recount_free sb =
     (let sb = (if freechunks (img_snapdata (image sb)) < chunks (img_snapdata (image sb))
                then sb\<lparr>image := (image sb)\<lparr>img_snapdata := (img_snapdata (image sb))\<lparr>freechunks := count_free sb Snap\<rparr>\<rparr>\<rparr>
                else sb)
      in if \<not> combined sb then
           (let base_chunk = (SB_SECTOR + 2 * chunk_sectors (metadata sb) - 1) div 2 ^ chunk_sectors_bits (metadata sb);
                reserved = base_chunk + bitmap_blocks (asi sb Meta) + journal_size (image sb)
                         + bitmap_blocks (asi sb Meta) + 1 + bitmap_blocks (asi sb Snap)
            in if freechunks (img_metadata (image sb)) + reserved < chunks (img_metadata (image sb))
               then sb\<lparr>image := (image sb)\<lparr>img_metadata := (img_metadata (image sb))\<lparr>freechunks := count_free sb Meta\<rparr>\<rparr>\<rparr>
               else sb)
         else sb)"

definition squash_snap :: "nat \<Rightarrow> 'a superblock_scheme \<Rightarrow> 'a superblock_scheme" where
  "squash_snap i sb =
     (let snaps = snaplist (image sb)
      in sb\<lparr>sb_usecount := (sb_usecount sb)(snap_bit (snaps ! i) := 0),
            image := (image sb)\<lparr>snaplist := snaps[i := (snaps ! i)\<lparr>snap_bit := SNAPSHOT_SQUASHED\<rparr>]\<rparr>\<rparr>)"

text \<open>The flag is true if the routine returns zero.\<close>

definition auto_delete_snapshot :: "nat \<Rightarrow> 'a superblock_scheme \<Rightarrow> (bool \<times> 'a superblock_scheme) run" where
  "auto_delete_snapshot rounds sb =
     (if snaplist (image sb) = [] then Inl Exit
      else
        (let i = find_victim sb; victim = snaplist (image sb) ! i
         in if is_squashed victim \<or> snap_prio victim = 127 then Inr (False, recount_free sb)
            else if usecount sb victim \<noteq> 0 then
              (case delete_tree_range rounds (push_bit (snap_bit victim) 1) 0 (commit_deferred_allocs sb) of
                 Inl f \<Rightarrow> Inl f
               | Inr (err, sb) \<Rightarrow> Inr (err = None, squash_snap i sb))
            else
              (case delete_snap rounds i sb of
                 Inl f \<Rightarrow> Inl f
               | Inr (err, sb) \<Rightarrow> Inr (err = None, sb))))"

text \<open>
  A round of the loop deletes or squashes a snapshot, so that twice the number
  of snapshots bounds it.
\<close>

fun ensure_loop :: "nat \<Rightarrow> nat \<Rightarrow> space \<Rightarrow> nat \<Rightarrow> 'a superblock_scheme \<Rightarrow> (bool \<times> 'a superblock_scheme) run" where
  "ensure_loop 0 rounds sp n sb = Inl Rounds"
| "ensure_loop (Suc k) rounds sp n sb =
     (if freechunks (asi sb sp) \<ge> n then Inr (True, sb)
      else
        (case auto_delete_snapshot rounds sb of
           Inl f \<Rightarrow> Inl f
         | Inr (ok, sb) \<Rightarrow>
             if ok \<and> snaplist (image sb) \<noteq> [] then ensure_loop k rounds sp n sb
             else Inr (False, sb)))"

definition ensure_free_chunks :: "nat \<Rightarrow> space \<Rightarrow> nat \<Rightarrow> 'a superblock_scheme \<Rightarrow> (bool \<times> 'a superblock_scheme) run" where
  "ensure_free_chunks rounds sp n sb =
     ensure_loop (2 * length (snaplist (image sb)) + 1) rounds sp n sb"

section \<open>Making a chunk unique\<close>

definition ensure_space :: "nat \<Rightarrow> 'a superblock_scheme \<Rightarrow> (bool \<times> 'a superblock_scheme) run" where
  "ensure_space rounds sb =
     (if combined sb then ensure_free_chunks rounds Meta (MAX_NEW_METACHUNKS + 1) sb
      else
        (case ensure_free_chunks rounds Meta MAX_NEW_METACHUNKS sb of
           Inl f \<Rightarrow> Inl f
         | Inr (ok, sb) \<Rightarrow> if ok then ensure_free_chunks rounds Snap 1 sb else Inr (False, sb)))"

text \<open>
  The two enquiries, with the value of \<open>exception\<close> after the call; snapshot
  number \<open>- 1\<close> is the origin.
\<close>

definition chunk_unique :: "'a superblock_scheme \<Rightarrow> sector_t \<Rightarrow> chunk_t \<Rightarrow> int \<Rightarrow> chunk_t \<Rightarrow> bool \<times> chunk_t" where
  "chunk_unique sb leafbuf chunk snapbit old =
     (if snapbit = -1 then (origin_chunk_unique (leaf_at sb leafbuf) chunk (snapmask sb), old)
      else snapshot_chunk_unique (leaf_at sb leafbuf) chunk (nat snapbit) old)"

text \<open>The part behind the space check; the result \<open>None\<close> stands for \<open>-1\<close>.\<close>

definition add_unique :: "chunk_t \<Rightarrow> int \<Rightarrow> 'a copier_scheme \<Rightarrow> (chunk_t option \<times> 'a copier_scheme) run" where
  "add_unique chunk snapbit sb =
     (case probe sb chunk of
        None \<Rightarrow> Inr (None, sb)
      | Some (leafbuf, path) \<Rightarrow>
          (case chunk_unique sb leafbuf chunk snapbit 0 of
             (True, exc) \<Rightarrow> Inr (Some exc, sb)
           | (False, exc) \<Rightarrow>
               (case alloc_snapblock sb of
                  (None, sb) \<Rightarrow> Inl Exit
                | (Some newex, sb) \<Rightarrow>
                    (let sb = copyout (if exc \<noteq> 0 then snap_source exc else chunk) newex sb
                     in case add_exception_to_tree leafbuf chunk newex snapbit path sb of
                          (Some _, sb) \<Rightarrow> Inr (None, free_exception newex sb)
                        | (None, sb) \<Rightarrow> Inr (Some newex, sb)))))"

definition make_unique :: "nat \<Rightarrow> chunk_t \<Rightarrow> int \<Rightarrow> 'a copier_scheme \<Rightarrow> (chunk_t option \<times> 'a copier_scheme) run" where
  "make_unique rounds chunk snapbit sb =
     (case ensure_space rounds sb of
        Inl f \<Rightarrow> Inl f
      | Inr (ok, sb) \<Rightarrow> if ok then add_unique chunk snapbit sb else Inr (None, sb))"

text \<open>\<open>None\<close> stands for the result \<open>-1\<close> of a failed read.\<close>

definition test_unique :: "'a superblock_scheme \<Rightarrow> chunk_t \<Rightarrow> int \<Rightarrow> chunk_t \<Rightarrow> bool option \<times> chunk_t" where
  "test_unique sb chunk snapbit old =
     (case probe sb chunk of
        None \<Rightarrow> (None, old)
      | Some (leafbuf, _) \<Rightarrow>
          (case chunk_unique sb leafbuf chunk snapbit old of (result, exc) \<Rightarrow> (Some result, exc)))"

section \<open>Creating snapshots\<close>

text \<open>At the limit, an unused snapshot has to go.\<close>

definition make_room_for_snap :: "nat \<Rightarrow> 'a superblock_scheme \<Rightarrow> 'a superblock_scheme run" where
  "make_room_for_snap rounds sb =
     (if length (snaplist (image sb)) \<ge> MAX_SNAPSHOTS then
        (let victim = find_unused sb
         in if usecount sb (snaplist (image sb) ! victim) = 0 then
              (case delete_snap rounds victim sb of Inl f \<Rightarrow> Inl f | Inr (_, sb) \<Rightarrow> Inr sb)
            else Inr sb)
      else Inr sb)"

definition create_snapshot :: "nat \<Rightarrow> nat \<Rightarrow> nat \<Rightarrow> 'a superblock_scheme \<Rightarrow> ((errno + nat) \<times> 'a superblock_scheme) run" where
  "create_snapshot rounds now snaptag sb =
     (case make_room_for_snap rounds sb of
        Inl f \<Rightarrow> Inl f
      | Inr sb \<Rightarrow>
          if length (snaplist (image sb)) \<ge> MAX_SNAPSHOTS then Inr (Inl EFULL, sb)
          else if find_snap sb snaptag \<noteq> None then Inr (Inl EEXIST, sb)
          else
            (case free_snapbit (snapmask sb) of
               None \<Rightarrow> Inr (Inl EFULL, sb)
             | Some i \<Rightarrow> Inr (Inr i, append_snap now snaptag i sb)))"

end
