(* ===== verification/Write_Path.thy ===== *)
theory Write_Path
  imports Unique Btree_Tree Cow
begin

text \<open>
  The write path: \<open>make_unique\<close> as a whole, from the search in the tree over
  the allocation of a chunk and the copy to the new entry in the tree.  The
  tree as an association list is an exception map in the sense of theory Cow.
\<close>

section \<open>The tree as an exception map\<close>

interpretation spec_cow: cow_map "\<lambda>al. sorted_wrt (<) (map fst al)" "\<lambda>_ _. True" aleaf_lookup
  "\<lambda>al c e i active. Inr (add_exception_spec c e i active al)"
proof
  fix al al' :: aleaf and c e i active c' b n
  assume srt: "sorted_wrt (<) (map fst al)"
  show "sorted_wrt (<) (map fst al')" if "Inr (add_exception_spec c e i active al) = Inr al'"
    using sorted_alist_upd [OF srt] that by (auto simp: add_exception_spec_def)
  show "aleaf_lookup al' c' b = (if c' = c \<and> aleaf_lookup al c b = None \<and> bit active b then Some e else aleaf_lookup al c' b)"
    if "Inr (add_exception_spec c e (- 1) active al) = Inr al'"
    using that srt by (auto simp: aleaf_lookup_def aleaf_get_add snap_exception_add_origin)
  show "aleaf_lookup al' c' b = (if c' = c \<and> b = n then Some e else aleaf_lookup al c' b)"
    if "Inr (add_exception_spec c e (int n) active al) = Inr al'" "n < MAX_SNAPSHOTS"
    using that srt by (auto simp: aleaf_lookup_def aleaf_get_add snap_exception_add_snap)
qed auto

section \<open>Copies\<close>

text \<open>The snapshot store once the pending copies are done, and what a copy reads.\<close>

definition settled :: "'a copier_scheme \<Rightarrow> chunk_t \<Rightarrow> contents" where
  "settled sb = snap_data (finish_copyout sb)"

definition fetch :: "'a copier_scheme \<Rightarrow> chunk_t \<Rightarrow> contents" where
  "fetch sb chunk = (if chunk div 2 ^ 63 = 0 then org_data sb chunk else settled sb (chunk mod 2 ^ 63))"

text \<open>The pending run, if any, copies from the origin.\<close>

definition pending_ok :: "'a copier_scheme \<Rightarrow> bool" where
  "pending_ok sb \<longleftrightarrow> source_chunk sb < 2 ^ 64 \<and> dest_exception sb < 2 ^ 64 \<and>
     (copy_chunks sb = 0 \<or> source_chunk sb + copy_chunks sb < 2 ^ 63 \<and> dest_exception sb + copy_chunks sb < 2 ^ 64)"

lemma finish_copyout_simps [simp]:
  "copy_chunks (finish_copyout sb) = 0" "org_data (finish_copyout sb) = org_data sb"
  "source_chunk (finish_copyout sb) = source_chunk sb" "dest_exception (finish_copyout sb) = dest_exception sb"
  by (simp_all add: finish_copyout_def Let_def)

lemma settled_eq:
  "settled sb c = (if dest_exception sb \<le> c \<and> c < dest_exception sb + copy_chunks sb
     then read_chunk sb (source_chunk sb div 2 ^ 63 \<noteq> 0) (source_chunk sb mod 2 ^ 63 + (c - dest_exception sb)) else snap_data sb c)"
  by (auto simp: settled_def finish_copyout_def Let_def)

text \<open>Queueing a copy is as good as doing it.\<close>

lemma copyout_settled:
  assumes p: "pending_ok sb"
  shows "settled (copyout chunk e sb) = (settled sb)(e := fetch sb chunk)"
proof (cases "(source_chunk sb + copy_chunks sb) mod 2 ^ 64 = chunk \<and> (dest_exception sb + copy_chunks sb) mod 2 ^ 64 = e \<and>
    copy_chunks sb < copybuf_size sb div 2 ^ allocsize_bits (asi sb Snap)")
  case True
  then have run: "copyout chunk e sb = sb\<lparr>copy_chunks := copy_chunks sb + 1\<rparr>" by (simp add: copyout_def)
  show ?thesis
  proof (cases "copy_chunks sb = 0")
    case True0: True
    have "source_chunk sb = chunk" "dest_exception sb = e" using True True0 p by (auto simp: pending_ok_def)
    then show ?thesis unfolding run by (intro ext) (simp add: settled_eq fetch_def read_chunk_def True0)
  next
    case False
    then have b: "source_chunk sb + copy_chunks sb < 2 ^ 63" "dest_exception sb + copy_chunks sb < 2 ^ 64"
      using p by (auto simp: pending_ok_def)
    then have se: "chunk = source_chunk sb + copy_chunks sb" "e = dest_exception sb + copy_chunks sb" using True by simp_all
    have "source_chunk sb div 2 ^ 63 = 0" "source_chunk sb mod 2 ^ 63 = source_chunk sb" "chunk div 2 ^ 63 = 0" using b(1) se(1) by simp_all
    then show ?thesis unfolding run using se by (intro ext) (auto simp: settled_eq fetch_def read_chunk_def)
  qed
next
  case False
  then have run: "copyout chunk e sb = (finish_copyout sb)\<lparr>copy_chunks := 1, source_chunk := chunk, dest_exception := e\<rparr>"
    unfolding copyout_def by (rule if_not_P)
  let ?f = "finish_copyout sb"
  have "settled (?f\<lparr>copy_chunks := 1, source_chunk := chunk, dest_exception := e\<rparr>) x =
      (if x = e then read_chunk ?f (chunk div 2 ^ 63 \<noteq> 0) (chunk mod 2 ^ 63) else snap_data ?f x)" for x
    unfolding settled_eq by (auto simp: read_chunk_def)
  then show ?thesis unfolding run by (intro ext) (auto simp: fetch_def read_chunk_def settled_def div_eq_0_iff)
qed

lemma copyout_pending:
  assumes "pending_ok sb" "chunk < 2 ^ 63 - 1" "e < 2 ^ 64 - 1"
  shows "pending_ok (copyout chunk e sb)" "org_data (copyout chunk e sb) = org_data sb"
proof -
  have "(source_chunk sb + copy_chunks sb) mod 2 ^ 64 = source_chunk sb + copy_chunks sb"
    "(dest_exception sb + copy_chunks sb) mod 2 ^ 64 = dest_exception sb + copy_chunks sb"
    using assms(1) by (auto simp: pending_ok_def)
  then show "pending_ok (copyout chunk e sb)" using assms by (auto simp: copyout_def pending_ok_def)
  show "org_data (copyout chunk e sb) = org_data sb" by (simp add: copyout_def)
qed

section \<open>The fields of the copier\<close>

text \<open>Copies leave the superblock alone, and tree operations leave the copier alone.\<close>

lemma more_settled:
  fixes sb sb' :: "'a copier_scheme"
  assumes "superblock.more sb' = superblock.more sb"
  shows "settled sb' = settled sb" "org_data sb' = org_data sb" "pending_ok sb' = pending_ok sb"
proof -
  have "copy_chunks sb' = copy_chunks sb" "source_chunk sb' = source_chunk sb" "dest_exception sb' = dest_exception sb"
    "snap_data sb' = snap_data sb" "org_data sb' = org_data sb"
    using assms by (cases sb; cases sb'; simp)+
  then show "settled sb' = settled sb" "org_data sb' = org_data sb" "pending_ok sb' = pending_ok sb"
    by (auto simp: settled_eq read_chunk_def pending_ok_def)
qed

lemma copyout_truncate: "superblock.truncate (copyout chunk e sb) = superblock.truncate sb"
  by (simp add: copyout_def finish_copyout_def superblock.truncate_def Let_def)

lemma truncateD:
  assumes "superblock.truncate sb' = superblock.truncate sb"
  shows "view sb' = view sb" "image sb' = image sb" "metadata sb' = metadata sb" "snapdata sb' = snapdata sb"
    "snapmask sb' = snapmask sb" "bad_sector sb' = bad_sector sb" "deferred_alloc sb' = deferred_alloc sb"
    "defer_range sb' = defer_range sb" "asi sb' sp = asi sb sp"
proof -
  have e: "disk sb' = disk sb" "cache sb' = cache sb" "image sb' = image sb" "metadata sb' = metadata sb" "snapdata sb' = snapdata sb"
    "snapmask sb' = snapmask sb" "bad_sector sb' = bad_sector sb" "deferred_alloc sb' = deferred_alloc sb" "defer_range sb' = defer_range sb"
    using assms by (simp_all add: superblock.truncate_def)
  show "view sb' = view sb" by (rule ext) (simp add: view_def e cong: option.case_cong)
  show "asi sb' sp = asi sb sp" by (cases sp) (simp_all add: asi_def e)
qed (use assms in \<open>simp_all add: superblock.truncate_def\<close>)

lemma truncate_tree:
  assumes "superblock.truncate sb' = superblock.truncate sb"
  shows "btree_ok sb' = btree_ok sb" "btree_map sb' = btree_map sb" "btree_shares sb' = btree_shares sb"
    "probe sb' chunk = probe sb chunk" "in_use sb' Meta c = in_use sb Meta c" "tree_of sb' = tree_of sb"
    "world sb' S = world sb S"
proof -
  note t = truncateD [OF assms]
  show tree: "tree_of sb' = tree_of sb" by (simp add: tree_of_def t)
  show map: "btree_map sb' = btree_map sb" by (simp add: btree_map_def tree t)
  show "btree_shares sb' = btree_shares sb" by (simp add: btree_shares_def map t)
  have sh: "bitmap_shift sb' = bitmap_shift sb" by (simp add: bitmap_shift_def t)
  have ss: "bitmap_sector sb' Meta x = bitmap_sector sb Meta x" for x by (simp add: bitmap_sector_def t sh)
  have cu: "chunk_used sb' Meta x = chunk_used sb Meta x" for x by (simp add: chunk_used_def t ss sh)
  show use: "in_use sb' Meta c = in_use sb Meta c" for c by (simp add: in_use_def cu is_deferred_alloc_def t)
  have bo: "bitmap_ok sb' Meta i = bitmap_ok sb Meta i" for i unfolding bitmap_ok_def t ..
  have "counted sb' Meta = counted sb Meta" by (simp add: counted_def wf_alloc_def bo t sh cu use)
  moreover have "chunk_sector sb' = chunk_sector sb" by (simp add: chunk_sector_def [abs_def] t)
  ultimately show w: "world sb' S = world sb S" for S by (simp add: world_def owned_def bitmap_area_def use t)
  show "btree_ok sb' = btree_ok sb" by (simp add: btree_ok_def tree_in_def tree w t)
  have "bread sb' x = bread sb x" for x
    using assms by (simp add: bread_def superblock.truncate_def cong: option.case_cong)
  then have "probe_loop sb' chunk n s path = probe_loop sb chunk n s path" for n s path
    by (induction n arbitrary: s path) (auto split: option.split)
  then show "probe sb' chunk = probe sb chunk" by (simp add: probe_def t)
qed

section \<open>Allocation from one space\<close>

text \<open>With data and metadata in one space both kinds of allocation are the same.\<close>

lemma alloc_shared:
  assumes "as_asi (snapdata sb) = as_asi (metadata sb)"
  shows "alloc_chunk Snap sb = alloc_chunk Meta sb"
proof -
  have a: "asi x Snap = asi x Meta" if "snapdata x = snapdata sb" "metadata x = metadata sb" for x :: "'a superblock_scheme"
    using assms that by (simp add: asi_def)
  have u: "upd_asi f Snap x = upd_asi f Meta x" if "snapdata x = snapdata sb" "metadata x = metadata sb" for f and x :: "'a superblock_scheme"
    using assms that by (simp add: upd_asi_def)
  have m: "snapdata (mark_chunk y bytes c sb) = snapdata sb" "metadata (mark_chunk y bytes c sb) = metadata sb" for y bytes c
    by (auto simp: mark_chunk_def Let_def)
  have tk: "take_chunk Snap y bytes c sb = take_chunk Meta y bytes c sb" for y bytes c
    using u [OF m] by (simp add: take_chunk_def)
  have sc: "alloc_scan n Snap b off len sb = alloc_scan n Meta b off len sb" for n b off len
    by (induction n arbitrary: b off len) (simp_all add: a tk Let_def split: option.split)
  have rg: "alloc_chunk_from_range Snap b n sb = alloc_chunk_from_range Meta b n sb" for b n
    by (simp add: alloc_chunk_from_range_def sc)
  have keep: "snapdata x = snapdata sb \<and> metadata x = metadata sb \<and> (r = None \<longrightarrow> x = sb)" if "alloc_scan n Meta b off len sb = (r, x)" for n b off len r x
    using that
    by (induction n arbitrary: b off len) (auto simp: Let_def take_chunk_def set_sb_dirty_def upd_asi_def m split: option.splits if_splits)
  have keep': "snapdata x = snapdata sb \<and> metadata x = metadata sb \<and> (r = None \<longrightarrow> x = sb)"
    if "alloc_chunk_from_range Meta b n sb = (r, x)" for b n r x
    using that unfolding alloc_chunk_from_range_def Let_def by (rule keep)
  define found where "found = (case alloc_chunk_from_range Meta (last_alloc (asi sb Meta)) (u64_sub (chunks (asi sb Meta)) (last_alloc (asi sb Meta))) sb of
      (None, y) \<Rightarrow> alloc_chunk_from_range Meta 0 (last_alloc (asi sb Meta)) y | (Some c, y) \<Rightarrow> (Some c, y))"
  obtain r x where f: "found = (r, x)" by fastforce
  have x: "snapdata x = snapdata sb" "metadata x = metadata sb"
    using f unfolding found_def by (auto split: prod.splits option.splits dest!: keep')
  have "(case alloc_chunk_from_range Meta (last_alloc (asi sb Meta)) (u64_sub (chunks (asi sb Meta)) (last_alloc (asi sb Meta))) sb of
      (None, y) \<Rightarrow> alloc_chunk_from_range Snap 0 (last_alloc (asi sb Meta)) y | (Some c, y) \<Rightarrow> (Some c, y)) = found"
    unfolding found_def by (auto split: prod.splits option.splits dest: keep' simp: rg)
  then show ?thesis
    unfolding alloc_chunk_def Let_def rg a [OF refl refl] found_def [symmetric] f
    by (simp add: f u [OF x] split: option.split)
qed

section \<open>The state of the store\<close>

definition exceptions_of :: "aleaf \<Rightarrow> exception list" where
  "exceptions_of al = concat (map snd al)"

text \<open>
  A store that keeps data and metadata in one space: the tree is well formed,
  the chunks its exceptions refer to are allocated and all different, and
  chunk 0, which stands for no exception, is never handed out.
\<close>

definition store_ok :: "'a superblock_scheme \<Rightarrow> bool" where
  "store_ok sb \<longleftrightarrow> btree_ok sb \<and> btree_shares sb \<and> 1088 \<le> allocsize (metadata sb) \<and> 2 \<le> alloc_per_node (metadata sb) \<and>
     as_asi (snapdata sb) = as_asi (metadata sb) \<and> chunks (asi sb Meta) < 2 ^ 63 \<and> 0 < chunks (asi sb Meta) \<and> in_use sb Meta 0 \<and>
     (\<forall>e\<in>set (exceptions_of (btree_map sb)). ex_chunk e < chunks (asi sb Meta) \<and> in_use sb Meta (ex_chunk e) \<and> ex_chunk e \<noteq> 0) \<and>
     distinct (map ex_chunk (exceptions_of (btree_map sb)))"

lemma aleaf_get_exceptions: "set (aleaf_get al k) \<subseteq> set (exceptions_of al)"
  by (cases "map_of al k") (force simp: aleaf_get_def exceptions_of_def dest: map_of_SomeD)+

lemma aleaf_lookup_exception:
  assumes "aleaf_lookup al k b = Some e" obtains x where "x \<in> set (exceptions_of al)" "ex_chunk x = e"
proof -
  obtain x where "find (\<lambda>e. bit (ex_share e) b) (aleaf_get al k) = Some x" "ex_chunk x = e"
    using assms by (auto simp: aleaf_lookup_def snap_exception_def)
  then have "x \<in> set (aleaf_get al k)" by (auto dest!: find_SomeD)
  with \<open>ex_chunk x = e\<close> aleaf_get_exceptions [of al k] that show thesis by blast
qed

lemma clear_first_chunks: "map ex_chunk (clear_first m es) = map ex_chunk es"
  by (induction es) auto

lemma add_spec_chunks: "map ex_chunk (add_spec e i active es) = e # map ex_chunk es"
  by (simp add: add_spec_def clear_first_chunks)

lemma add_exception_chunks:
  "mset (map ex_chunk (exceptions_of (add_exception_spec k e i active al))) = mset (e # map ex_chunk (exceptions_of al))"
proof -
  define f where "f = (\<lambda>o'. add_spec e i active (case o' of None \<Rightarrow> [] | Some es \<Rightarrow> es))"
  have "mset (map ex_chunk (exceptions_of (alist_upd k f al))) = mset (e # map ex_chunk (exceptions_of al))"
  proof (induction al)
    case Nil
    then show ?case by (simp add: exceptions_of_def f_def add_spec_chunks)
  next
    case (Cons x al)
    then show ?case
      using arg_cong [OF add_spec_chunks [of e i active "[]"], of mset] arg_cong [OF add_spec_chunks [of e i active "snd x"], of mset]
      by (cases x) (auto simp: exceptions_of_def f_def)
  qed
  then show ?thesis by (simp add: add_exception_spec_def f_def)
qed

lemma add_exception_in:
  assumes "x \<in> set (exceptions_of (add_exception_spec k e i active al))"
  shows "ex_chunk x = e \<or> ex_chunk x \<in> ex_chunk ` set (exceptions_of al)"
  using mset_eq_setD [OF add_exception_chunks [of k e i active al]] assms by (force simp del: mset_map)

lemma add_exception_shares:
  assumes srt: "sorted_wrt (<) (map fst al)" and sh: "\<forall>(k, es)\<in>set al. wf_shares active es"
    and new: "if i = -1 then \<exists>b. bit active b \<and> aleaf_lookup al k b = None
      else 0 \<le> i \<and> bit active (nat i) \<and> (\<forall>x. find (\<lambda>e. bit (ex_share e) (nat i)) (aleaf_get al k) = Some x \<longrightarrow> ex_share x \<noteq> 2 ^ nat i)"
  shows "\<forall>(k, es)\<in>set (add_exception_spec k e i active al). wf_shares active es"
proof -
  let ?es = "aleaf_get al k"
  have es: "wf_shares active ?es"
    using sh by (auto simp: aleaf_get_def split: option.split dest: map_of_SomeD)
  have "wf_shares active (add_spec e i active ?es)"
  proof (cases "i = -1")
    case True
    then show ?thesis using new wf_shares_add_origin [OF es] by (auto simp: aleaf_lookup_def)
  next
    case False
    then obtain n where n: "i = int n" "bit active n" "\<And>x. find (\<lambda>e. bit (ex_share e) n) ?es = Some x \<Longrightarrow> ex_share x \<noteq> 2 ^ n"
      using new by (metis nat_0_le)
    show ?thesis unfolding n(1) by (rule wf_shares_add_snap [OF es n(2,3)])
  qed
  then show ?thesis using add_exception_spec_entry [OF srt] sh by fast
qed

section \<open>Making a chunk unique\<close>

text \<open>The two enquiries in terms of the whole tree.\<close>

lemma chunk_unique_tree:
  assumes ok: "btree_ok sb" and chunk: "chunk < 2 ^ 32" and pr: "probe sb chunk = Some (leafbuf, path)"
  shows "chunk_unique sb leafbuf chunk (- 1) old = ((\<forall>b. bit (snapmask sb) b \<longrightarrow> aleaf_lookup (btree_map sb) chunk b \<noteq> None), old)"
    "chunk_unique sb leafbuf chunk (int n) old =
       (case find (\<lambda>e. bit (ex_share e) n) (aleaf_get (btree_map sb) chunk) of
          None \<Rightarrow> (False, old) | Some e \<Rightarrow> (ex_share e = 2 ^ n, ex_chunk e))"
proof -
  obtain lo hi ctx leaf where p: "view sb leafbuf = LeafB leaf" "leaf_ok (allocsize (metadata sb)) lo hi leaf" "lo \<le> chunk" "chunk < hi"
    "btree_map sb = tree_map (view sb) (ctx_left ctx) @ leaf_abs leaf @ tree_map (view sb) (ctx_right ctx)"
    "keys_in 0 lo (tree_map (view sb) (ctx_left ctx))" "keys_in hi (2 ^ 32) (tree_map (view sb) (ctx_right ctx))"
    by (rule probe_leaf [OF ok chunk]) (use pr in auto)
  have b: "leaf_base_chunk leaf = 0" using p(2) by (simp add: leaf_ok_def)
  have cov: "leaf_covers leaf chunk" using b chunk by (simp add: leaf_covers_def)
  have tg: "leaf_target leaf chunk = chunk" by (rule leaf_target_base [OF b chunk])
  have get: "aleaf_get (btree_map sb) chunk = aleaf_get (leaf_abs leaf) chunk"
    unfolding aleaf_get_def p(5) leaf_of_tree [OF p(6,7,3,4)] ..
  show "chunk_unique sb leafbuf chunk (- 1) old = ((\<forall>b. bit (snapmask sb) b \<longrightarrow> aleaf_lookup (btree_map sb) chunk b \<noteq> None), old)"
    by (simp add: chunk_unique_def p(1) origin_chunk_unique_lookup [OF cov] leaf_lookup_def tg aleaf_lookup_def get)
  show "chunk_unique sb leafbuf chunk (int n) old =
       (case find (\<lambda>e. bit (ex_share e) n) (aleaf_get (btree_map sb) chunk) of
          None \<Rightarrow> (False, old) | Some e \<Rightarrow> (ex_share e = 2 ^ n, ex_chunk e))"
    by (simp add: chunk_unique_def p(1) snapshot_chunk_unique_eq tg get)
qed

text \<open>A new exception: the state behind the allocation, the copy and the insertion.\<close>

lemma add_copy:
  fixes sb :: "'a copier_scheme"
  assumes ok: "store_ok sb" and chunk: "chunk < 2 ^ 32" and free: "etree_levels (image sb) + 3 \<le> freechunks (asi sb Meta)"
    and pend: "pending_ok sb" and pr: "probe sb chunk = Some (leafbuf, path)"
    and new: "if i = -1 then \<exists>b. bit (snapmask sb) b \<and> aleaf_lookup (btree_map sb) chunk b = None
      else 0 \<le> i \<and> bit (snapmask sb) (nat i) \<and>
        (\<forall>x. find (\<lambda>e. bit (ex_share e) (nat i)) (aleaf_get (btree_map sb) chunk) = Some x \<longrightarrow> ex_share x \<noteq> 2 ^ nat i)"
  obtains e sb1 sb' where "alloc_snapblock sb = (Some e, sb1)" "e \<notin> ex_chunk ` set (exceptions_of (btree_map sb))"
    "\<forall>src. add_exception_to_tree leafbuf chunk e i path (copyout src e sb1) = (None, sb' src)"
    "\<forall>src. btree_map (sb' src) = add_exception_spec chunk e i (snapmask sb) (btree_map sb)"
    "\<forall>src. settled (sb' src) = (settled sb)(e := fetch sb src)" "\<forall>src. org_data (sb' src) = org_data sb"
    "\<forall>src. store_ok (sb' src)" "\<forall>src. snapmask (sb' src) = snapmask sb"
proof -
  let ?S = "set (sectors (tree_of sb))"
  have bt: "btree_ok sb" and sh: "btree_shares sb" and sz: "1088 \<le> allocsize (metadata sb)" "2 \<le> alloc_per_node (metadata sb)"
    and sp: "as_asi (snapdata sb) = as_asi (metadata sb)" and n: "chunks (asi sb Meta) < 2 ^ 63" "0 < chunks (asi sb Meta)" "in_use sb Meta 0"
    and ex: "\<And>x. x \<in> set (exceptions_of (btree_map sb)) \<Longrightarrow> ex_chunk x < chunks (asi sb Meta) \<and> in_use sb Meta (ex_chunk x) \<and> ex_chunk x \<noteq> 0"
    and dis: "distinct (map ex_chunk (exceptions_of (btree_map sb)))"
    using ok by (auto simp: store_ok_def)
  have w: "world sb ?S" using bt by (simp add: btree_ok_def tree_in_def)
  have fr: "0 < freechunks (asi sb Meta)" using free by simp
  obtain e sb1 where a: "alloc_chunk Meta sb = (Some e, sb1)" "e < chunks (asi sb Meta)" "\<not> in_use sb Meta e" "in_use sb1 Meta e"
    "world sb1 (insert (chunk_sector sb e) ?S)" "keeps sb sb1 ?S" "freechunks (asi sb Meta) = Suc (freechunks (asi sb1 Meta))"
    using alloc_world [OF w fr] by metis
  have w1: "world sb1 ?S" by (rule world_mono [OF a(5)]) auto
  note t1 = btree_keeps [OF bt a(6) w1]
  have l1: "later sb sb1" using a(6) by (simp add: keeps_def)
  have m1: "superblock.more sb1 = superblock.more sb" "snapmask sb1 = snapmask sb" "metadata sb1 = metadata sb"
    using l1 by (auto simp: later_def)
  note c1 = more_settled [OF m1(1)]
  have sh1: "btree_shares sb1" using sh by (simp add: btree_shares_def t1(2) m1(2))
  have fresh: "e \<notin> ex_chunk ` set (exceptions_of (btree_map sb))" using ex a(3) by auto
  have "\<exists>sb'. add_exception_to_tree leafbuf chunk e i path (copyout src e sb1) = (None, sb') \<and>
      btree_map sb' = add_exception_spec chunk e i (snapmask sb) (btree_map sb) \<and> settled sb' = (settled sb)(e := fetch sb src) \<and>
      org_data sb' = org_data sb \<and> store_ok sb' \<and> snapmask sb' = snapmask sb" for src
  proof -
    let ?sb2 = "copyout src e sb1"
    note tr = copyout_truncate [of src e sb1]
    note t2 = truncate_tree [OF tr] and f2 = truncateD [OF tr]
    obtain sb3 where s3: "add_exception_to_tree leafbuf chunk e i path ?sb2 = (None, sb3)" "btree_ok sb3"
      "btree_map sb3 = add_exception_spec chunk e i (snapmask ?sb2) (btree_map ?sb2)" "later ?sb2 sb3"
      using add_exception_to_tree_ok [of ?sb2 chunk leafbuf path e i] t1 t2 sh1 chunk pr sz free a(6,7)
      by (auto simp: f2 m1(2,3) keeps_def)
    have map3: "btree_map sb3 = add_exception_spec chunk e i (snapmask sb) (btree_map sb)" using s3(3) by (simp add: t2 t1 f2 m1(2))
    have m3: "superblock.more sb3 = superblock.more ?sb2" "snapmask sb3 = snapmask sb" "metadata sb3 = metadata sb" "snapdata sb3 = snapdata sb"
      "chunks (asi sb3 Meta) = chunks (asi sb Meta)"
      using s3(4) l1 by (auto simp: later_def f2)
    have use: "in_use sb3 Meta c" if "c < chunks (asi sb Meta)" "in_use sb Meta c \<or> c = e" for c
      using that s3(4) l1 a(4) by (auto simp: later_def t2 f2)
    have "settled sb3 = (settled sb)(e := fetch sb src)"
      using copyout_settled [of sb1 src e] c1 pend by (simp add: more_settled [OF m3(1)] fetch_def)
    moreover have "org_data sb3 = org_data sb"
      using c1(2) by (simp add: more_settled [OF m3(1)] copyout_def)
    moreover have "store_ok sb3"
    proof -
      have "btree_shares sb3"
        unfolding btree_shares_def map3 m3(2)
        by (rule add_exception_shares [OF btree_map_sorted [OF bt] sh [unfolded btree_shares_def] new])
      moreover have "ex_chunk x < chunks (asi sb Meta) \<and> in_use sb3 Meta (ex_chunk x) \<and> ex_chunk x \<noteq> 0"
        if "x \<in> set (exceptions_of (btree_map sb3))" for x
        using add_exception_in [OF that [unfolded map3]] ex use a(2,3) n(3) by (metis imageE)
      moreover have "distinct (map ex_chunk (exceptions_of (btree_map sb3)))"
        using mset_eq_imp_distinct_iff [OF add_exception_chunks [of chunk e i "snapmask sb" "btree_map sb"]] dis fresh
        by (simp add: map3)
      ultimately show ?thesis using s3(2) sz sp n use by (simp add: store_ok_def m3)
    qed
    ultimately show ?thesis using s3(1) map3 m3(2) by blast
  qed
  then obtain sb' where "\<And>src. add_exception_to_tree leafbuf chunk e i path (copyout src e sb1) = (None, sb' src) \<and>
      btree_map (sb' src) = add_exception_spec chunk e i (snapmask sb) (btree_map sb) \<and> settled (sb' src) = (settled sb)(e := fetch sb src) \<and>
      org_data (sb' src) = org_data sb \<and> store_ok (sb' src) \<and> snapmask (sb' src) = snapmask sb" by metis
  then show thesis using that [of e sb1 sb'] alloc_shared [OF sp] a(1) fresh by (simp add: alloc_snapblock_def)
qed

lemma ensure_space_enough:
  assumes "combined sb" "MAX_NEW_METACHUNKS + 1 \<le> freechunks (asi sb Meta)"
  shows "ensure_space rounds sb = Inr (True, sb)"
  using assms by (simp add: ensure_space_def ensure_free_chunks_def)

lemma spec_fresh:
  "e \<notin> ex_chunk ` set (exceptions_of al) \<Longrightarrow> spec_cow.fresh al e"
  unfolding spec_cow.fresh_def by (metis aleaf_lookup_exception image_eqI)

text \<open>With all exceptions different, a chunk of the store belongs to one entry only.\<close>

lemma exception_owner:
  assumes "distinct (map ex_chunk (exceptions_of al))" "(k, es) \<in> set al" "(k', es') \<in> set al" "x \<in> set es" "x' \<in> set es'"
    and "ex_chunk x = ex_chunk x'"
  shows "k = k' \<and> x = x'"
  using assms
proof (induction al)
  case (Cons y al)
  have d: "distinct (map ex_chunk (snd y))" "distinct (map ex_chunk (exceptions_of al))"
    "ex_chunk ` set (snd y) \<inter> ex_chunk ` set (exceptions_of al) = {}"
    using Cons.prems(1) by (auto simp: exceptions_of_def)
  have sub: "set es'' \<subseteq> set (exceptions_of al)" if "(k'', es'') \<in> set al" for k'' es''
    using that by (force simp: exceptions_of_def)
  consider "y = (k, es)" "y = (k', es')" | "y = (k, es)" "(k', es') \<in> set al" | "(k, es) \<in> set al" "y = (k', es')"
    | "(k, es) \<in> set al" "(k', es') \<in> set al" using Cons.prems(2,3) by auto
  then show ?case
  proof cases
    case 1
    then show ?thesis using d(1) Cons.prems(4-6) by (auto simp: distinct_map inj_on_def)
  next
    case 2
    then have "ex_chunk x \<in> ex_chunk ` set (snd y) \<inter> ex_chunk ` set (exceptions_of al)"
      using Cons.prems(4-6) sub by fastforce
    then show ?thesis using d(3) by simp
  next
    case 3
    then have "ex_chunk x \<in> ex_chunk ` set (snd y) \<inter> ex_chunk ` set (exceptions_of al)"
      using Cons.prems(4-6) sub by fastforce
    then show ?thesis using d(3) by simp
  next
    case 4
    then show ?thesis using Cons.IH [OF d(2) _ _ Cons.prems(4-6)] by blast
  qed
qed simp

lemma aleaf_get_entry: "x \<in> set (aleaf_get al k) \<Longrightarrow> \<exists>es. (k, es) \<in> set al \<and> x \<in> set es"
  by (cases "map_of al k") (auto simp: aleaf_get_def dest: map_of_SomeD)

lemma exclusive_exception:
  assumes "distinct (map ex_chunk (exceptions_of al))"
    and "find (\<lambda>e. bit (ex_share e) n) (aleaf_get al k) = Some x" "ex_share x = 2 ^ n" "aleaf_lookup al k' b = Some (ex_chunk x)"
  shows "k' = k \<and> b = n"
proof -
  obtain y where y: "find (\<lambda>e. bit (ex_share e) b) (aleaf_get al k') = Some y" "ex_chunk y = ex_chunk x"
    using assms(4) by (auto simp: aleaf_lookup_def snap_exception_def)
  have "x \<in> set (aleaf_get al k)" "y \<in> set (aleaf_get al k')" "bit (ex_share y) b"
    using find_SomeD [OF assms(2)] find_SomeD [OF y(1)] by auto
  with exception_owner [OF assms(1)] aleaf_get_entry y(2) have "k = k'" "x = y" by metis+
  then show ?thesis using \<open>bit (ex_share y) b\<close> assms(3) by (auto simp: bit_snapbit dest: bit_u64_less)
qed

text \<open>A write to the origin, as the snapshots see it.\<close>

lemma make_unique_origin:
  fixes sb :: "'a copier_scheme"
  assumes ok: "store_ok sb" and sp: "combined sb" "MAX_NEW_METACHUNKS + 1 \<le> freechunks (asi sb Meta)" "etree_levels (image sb) \<le> 8"
    and chunk: "chunk < 2 ^ 32" and pend: "pending_ok sb"
  shows "\<exists>e sb'. make_unique rounds chunk (- 1) sb = Inr (Some e, sb') \<and> store_ok sb' \<and> snapmask sb' = snapmask sb \<and>
    (\<forall>b c d. bit (snapmask sb) b \<longrightarrow>
       snap_read (aleaf_lookup (btree_map sb')) ((org_data sb')(chunk := d)) (settled sb') b c =
       snap_read (aleaf_lookup (btree_map sb)) (org_data sb) (settled sb) b c)"
proof -
  have bt: "btree_ok sb" using ok by (simp add: store_ok_def)
  obtain leafbuf path where pr: "probe sb chunk = Some (leafbuf, path)" by (rule probe_leaf [OF bt chunk]) auto
  have mu: "make_unique rounds chunk (- 1) sb = add_unique chunk (- 1) sb"
    using ensure_space_enough [OF sp(1,2), of rounds] by (simp add: make_unique_def)
  show ?thesis
  proof (cases "\<forall>b. bit (snapmask sb) b \<longrightarrow> aleaf_lookup (btree_map sb) chunk b \<noteq> None")
    case True
    then have "add_unique chunk (- 1) sb = Inr (Some 0, sb)"
      by (simp add: add_unique_def pr chunk_unique_tree(1) [OF bt chunk pr])
    moreover have "snap_read (aleaf_lookup (btree_map sb)) ((org_data sb)(chunk := d)) (settled sb) b c =
       snap_read (aleaf_lookup (btree_map sb)) (org_data sb) (settled sb) b c" if "bit (snapmask sb) b" for b c d
      using True that by (auto simp: snap_read_def split: option.split)
    ultimately show ?thesis using ok mu by auto
  next
    case False
    then have new: "if (- 1 :: int) = - 1 then \<exists>b. bit (snapmask sb) b \<and> aleaf_lookup (btree_map sb) chunk b = None
      else 0 \<le> (- 1 :: int) \<and> bit (snapmask sb) (nat (- 1)) \<and>
        (\<forall>x. find (\<lambda>e. bit (ex_share e) (nat (- 1))) (aleaf_get (btree_map sb) chunk) = Some x \<longrightarrow> ex_share x \<noteq> 2 ^ nat (- 1))"
      by auto
    have fr: "etree_levels (image sb) + 3 \<le> freechunks (asi sb Meta)" using sp(2,3) by simp
    obtain e sb1 sb' where a: "alloc_snapblock sb = (Some e, sb1)"
      "\<forall>src. add_exception_to_tree leafbuf chunk e (- 1) path (copyout src e sb1) = (None, sb' src)"
      "\<forall>src. btree_map (sb' src) = add_exception_spec chunk e (- 1) (snapmask sb) (btree_map sb)"
      "\<forall>src. settled (sb' src) = (settled sb)(e := fetch sb src)" "\<forall>src. org_data (sb' src) = org_data sb"
      "\<forall>src. store_ok (sb' src)" "\<forall>src. snapmask (sb' src) = snapmask sb" "e \<notin> ex_chunk ` set (exceptions_of (btree_map sb))"
      using add_copy [OF ok chunk fr pend pr new] by metis
    have run: "add_unique chunk (- 1) sb = Inr (Some e, sb' chunk)"
    proof -
      have "chunk_unique sb leafbuf chunk (- 1) 0 = (False, 0)" using False by (simp only: chunk_unique_tree(1) [OF bt chunk pr] simp_thms)
      then show ?thesis using a(1,2) by (simp add: add_unique_def pr)
    qed
    have "fetch sb chunk = org_data sb chunk" using chunk by (simp add: fetch_def)
    then have "snap_read (aleaf_lookup (btree_map (sb' chunk))) ((org_data (sb' chunk))(chunk := d)) (settled (sb' chunk)) b c =
       snap_read (aleaf_lookup (btree_map sb)) (org_data sb) (settled sb) b c" if "bit (snapmask sb) b" for b c d
      using spec_cow.origin_write_invisible [OF btree_map_sorted [OF bt] refl _ _ spec_fresh [OF a(8)] that,
          where c = chunk and c' = c and origin = "org_data sb" and d = d and store = "settled sb"]
      by (simp add: a(3-5))
    then show ?thesis using run mu a(6,7) by auto
  qed
qed

text \<open>A write to a snapshot.\<close>

lemma make_unique_snapshot:
  fixes sb :: "'a copier_scheme"
  assumes ok: "store_ok sb" and sp: "combined sb" "MAX_NEW_METACHUNKS + 1 \<le> freechunks (asi sb Meta)" "etree_levels (image sb) \<le> 8"
    and chunk: "chunk < 2 ^ 32" and pend: "pending_ok sb" and n: "bit (snapmask sb) n"
  shows "\<exists>e sb'. make_unique rounds chunk (int n) sb = Inr (Some e, sb') \<and> store_ok sb' \<and> snapmask sb' = snapmask sb \<and>
    aleaf_lookup (btree_map sb') chunk n = Some e \<and>
    settled sb' e = snap_read (aleaf_lookup (btree_map sb)) (org_data sb) (settled sb) n chunk \<and>
    (\<forall>b c d. snap_read (aleaf_lookup (btree_map sb')) (org_data sb') ((settled sb')(e := d)) b c =
       (if b = n \<and> c = chunk then d else snap_read (aleaf_lookup (btree_map sb)) (org_data sb) (settled sb) b c))"
proof -
  have bt: "btree_ok sb" and dis: "distinct (map ex_chunk (exceptions_of (btree_map sb)))"
    and ex: "\<And>x. x \<in> set (exceptions_of (btree_map sb)) \<Longrightarrow> ex_chunk x < 2 ^ 63 \<and> ex_chunk x \<noteq> 0"
    using ok by (force simp: store_ok_def)+
  have n64: "n < MAX_SNAPSHOTS" using bit_u64_less [OF n] by simp
  obtain leafbuf path where pr: "probe sb chunk = Some (leafbuf, path)" by (rule probe_leaf [OF bt chunk]) auto
  have mu: "make_unique rounds chunk (int n) sb = add_unique chunk (int n) sb"
    using ensure_space_enough [OF sp(1,2), of rounds] by (simp add: make_unique_def)
  let ?f = "find (\<lambda>e. bit (ex_share e) n) (aleaf_get (btree_map sb) chunk)"
  have look: "aleaf_lookup (btree_map sb) chunk n = map_option ex_chunk ?f" by (simp add: aleaf_lookup_def snap_exception_def)
  show ?thesis
  proof (cases "\<exists>x. ?f = Some x \<and> ex_share x = 2 ^ n")
    case True
    then obtain x where x: "?f = Some x" "ex_share x = 2 ^ n" by blast
    have "add_unique chunk (int n) sb = Inr (Some (ex_chunk x), sb)"
      by (simp add: add_unique_def pr chunk_unique_tree(2) [OF bt chunk pr] x)
    moreover have l: "aleaf_lookup (btree_map sb) chunk n = Some (ex_chunk x)" by (simp add: look x)
    moreover have "snap_read (aleaf_lookup (btree_map sb)) (org_data sb) ((settled sb)(ex_chunk x := d)) b c =
       (if b = n \<and> c = chunk then d else snap_read (aleaf_lookup (btree_map sb)) (org_data sb) (settled sb) b c)" for b c d
    proof (cases "aleaf_lookup (btree_map sb) c b = Some (ex_chunk x)")
      case True
      with exclusive_exception [OF dis x True] show ?thesis by (simp add: snap_read_def)
    next
      case False
      with l have "\<not> (b = n \<and> c = chunk)" by blast
      with False show ?thesis by (cases "aleaf_lookup (btree_map sb) c b") (auto simp: snap_read_def)
    qed
    ultimately show ?thesis using ok mu by (intro exI [of _ "ex_chunk x"] exI [of _ sb]) (simp add: snap_read_def)
  next
    case False
    then have new: "if int n = - 1 then \<exists>b. bit (snapmask sb) b \<and> aleaf_lookup (btree_map sb) chunk b = None
      else 0 \<le> int n \<and> bit (snapmask sb) (nat (int n)) \<and>
        (\<forall>x. find (\<lambda>e. bit (ex_share e) (nat (int n))) (aleaf_get (btree_map sb) chunk) = Some x \<longrightarrow> ex_share x \<noteq> 2 ^ nat (int n))"
      using n by auto
    have fr: "etree_levels (image sb) + 3 \<le> freechunks (asi sb Meta)" using sp(2,3) by simp
    obtain e sb1 sb' where a: "alloc_snapblock sb = (Some e, sb1)"
      "\<forall>src. add_exception_to_tree leafbuf chunk e (int n) path (copyout src e sb1) = (None, sb' src)"
      "\<forall>src. btree_map (sb' src) = add_exception_spec chunk e (int n) (snapmask sb) (btree_map sb)"
      "\<forall>src. settled (sb' src) = (settled sb)(e := fetch sb src)" "\<forall>src. org_data (sb' src) = org_data sb"
      "\<forall>src. store_ok (sb' src)" "\<forall>src. snapmask (sb' src) = snapmask sb" "e \<notin> ex_chunk ` set (exceptions_of (btree_map sb))"
      by (rule add_copy [OF ok chunk fr pend pr new])
    define src where "src = (case ?f of None \<Rightarrow> chunk | Some x \<Rightarrow> snap_source (ex_chunk x))"
    have fe: "fetch sb src = snap_read (aleaf_lookup (btree_map sb)) (org_data sb) (settled sb) n chunk"
    proof (cases ?f)
      case None
      then show ?thesis using chunk by (simp add: src_def fetch_def snap_read_def look)
    next
      case (Some x)
      then have "x \<in> set (exceptions_of (btree_map sb))" using find_SomeD [OF Some] aleaf_get_exceptions by blast
      with ex [OF this] Some show ?thesis
        by (simp add: src_def fetch_def snap_read_def look snap_source_def div_add_self2)
    qed
    have run: "add_unique chunk (int n) sb = Inr (Some e, sb' src)"
    proof (cases ?f)
      case None
      then show ?thesis using a(1,2) by (simp add: add_unique_def pr chunk_unique_tree(2) [OF bt chunk pr] src_def)
    next
      case (Some x)
      then have "x \<in> set (exceptions_of (btree_map sb))" using find_SomeD [OF Some] aleaf_get_exceptions by blast
      with ex [OF this] Some False show ?thesis
        using a(1,2) by (simp add: add_unique_def pr chunk_unique_tree(2) [OF bt chunk pr] src_def)
    qed
    note fresh = spec_fresh [OF a(8)] and srt = btree_map_sorted [OF bt]
    have "snap_read (aleaf_lookup (btree_map (sb' src))) (org_data (sb' src)) ((settled (sb' src))(e := d)) b c =
       (if b = n \<and> c = chunk then d else snap_read (aleaf_lookup (btree_map sb)) (org_data sb) (settled sb) b c)" for b c d
      using spec_cow.snap_write_self [OF srt refl n64, where c = chunk and e = e and active = "snapmask sb" and origin = "org_data sb" and store = "settled sb" and d = d]
        spec_cow.snap_write_other [OF srt refl n64 _ _ fresh, where c = chunk and c' = c and b = b and active = "snapmask sb" and origin = "org_data sb" and store = "settled sb" and d = d]
      by (auto simp: a(3-5))
    moreover have "aleaf_lookup (btree_map (sb' src)) chunk n = Some e"
      using spec_cow.look_add_snap [OF srt refl n64, where c = chunk and e = e and active = "snapmask sb" and c' = chunk and b = n] by (simp add: a(3))
    ultimately show ?thesis using run mu a(4,6,7) fe by auto
  qed
qed

end
