(* ===== verification/Changelist_Lemmas.thy ===== *)
theory Changelist_Lemmas
  imports Changelist Btree_Traverse Write_Path
begin

text \<open>
  What the change list of two snapshots holds: the chunks that the two
  snapshots find in different places.
\<close>

definition cl_full :: "change_list \<Rightarrow> bool" where
  "cl_full cl \<longleftrightarrow> cl_count cl = length (cl_chunks cl)"

lemma append_full:
  "cl_full cl \<Longrightarrow> cl_full (append_change_list c cl) \<and> cl_chunks (append_change_list c cl) = cl_chunks cl @ [c] \<and>
     tgt_snap (append_change_list c cl) = tgt_snap cl"
  by (simp add: cl_full_def append_change_list_def Let_def)

definition entry_changed :: "'a superblock_scheme \<Rightarrow> u64 \<Rightarrow> u64 \<Rightarrow> nat \<Rightarrow> chunk_t \<times> exception list \<Rightarrow> bool" where
  "entry_changed sb mask1 mask2 n = (\<lambda>(k, es). (\<exists>p\<in>set es. shares_differ mask1 mask2 p) \<and> k * 2 ^ chunk_sectors_bits (snapdata sb) < n)"

lemma fold_append_full:
  assumes "cl_full cl"
  shows "cl_full (fold (\<lambda>i cl. if P i then append_change_list (f i) cl else cl) is cl) \<and>
    cl_chunks (fold (\<lambda>i cl. if P i then append_change_list (f i) cl else cl) is cl) = cl_chunks cl @ map f (filter P is) \<and>
    tgt_snap (fold (\<lambda>i cl. if P i then append_change_list (f i) cl else cl) is cl) = tgt_snap cl"
  using assms by (induction "is" arbitrary: cl) (simp_all add: append_full)

lemma gen_leaf_full:
  assumes "cl_full cl" "leaf_base_chunk leaf = 0"
  shows "cl_full (gen_changelist_leaf sb mask1 mask2 leaf cl) \<and> tgt_snap (gen_changelist_leaf sb mask1 mask2 leaf cl) = tgt_snap cl \<and>
    cl_chunks (gen_changelist_leaf sb mask1 mask2 leaf cl) =
      cl_chunks cl @ map fst (filter (entry_changed sb mask1 mask2 (target_sectors sb (tgt_snap cl))) (leaf_abs leaf))"
proof -
  have "entry_changed sb mask1 mask2 n (leaf_rchunk leaf i, exceptions leaf i) = changed_entry sb mask1 mask2 n leaf i" for n i
    using assms(2) by (simp add: entry_changed_def changed_entry_def)
  then have "filter (entry_changed sb mask1 mask2 n) (leaf_abs leaf) =
      map (\<lambda>i. (leaf_rchunk leaf i, exceptions leaf i)) (filter (changed_entry sb mask1 mask2 n leaf) [0..<leaf_count leaf])" for n
    by (simp add: leaf_abs_def filter_map comp_def)
  moreover have "filter (changed_entry sb mask1 mask2 0 leaf) xs = []" for xs by (auto simp: changed_entry_def filter_empty_conv)
  ultimately show ?thesis
    using fold_append_full [OF assms(1), of "changed_entry sb mask1 mask2 (target_sectors sb (tgt_snap cl)) leaf"
        "\<lambda>i. leaf_base_chunk leaf + leaf_rchunk leaf i" "[0..<leaf_count leaf]"] assms(2)
    by (cases "target_sectors sb (tgt_snap cl) = 0") (simp_all add: assms(1) gen_changelist_leaf_def Let_def comp_def)
qed

lemma gen_leaves_full:
  assumes "cl_full cl" "\<forall>leaf\<in>set ls. leaf_base_chunk leaf = 0"
  shows "cl_full (fold (gen_changelist_leaf sb mask1 mask2) ls cl) \<and> cl_chunks (fold (gen_changelist_leaf sb mask1 mask2) ls cl) =
      cl_chunks cl @ map fst (filter (entry_changed sb mask1 mask2 (target_sectors sb (tgt_snap cl))) (concat (map leaf_abs ls)))"
  using assms
proof (induction ls arbitrary: cl)
  case (Cons leaf ls)
  have g: "cl_full (gen_changelist_leaf sb mask1 mask2 leaf cl) \<and> tgt_snap (gen_changelist_leaf sb mask1 mask2 leaf cl) = tgt_snap cl \<and>
    cl_chunks (gen_changelist_leaf sb mask1 mask2 leaf cl) =
      cl_chunks cl @ map fst (filter (entry_changed sb mask1 mask2 (target_sectors sb (tgt_snap cl))) (leaf_abs leaf))"
    by (rule gen_leaf_full) (use Cons.prems in auto)
  then show ?case using Cons.IH [of "gen_changelist_leaf sb mask1 mask2 leaf cl"] Cons.prems by simp
qed simp

text \<open>With disjoint shares and different chunks the lookups differ exactly if some exception is shared by one of the two.\<close>

lemma shares_differ_bits: "shares_differ (push_bit b1 1) (push_bit b2 1) p \<longleftrightarrow> bit (ex_share p) b2 \<noteq> bit (ex_share p) b1" if "b1 < 64" "b2 < 64"
proof -
  have "(ex_share p AND push_bit b 1 = push_bit b 1) = bit (ex_share p) b" if "b < 64" for b
    using that by (auto simp: u64_eq_iff bit_and_iff bit_snapbit)
  then show ?thesis using that by (simp add: shares_differ_def)
qed

lemma find_share:
  assumes "wf_shares active es" "x \<in> set es" "bit (ex_share x) b"
  shows "find (\<lambda>e. bit (ex_share e) b) es = Some x"
  using assms
proof (induction es)
  case (Cons e es)
  have "wf_shares active es" using Cons.prems(1) by (simp add: wf_shares_def)
  moreover have "\<not> bit (ex_share e) b" if "x \<in> set es"
    using Cons.prems(1,3) that unfolding wf_shares_iff by auto
  ultimately show ?case using Cons by auto
qed simp

lemma lookup_differs:
  assumes wf: "wf_shares active es" and d: "distinct (map ex_chunk es)" and b: "b1 < 64" "b2 < 64"
  shows "(\<exists>p\<in>set es. shares_differ (push_bit b1 1) (push_bit b2 1) p) \<longleftrightarrow> snap_exception es b1 \<noteq> snap_exception es b2"
proof -
  have one: "snap_exception es b \<noteq> snap_exception es b'" if "x \<in> set es" "bit (ex_share x) b" "\<not> bit (ex_share x) b'" for x b b'
  proof
    assume eq: "snap_exception es b = snap_exception es b'"
    have "snap_exception es b = Some (ex_chunk x)" using find_share [OF wf that(1,2)] by (simp add: snap_exception_def)
    with eq obtain y where y: "find (\<lambda>e. bit (ex_share e) b') es = Some y" "ex_chunk y = ex_chunk x" by (auto simp: snap_exception_def)
    then have "y = x" using that(1) d find_SomeD [OF y(1)] by (auto simp: distinct_map inj_on_def)
    with find_SomeD [OF y(1)] that(3) show False by simp
  qed
  have all: "snap_exception es b1 = snap_exception es b2" if "\<forall>p\<in>set es. bit (ex_share p) b2 = bit (ex_share p) b1"
    unfolding snap_exception_def using that by (metis (mono_tags, lifting) find_cong)
  show ?thesis
  proof
    assume "\<exists>p\<in>set es. shares_differ (push_bit b1 1) (push_bit b2 1) p"
    then obtain p where "p \<in> set es" "bit (ex_share p) b2 \<noteq> bit (ex_share p) b1" unfolding shares_differ_bits [OF b] by blast
    then show "snap_exception es b1 \<noteq> snap_exception es b2"
      using one [of p b1 b2] one [of p b2 b1] by fastforce
  next
    assume "snap_exception es b1 \<noteq> snap_exception es b2"
    with all show "\<exists>p\<in>set es. shares_differ (push_bit b1 1) (push_bit b2 1) p" unfolding shares_differ_bits [OF b] by blast
  qed
qed

text \<open>The list that the walk over the tree makes.\<close>

lemma changelist_tree:
  assumes ok: "store_ok sb" and lev: "1 \<le> etree_levels (image sb)" and rounds: "length (leaf_list (tree_of sb)) \<le> rounds"
    and b: "b1 < 64" "b2 < 64"
  shows "\<exists>cl. traverse_tree_range rounds sb 0 (gen_changelist_leaf sb (push_bit b1 1) (push_bit b2 1)) (init_change_list bits src tgt) =
      Inr (None, cl) \<and> cl_full cl \<and> sorted_wrt (<) (cl_chunks cl) \<and>
    set (cl_chunks cl) = {c. aleaf_lookup (btree_map sb) c b1 \<noteq> aleaf_lookup (btree_map sb) c b2 \<and>
      c * 2 ^ chunk_sectors_bits (snapdata sb) < target_sectors sb tgt}"
proof -
  have bt: "btree_ok sb" and sh: "\<forall>(k, es)\<in>set (btree_map sb). wf_shares (snapmask sb) es"
    and dis: "distinct (map ex_chunk (exceptions_of (btree_map sb)))"
    using ok by (auto simp: store_ok_def btree_shares_def)
  let ?g = "gen_changelist_leaf sb (push_bit b1 1) (push_bit b2 1)" and ?cl = "init_change_list bits src tgt"
  let ?cl' = "fold ?g (map (leaf_at sb) (leaf_list (tree_of sb))) ?cl" and ?n = "target_sectors sb tgt"
  let ?P = "entry_changed sb (push_bit b1 1) (push_bit b2 1) ?n"
  have run: "traverse_tree_range rounds sb 0 ?g ?cl = Inr (None, ?cl')"
    using traverse_all [OF bt lev rounds] by (simp add: traverse_tree_range_def)
  have base: "\<forall>leaf\<in>set (map (leaf_at sb) (leaf_list (tree_of sb))). leaf_base_chunk leaf = 0"
    using leaves_base [OF bt] by simp
  have g: "cl_full ?cl' \<and> cl_chunks ?cl' = cl_chunks ?cl @ map fst (filter (entry_changed sb (push_bit b1 1) (push_bit b2 1) (target_sectors sb (tgt_snap ?cl)))
      (concat (map leaf_abs (map (leaf_at sb) (leaf_list (tree_of sb))))))"
    by (rule gen_leaves_full [OF _ base]) (simp add: cl_full_def init_change_list_def)
  then have cl: "cl_chunks ?cl' = map fst (filter ?P (btree_map sb))"
    by (simp add: init_change_list_def btree_map_def tree_map_def comp_def)
  have srt: "sorted_wrt (<) (map fst (btree_map sb))" by (rule btree_map_sorted [OF bt])
  then have "sorted_wrt (<) (cl_chunks ?cl')"
    unfolding cl sorted_wrt_map by (rule sorted_wrt_filter)
  moreover have "set (cl_chunks ?cl') = {c. aleaf_lookup (btree_map sb) c b1 \<noteq> aleaf_lookup (btree_map sb) c b2 \<and>
      c * 2 ^ chunk_sectors_bits (snapdata sb) < ?n}"
  proof (rule set_eqI)
    fix c
    have one: "?P (c, es) \<longleftrightarrow> aleaf_lookup (btree_map sb) c b1 \<noteq> aleaf_lookup (btree_map sb) c b2 \<and>
        c * 2 ^ chunk_sectors_bits (snapdata sb) < ?n" if "(c, es) \<in> set (btree_map sb)" for es
    proof -
      have "map_of (btree_map sb) c = Some es"
        using srt that by (intro map_of_is_SomeI) (auto simp: strict_sorted_iff)
      then have get: "aleaf_get (btree_map sb) c = es" by (simp add: aleaf_get_def)
      have "distinct (map ex_chunk es)"
        using dis that by (auto simp: exceptions_of_def map_concat distinct_concat_iff)
      with lookup_differs [OF _ this b, of "snapmask sb"] sh that show ?thesis
        by (auto simp: entry_changed_def aleaf_lookup_def get)
    qed
    have out: "aleaf_lookup (btree_map sb) c b1 = aleaf_lookup (btree_map sb) c b2" if "c \<notin> fst ` set (btree_map sb)"
    proof -
      have "map_of (btree_map sb) c = None" using that by (simp add: map_of_eq_None_iff)
      then show ?thesis by (simp add: aleaf_lookup_def aleaf_get_def snap_exception_def)
    qed
    show "c \<in> set (cl_chunks ?cl') \<longleftrightarrow> c \<in> {c. aleaf_lookup (btree_map sb) c b1 \<noteq> aleaf_lookup (btree_map sb) c b2 \<and>
        c * 2 ^ chunk_sectors_bits (snapdata sb) < ?n}"
      unfolding cl using one out by force
  qed
  ultimately show ?thesis using run g by blast
qed

end
