(* ===== verification/Tree_Demo.thy ===== *)
theory Tree_Demo
  imports Changelist_Lemmas Leaf_Correct
begin

text \<open>
  A small store on which the properties of the tree and of the write path are
  instantiated: 200 chunks of 4096 bytes for data and metadata together, a root
  node in chunk 5 over two leaves in the chunks 6 and 7, the bitmap in chunk 4
  and two snapshots.  The first leaf is \<open>demo_leaf\<close>, whose exceptions are the
  chunks 100 and 101; the second leaf is empty.
\<close>

definition demo_used :: "u8 list" where
  "demo_used = map (\<lambda>q. if q < 2 then 0xff else if q = 12 then 0x30 else 0) [0..<25]"

definition demo_bytes :: "u8 list" where
  "demo_bytes = demo_used @ replicate 4071 0"

definition demo_snap :: "nat \<Rightarrow> nat \<Rightarrow> snapshot" where
  "demo_snap tag b = \<lparr>snap_ctime = 0, snap_tag = tag, snap_usecount = 0, snap_bit = b, snap_prio = 0, snap_sectors = 8000\<rparr>"

definition demo_super :: disksuper where
  "demo_super = \<lparr>magic = SB_MAGIC, create_time = 0, etree_root = 40, orgoffset = 0, orgsectors = 8000, sb_flags = 0,
     deleting = 0, snaplist = [demo_snap 7 0, demo_snap 8 1], etree_levels = 1, journal_base = 64, journal_next = 0,
     journal_size = 8, sequence = 8,
     img_metadata = \<lparr>bitmap_base = 32, chunks = 200, freechunks = 182, last_alloc = 0, bitmap_blocks = 1, allocsize_bits = 12\<rparr>,
     img_snapdata = \<lparr>bitmap_base = 0, chunks = 0, freechunks = 0, last_alloc = 0, bitmap_blocks = 0, allocsize_bits = 12\<rparr>\<rparr>"

definition demo_disk :: "sector_t \<Rightarrow> block" where
  "demo_disk s =
     (if s = 32 then BitmapB demo_bytes
      else if s = 40 then NodeB \<lparr>node_entries = [\<lparr>ie_key = 0, ie_sector = 48\<rparr>, \<lparr>ie_key = 1000, ie_sector = 56\<rparr>]\<rparr>
      else if s = 48 then LeafB demo_leaf else if s = 56 then LeafB (init_leaf no_leaf 4096) else RawB)"

definition demo_store :: "'a \<Rightarrow> 'a copier_scheme" where
  "demo_store x = \<lparr>disk = demo_disk, cache = (\<lambda>_. None), dirty_buffers = [], journaled_buffers = [],
     bad_sector = (\<lambda>_. False), image = demo_super, super_disk = demo_super,
     metadata = \<lparr>as_asi = Meta, allocsize = 4096, chunk_sectors_bits = 3, alloc_per_node = 255\<rparr>,
     snapdata = \<lparr>as_asi = Meta, allocsize = 4096, chunk_sectors_bits = 3, alloc_per_node = 0\<rparr>,
     snapmask = 3, runflags = 0, copybuf_size = 32768, max_commit_blocks = 500, sb_usecount = (\<lambda>_. 0),
     deferred_alloc = [], defer_range = \<lparr>range_chunk = 0, range_barrier = False, range_count = 0\<rparr>,
     source_chunk = 0, dest_exception = 0, copy_chunks = 0,
     org_data = (\<lambda>c. [of_nat c]), snap_data = (\<lambda>_. [0]), \<dots> = x\<rparr>"

lemma demo_asi [simp]: "asi (demo_store x) sp = img_metadata demo_super"
  by (cases sp) (simp_all add: asi_def demo_store_def)

lemma demo_store_simps [simp]:
  "image (demo_store x) = demo_super" "snapmask (demo_store x) = 3" "bad_sector (demo_store x) s = False"
  "metadata (demo_store x) = \<lparr>as_asi = Meta, allocsize = 4096, chunk_sectors_bits = 3, alloc_per_node = 255\<rparr>"
  "snapdata (demo_store x) = \<lparr>as_asi = Meta, allocsize = 4096, chunk_sectors_bits = 3, alloc_per_node = 0\<rparr>"
  "view (demo_store x) = demo_disk"
  by (simp_all add: demo_store_def view_def fun_eq_iff)

lemma demo_super_simps [simp]:
  "etree_root demo_super = 40" "etree_levels demo_super = 1" "snaplist demo_super = [demo_snap 7 0, demo_snap 8 1]"
  "chunks (img_metadata demo_super) = 200" "freechunks (img_metadata demo_super) = 182" "bitmap_base (img_metadata demo_super) = 32"
  "bitmap_blocks (img_metadata demo_super) = 1" "allocsize_bits (img_metadata demo_super) = 12"
  "last_alloc (img_metadata demo_super) = 0" "chunks (img_snapdata demo_super) = 0"
  by (simp_all add: demo_super_def)

lemma demo_disk_simps [simp]:
  "demo_disk 32 = BitmapB demo_bytes" "demo_disk 48 = LeafB demo_leaf" "demo_disk 56 = LeafB (init_leaf no_leaf 4096)"
  "demo_disk 40 = NodeB (node_of [(0, Tip 48), (1000, Tip 56)])"
  by (simp_all add: demo_disk_def node_of_def entry_of_def)

section \<open>Allocation\<close>

lemma demo_used_length: "length demo_used = 25"
  by (simp add: demo_used_def)

lemma demo_bytes_length: "length demo_bytes = 4096"
  by (simp add: demo_bytes_def demo_used_length)

lemma demo_bytes_nth: "i < 25 \<Longrightarrow> demo_bytes ! i = demo_used ! i"
  unfolding demo_bytes_def by (rule nth_append_left) (simp add: demo_used_length)

lemma demo_used_nth: "q < 25 \<Longrightarrow> demo_used ! q = (if q < 2 then 0xff else if q = 12 then 0x30 else 0)"
  by (simp add: demo_used_def)

lemma demo_byte_bits:
  assumes "r < 8" shows "bit (0xff :: u8) r" "bit (0x30 :: u8) r \<longleftrightarrow> r = 4 \<or> r = 5"
proof -
  have "r = 0 \<or> r = 1 \<or> r = 2 \<or> r = 3 \<or> r = 4 \<or> r = 5 \<or> r = 6 \<or> r = 7" using assms by linarith
  then show "bit (0xff :: u8) r" "bit (0x30 :: u8) r \<longleftrightarrow> r = 4 \<or> r = 5" by (elim disjE; simp)+
qed

lemma demo_split:
  fixes q r :: nat
  assumes "r < 8" shows "8 * q + r < 16 \<or> 8 * q + r = 100 \<or> 8 * q + r = 101 \<longleftrightarrow> q < 2 \<or> q = 12 \<and> (r = 4 \<or> r = 5)"
  using assms by presburger

lemma demo_used_bits:
  assumes "c < 200" shows "get_bitmap_bit demo_used c \<longleftrightarrow> c < 16 \<or> c = 100 \<or> c = 101"
proof -
  have q: "c div 8 < 25" "c mod 8 < 8" using less_mult_imp_div_less [of c 25 8] assms by simp_all
  have "get_bitmap_bit demo_used c \<longleftrightarrow> c div 8 < 2 \<or> c div 8 = 12 \<and> (c mod 8 = 4 \<or> c mod 8 = 5)"
    unfolding get_bitmap_bit_iff demo_used_nth [OF q(1)] using demo_byte_bits [OF q(2)] by (simp split: if_split)
  moreover have "8 * (c div 8) + c mod 8 = c" by simp
  ultimately show ?thesis using q(2) by (metis demo_split)
qed

lemma demo_in_use:
  assumes "c < 200" shows "in_use (demo_store x) Meta c \<longleftrightarrow> c < 16 \<or> c = 100 \<or> c = 101"
proof -
  have "get_bitmap_bit demo_bytes c = get_bitmap_bit demo_used c"
    using less_mult_imp_div_less [of c 25 8] assms by (simp add: get_bitmap_bit_def demo_bytes_nth)
  moreover have "\<not> is_deferred_alloc (demo_store x) c"
    by (simp add: is_deferred_alloc_def demo_store_def chunk_within_def)
  ultimately show ?thesis using demo_used_bits assms
    by (simp add: in_use_def chunk_used_def bitmap_sector_def bitmap_shift_def)
qed

lemma demo_counted: "counted (demo_store x) Meta"
proof -
  have "{c. c < 200 \<and> \<not> in_use (demo_store x) Meta c} = {16..<100} \<union> {102..<200}" by (auto simp: demo_in_use)
  then show ?thesis
    by (simp add: demo_bytes_length counted_def wf_alloc_def bitmap_ok_def bitmap_shift_def card_Un_disjoint)
qed

lemma demo_world: "world (demo_store x) {40, 48, 56}"
proof -
  have a: "bitmap_area (demo_store x) = {32}" by (auto simp: bitmap_area_def chunk_sector_def)
  have "owned (demo_store x) (chunk_sector (demo_store x) c)" if "c \<in> {5, 6, 7}" for c
    using that demo_in_use [of c x] unfolding owned_def a by (fastforce simp: chunk_sector_def)
  from this [of 5] this [of 6] this [of 7]
  have "\<forall>s\<in>{40, 48, 56}. owned (demo_store x) s" by (simp add: chunk_sector_def)
  then show ?thesis unfolding world_def a using demo_counted by (auto simp: chunk_sector_def demo_in_use)
qed

section \<open>The tree\<close>

lemma demo_abs: "leaf_abs demo_leaf = [(5, [\<lparr>ex_share = 3, ex_chunk = 100\<rparr>]), (9, [\<lparr>ex_share = 1, ex_chunk = 101\<rparr>])]"
  by code_simp

lemma demo_init: "wf_leaf 4096 (init_leaf no_leaf 4096)" "leaf_abs (init_leaf no_leaf 4096) = []" "leaf_base_chunk (init_leaf no_leaf 4096) = 0"
  by code_simp+

lemma demo_tree_in: "tree_in 4096 0 (2 ^ 32) (demo_store x) (Branch 40 [(0, Tip 48), (1000, Tip 56)])"
  using demo_world [of x] demo_leaf_wf(1) demo_init
  by (simp add: tree_in_def rep_Suc rep_0 leaf_ok_def demo_abs demo_leaf_def [THEN arg_cong, of leaf_base_chunk])

lemma demo_tree:
  "btree_ok (demo_store x)" "tree_of (demo_store x) = Branch 40 [(0, Tip 48), (1000, Tip 56)]"
  "btree_map (demo_store x) = [(5, [\<lparr>ex_share = 3, ex_chunk = 100\<rparr>]), (9, [\<lparr>ex_share = 1, ex_chunk = 101\<rparr>])]"
  using demo_tree_in [of x] tree_in_tree_of [OF demo_tree_in] btree_okI [of "demo_store x"]
  by (simp_all add: tree_map_def demo_abs demo_init)

lemma demo_shares: "btree_shares (demo_store x)"
proof -
  have "wf_shares 3 [\<lparr>ex_share = 3, ex_chunk = 100\<rparr>]" "wf_shares 3 [\<lparr>ex_share = 1, ex_chunk = 101\<rparr>]" by code_simp+
  then show ?thesis by (simp add: btree_shares_def demo_tree)
qed

lemma demo_store_ok: "store_ok (demo_store x)"
  by (simp add: store_ok_def demo_tree demo_shares demo_in_use exceptions_of_def)

lemma demo_combined: "combined (demo_store x)"
  by (simp add: combined_def)

lemma demo_pending: "pending_ok (demo_store x)"
  by (simp add: pending_ok_def demo_store_def)

lemma demo_settled: "settled (demo_store x) = (\<lambda>_. [0])" "org_data (demo_store x) = (\<lambda>c. [of_nat c])"
  by (simp_all add: settled_eq demo_store_def fun_eq_iff)

end
