(* ===== verification/Reply.thy ===== *)
theory Reply
  imports Prelude
begin

text \<open>
  Read and write requests and the replies the server builds up range by range.
  A reply is a sequence of chunk numbers (8 bytes) and counts (2 bytes) in a
  message buffer of limited size; running out of space ends the process.
\<close>

record rw_request =
  rw_id :: nat
  rw_ranges :: "(chunk_t \<times> nat) list"

text \<open>The chunks of a request in the order in which the two nested loops visit them.\<close>

definition request_chunks :: "rw_request \<Rightarrow> chunk_t list" where
  "request_chunks body =
     concat (map (\<lambda>(chunk, n). map (\<lambda>j. (chunk + j) mod 2 ^ 64) [0..<n]) (rw_ranges body))"

datatype item = Chunk nat | Count nat

fun item_bytes :: "item \<Rightarrow> nat" where
  "item_bytes (Chunk _) = 8"
| "item_bytes (Count _) = 2"

definition maxbody :: nat where [simp]: "maxbody = 500"

text \<open>Size of the message header and of the fixed part of the body.\<close>

definition sizeof_head :: nat where [simp]: "sizeof_head = 8"
definition sizeof_rw_request :: nat where [simp]: "sizeof_rw_request = 6"

text \<open>\<open>items\<close> is \<open>None\<close> as long as no buffer has been allocated; \<open>countp\<close> is the index of an item.\<close>

record addto =
  add_count :: nat
  firstchunk :: chunk_t
  nextchunk :: chunk_t
  items :: "item list option"
  countp :: nat

definition addto_init :: addto where
  "addto_init = \<lparr>add_count = 0, firstchunk = 0, nextchunk = 2 ^ 64 - 1, items = None, countp = 0\<rparr>"

definition items_bytes :: "item list \<Rightarrow> nat" where
  "items_bytes its = sum_list (map item_bytes its)"

definition addto_top :: "item list \<Rightarrow> nat" where
  "addto_top its = sizeof_head + sizeof_rw_request + items_bytes its"

definition response_full :: "item list \<Rightarrow> nat \<Rightarrow> bool" where
  "response_full its bytes \<longleftrightarrow> \<not> addto_top its < maxbody - bytes"

text \<open>Storing the length of the range that ends, a 16 bit number.\<close>

definition close_range :: "addto \<Rightarrow> item list \<Rightarrow> item list" where
  "close_range r its = its[countp r := Count (u64_sub (nextchunk r) (firstchunk r) mod 2 ^ 16)]"

definition addto_response :: "chunk_t \<Rightarrow> addto \<Rightarrow> addto run" where
  "addto_response chunk r =
     (if chunk \<noteq> nextchunk r then
        (let (its, n) = (case items r of
               Some its \<Rightarrow> (close_range r its, add_count r)
             | None \<Rightarrow> ([], add_count r + 1))
         in if response_full its 16 then Inl Exit
            else Inr \<lparr>add_count = n, firstchunk = chunk, nextchunk = (chunk + 1) mod 2 ^ 64,
                      items = Some (its @ [Chunk chunk, Count 0]), countp = length its + 1\<rparr>)
      else Inr (r\<lparr>nextchunk := (chunk + 1) mod 2 ^ 64\<rparr>))"

text \<open>An exception is stored behind the range it belongs to.\<close>

definition addto_exception :: "chunk_t \<Rightarrow> addto \<Rightarrow> addto run" where
  "addto_exception exc r =
     (case items r of
        None \<Rightarrow> Inl Exit
      | Some its \<Rightarrow> if response_full its 8 then Inl Exit else Inr (r\<lparr>items := Some (its @ [Chunk exc])\<rparr>))"

definition add_mapped :: "chunk_t \<Rightarrow> chunk_t \<Rightarrow> addto \<Rightarrow> addto run" where
  "add_mapped chunk exc r =
     (case addto_response chunk r of Inl f \<Rightarrow> Inl f | Inr r \<Rightarrow> addto_exception exc r)"

record rw_reply =
  rp_id :: nat
  rp_count :: nat
  rp_length :: nat
  rp_items :: "item list"

text \<open>\<open>finish_reply_\<close>; nothing is sent if there is no range.\<close>

definition finish_reply :: "nat \<Rightarrow> addto \<Rightarrow> rw_reply option" where
  "finish_reply i r =
     (case items r of
        None \<Rightarrow> None
      | Some its \<Rightarrow>
          (let its = close_range r its
           in Some \<lparr>rp_id = i, rp_count = add_count r, rp_length = addto_top its - sizeof_head, rp_items = its\<rparr>))"

end
