(* ===== verification/Setup.thy ===== *)
theory Setup
  imports Btree Snapshots
begin

text \<open>
  Initialisation of a snapshot store, resizing of the devices, and the start
  and end of the service.  The sizes of the devices are arguments; \<open>same\<close>
  tells that metadata and snapshot data are on the same device.
\<close>

section \<open>Derived parameters\<close>

definition SB_BUSY :: u64 where "SB_BUSY = 2"

text \<open>\<open>offsetof (struct enode, entries)\<close>, \<open>sizeof (struct index_entry)\<close> and \<open>sizeof (struct commit_block)\<close>.\<close>

definition offsetof_entries :: nat where [simp]: "offsetof_entries = 8"
definition sizeof_index_entry :: nat where [simp]: "sizeof_index_entry = 16"
definition sizeof_commit_block :: nat where [simp]: "sizeof_commit_block = 52"

definition setup_sb :: "'a superblock_scheme \<Rightarrow> 'a superblock_scheme run" where
  "setup_sb sb =
     (let bs_bits = allocsize_bits (img_metadata (image sb));
          cs_bits = allocsize_bits (img_snapdata (image sb))
      in if combined sb \<and> bs_bits \<noteq> cs_bits then Inl Exit
         else Inr (sb\<lparr>metadata := \<lparr>as_asi = Meta, allocsize = 2 ^ bs_bits,
                                   chunk_sectors_bits = u32_sub bs_bits SECTOR_BITS,
                                   alloc_per_node = (2 ^ bs_bits - offsetof_entries) div sizeof_index_entry\<rparr>,
                      snapdata := (snapdata sb)\<lparr>as_asi := (if combined sb then Meta else Snap),
                                   allocsize := 2 ^ cs_bits,
                                   chunk_sectors_bits := u32_sub cs_bits SECTOR_BITS\<rparr>,
                      copybuf_size := 32 * 2 ^ cs_bits,
                      max_commit_blocks := (2 ^ bs_bits - sizeof_commit_block) div 8\<rparr>))"

definition save_sb_check :: "'a superblock_scheme \<Rightarrow> 'a superblock_scheme" where
  "save_sb_check sb = save_sb (commit_deferred_allocs sb)"

section \<open>Resizing\<close>

text \<open>The partial byte at the end of a bitmap: the bits of chunk \<open>n\<close> and above are cleared or set.\<close>

definition clear_tail :: "nat \<Rightarrow> chunk_t \<Rightarrow> u8 list \<Rightarrow> u8 list" where
  "clear_tail blocksize n bytes =
     (let i = (n div 8) mod blocksize
      in if n mod 8 \<noteq> 0 then bytes[i := bytes ! i AND NOT (push_bit (n mod 8) 0xff)] else bytes)"

definition set_tail :: "nat \<Rightarrow> chunk_t \<Rightarrow> u8 list \<Rightarrow> u8 list" where
  "set_tail blocksize n bytes =
     (let i = (n div 8) mod blocksize
      in if n mod 8 \<noteq> 0 then bytes[i := bytes ! i OR push_bit (n mod 8) 0xff] else bytes)"

definition meta_base :: "'a superblock_scheme \<Rightarrow> nat" where
  "meta_base sb = bitmap_base (img_metadata (image sb)) * 2 ^ SECTOR_BITS"

definition shrink_bitmap :: "space \<Rightarrow> chunk_t \<Rightarrow> nat \<Rightarrow> 'a superblock_scheme \<Rightarrow> bool \<times> 'a superblock_scheme" where
  "shrink_bitmap sp newchunks newbitmaps sb =
     (let oldchunks = chunks (asi sb sp);
          oldbitmaps = bitmap_blocks (asi sb sp);
          oldbase = bitmap_base (asi sb sp) * 2 ^ SECTOR_BITS;
          oldchunks_meta = oldbase div 2 ^ allocsize_bits (asi sb Meta)
      in case change_bits newchunks (oldchunks - newchunks) oldbase 0 sb of
           (r, sb) \<Rightarrow>
             if r \<noteq> 0 then (False, sb)
             else if newbitmaps < oldbitmaps then
               (let sb = snd (change_bits (oldchunks_meta + newbitmaps) (oldbitmaps - newbitmaps) (meta_base sb) 2 sb)
                in (True, upd_asi (\<lambda>a. a\<lparr>bitmap_blocks := newbitmaps\<rparr>) sp sb))
             else (True, sb))"

text \<open>
  The old bitmap blocks are copied from the device to the device, past the
  buffers; then the new blocks are prepared in buffers.
\<close>

definition copy_bitmaps :: "nat \<Rightarrow> sector_t \<Rightarrow> sector_t \<Rightarrow> 'a superblock_scheme \<Rightarrow> 'a superblock_scheme" where
  "copy_bitmaps n from to sb =
     fold (\<lambda>i sb. (let off = i * chunk_sectors (metadata sb)
                   in sb\<lparr>disk := (disk sb)(to + off := disk sb (from + off))\<rparr>)) [0..<n] sb"

definition clear_bitmaps :: "nat \<Rightarrow> nat \<Rightarrow> sector_t \<Rightarrow> chunk_t \<Rightarrow> 'a superblock_scheme \<Rightarrow> 'a superblock_scheme" where
  "clear_bitmaps old new base newchunks sb =
     fold (\<lambda>i sb. (let blocksize = allocsize (metadata sb);
                       bytes = replicate blocksize 0;
                       bytes = (if i = new - 1 then set_tail blocksize newchunks bytes else bytes)
                   in put_dirty (base + i * chunk_sectors (metadata sb)) (BitmapB bytes) sb)) [old..<new] sb"

definition move_bitmap :: "space \<Rightarrow> chunk_t \<Rightarrow> nat \<Rightarrow> chunk_t \<Rightarrow> 'a superblock_scheme \<Rightarrow> 'a superblock_scheme" where
  "move_bitmap sp newchunks newbitmaps new_basechunk sb =
     (let oldchunks = chunks (asi sb sp);
          oldbitmaps = bitmap_blocks (asi sb sp);
          oldsector = bitmap_base (asi sb sp);
          newbase = new_basechunk * 2 ^ allocsize_bits (asi sb Meta);
          newsector = newbase div 2 ^ SECTOR_BITS;
          blocksize = allocsize (metadata sb);
          oldchunks_meta = (oldsector * 2 ^ SECTOR_BITS) div 2 ^ allocsize_bits (asi sb Meta);
          sb = copy_bitmaps oldbitmaps oldsector newsector sb;
          last = newsector + (oldbitmaps - 1) * 2 ^ chunk_sectors_bits (metadata sb);
          sb = (if oldchunks mod 8 \<noteq> 0
                then put_dirty last (BitmapB (clear_tail blocksize oldchunks (buffer2bitmap (view sb last)))) sb else sb);
          sb = clear_bitmaps oldbitmaps newbitmaps newsector newchunks sb;
          sb = upd_asi (\<lambda>a. a\<lparr>bitmap_base := newsector, bitmap_blocks := newbitmaps\<rparr>) sp sb;
          sb = snd (change_bits oldchunks_meta oldbitmaps (meta_base sb) 2 sb)
      in snd (change_bits new_basechunk newbitmaps (meta_base sb) 1 sb))"

definition adjust_bitmap :: "space \<Rightarrow> chunk_t \<Rightarrow> chunk_t \<Rightarrow> nat \<Rightarrow> 'a superblock_scheme \<Rightarrow> bool \<times> 'a superblock_scheme" where
  "adjust_bitmap sp newchunks new_basechunk new_metachunks sb =
     (let oldchunks = chunks (asi sb sp);
          oldbitmaps = bitmap_blocks (asi sb sp);
          newbitmaps = calc_bitmap_blocks sb newchunks;
          blocksize = allocsize (metadata sb)
      in if newchunks \<le> oldchunks then shrink_bitmap sp newchunks newbitmaps sb
         else if oldbitmaps = newbitmaps then
           if oldchunks mod 8 \<noteq> 0 \<or> newchunks mod 8 \<noteq> 0 then
             (let last = bitmap_base (asi sb sp) + (oldbitmaps - 1) * 2 ^ chunk_sectors_bits (metadata sb);
                  bytes = clear_tail blocksize oldchunks (buffer2bitmap (view sb last))
              in (True, put_dirty last (BitmapB (set_tail blocksize newchunks bytes)) sb))
           else (True, sb)
         else if new_metachunks < newbitmaps then (False, sb)
         else (True, move_bitmap sp newchunks newbitmaps new_basechunk sb))"

definition set_img :: "space \<Rightarrow> (allocspace_img \<Rightarrow> allocspace_img) \<Rightarrow> 'a superblock_scheme \<Rightarrow> 'a superblock_scheme" where
  "set_img sp f sb = sb\<lparr>image := upd_img f sp (image sb)\<rparr>"

definition wrap64 :: "int \<Rightarrow> nat" where "wrap64 x = nat (x mod 2 ^ 64)"

text \<open>
  The metadata part yields the place and the number of the chunks that are left
  for the bitmap of the snapshot data.
\<close>

definition change_meta_size :: "nat \<Rightarrow> 'a superblock_scheme \<Rightarrow> ((chunk_t \<times> nat) option) \<times> 'a superblock_scheme" where
  "change_meta_size metasize sb =
     (let metachunks = metasize div 2 ^ allocsize_bits (img_metadata (image sb));
          old = img_metadata (image sb);
          account = (\<lambda>sb. set_img Meta (\<lambda>a. a\<lparr>freechunks := wrap64 (int (freechunks a) + int metachunks - int (chunks a)
                                + int (bitmap_blocks old) - int (bitmap_blocks a)),
                              chunks := metachunks\<rparr>) sb)
      in if metachunks \<noteq> 0 \<and> chunks old \<noteq> metachunks then
           if chunks old \<noteq> 0 then
             (let base = chunks old; new = u64_sub metachunks (chunks old)
              in case adjust_bitmap Meta metachunks base new sb of
                   (False, sb) \<Rightarrow> (None, sb)
                 | (True, sb) \<Rightarrow>
                     (let blocks = bitmap_blocks (asi sb Meta)
                      in (Some (base + blocks, u64_sub new blocks), account sb)))
           else (Some (0, 0), account sb)
         else (Some (0, 0), sb))"

definition change_snap_size :: "nat \<Rightarrow> chunk_t \<Rightarrow> nat \<Rightarrow> 'a superblock_scheme \<Rightarrow> bool \<times> 'a superblock_scheme" where
  "change_snap_size snapsize base new sb =
     (let snapchunks = snapsize div 2 ^ allocsize_bits (img_snapdata (image sb));
          old = img_snapdata (image sb);
          account = (\<lambda>sb. set_img Snap (\<lambda>a. a\<lparr>freechunks := wrap64 (int (freechunks a) + int snapchunks - int (chunks a)),
                                               chunks := snapchunks\<rparr>) sb)
      in if snapchunks \<noteq> 0 \<and> chunks old \<noteq> snapchunks then
           if chunks old \<noteq> 0 then
             (case adjust_bitmap Snap snapchunks base new sb of
                (False, sb) \<Rightarrow> (False, sb)
              | (True, sb) \<Rightarrow>
                  (let blocks = bitmap_blocks (img_snapdata (image sb));
                       sb = set_img Meta (\<lambda>a. a\<lparr>freechunks := wrap64 (int (freechunks a) + int (bitmap_blocks old) - int blocks)\<rparr>) sb
                   in (True, account sb)))
           else (True, account sb)
         else (True, sb))"

definition change_org_size :: "nat \<Rightarrow> 'a superblock_scheme \<Rightarrow> 'a superblock_scheme" where
  "change_org_size orgsize sb =
     (let csb = chunk_sectors_bits (snapdata sb);
          sectors = (orgsize div 2 ^ (SECTOR_BITS + csb)) * 2 ^ csb
      in if sectors \<noteq> 0 \<and> orgsectors (image sb) \<noteq> sectors
         then sb\<lparr>image := (image sb)\<lparr>orgsectors := sectors\<rparr>\<rparr> else sb)"

definition change_device_sizes :: "bool \<Rightarrow> nat \<Rightarrow> nat \<Rightarrow> nat \<Rightarrow> 'a superblock_scheme \<Rightarrow> bool \<times> 'a superblock_scheme" where
  "change_device_sizes same orgsize snapsize metasize sb =
     (case change_meta_size metasize sb of
        (None, sb) \<Rightarrow> (False, sb)
      | (Some (base, new), sb) \<Rightarrow>
          (case (if same then (True, sb) else change_snap_size snapsize base new sb) of
             (False, sb) \<Rightarrow> (False, sb)
           | (True, sb) \<Rightarrow> (True, change_org_size orgsize sb)))"

text \<open>The sizes the devices report; \<open>None\<close> is an error.\<close>

record dev_sizes =
  ds_meta :: "nat option"
  ds_snap :: "nat option"
  ds_org :: "nat option"

definition sb_get_device_sizes :: "bool \<Rightarrow> dev_sizes \<Rightarrow> 'a superblock_scheme \<Rightarrow> errno option \<times> 'a superblock_scheme" where
  "sb_get_device_sizes same ds sb =
     (case (ds_meta ds, if same then ds_meta ds else ds_snap ds, ds_org ds) of
        (Some metasize, Some snapsize, Some orgsize) \<Rightarrow>
          (None, snd (change_device_sizes same orgsize snapsize metasize sb))
      | _ \<Rightarrow> (Some EIO, sb))"

section \<open>Initialising a store\<close>

text \<open>Every block of the new journal is an empty commit, numbered from zero.\<close>

definition init_journal_block :: "'a superblock_scheme \<Rightarrow> nat \<Rightarrow> commit_block" where
  "init_journal_block sb i =
     (let commit = \<lparr>cb_checksum = 0, cb_sequence = word_of_nat i, cb_snapfree = snapfree sb, cb_metafree = metafree sb,
                    cb_alloc = \<lparr>range_chunk = 0, range_barrier = False, range_count = 0\<rparr>, cb_sector = []\<rparr>
      in commit\<lparr>cb_checksum := - checksum_block sb (commit_words commit)\<rparr>)"

definition init_journal :: "'a superblock_scheme \<Rightarrow> 'a superblock_scheme" where
  "init_journal sb =
     fold (\<lambda>i sb. (let (next, sb) = next_journal_block sb
                   in sb\<lparr>disk := (disk sb)(journal_sector sb i := CommitB (init_journal_block sb next))\<rparr>))
       [0..<journal_size (image sb)] sb"

text \<open>A tree of one leaf below one node.\<close>

definition init_tree :: "'a superblock_scheme \<Rightarrow> 'a superblock_scheme run" where
  "init_tree sb =
     (case new_leaf sb of
        (leafbuf, sb) \<Rightarrow>
          (case new_node sb of
             (rootbuf, sb) \<Rightarrow>
               (case (leafbuf, rootbuf) of
                  (Some leafbuf, Some rootbuf) \<Rightarrow>
                    (let root = \<lparr>node_entries = [\<lparr>ie_key = 0, ie_sector = leafbuf\<rparr>]\<rparr>;
                         sb = put_dirty rootbuf (NodeB root) sb;
                         sb = sb\<lparr>image := (image sb)\<lparr>etree_root := rootbuf\<rparr>\<rparr>
                     in Inr (set_buffer_dirty leafbuf sb))
                | _ \<Rightarrow> Inl Exit)))"

definition empty_img :: "nat \<Rightarrow> allocspace_img" where
  "empty_img bits = \<lparr>bitmap_base = 0, chunks = 0, freechunks = 0, last_alloc = 0, bitmap_blocks = 0, allocsize_bits = bits\<rparr>"

definition empty_super :: "nat \<Rightarrow> nat \<Rightarrow> disksuper" where
  "empty_super bs_bits cs_bits =
     \<lparr>magic = SB_MAGIC, create_time = 0, etree_root = 0, orgoffset = 0, orgsectors = 0, sb_flags = 0, deleting = 0,
      snaplist = [], etree_levels = 0, journal_base = 0, journal_next = 0, journal_size = 0, sequence = 0,
      img_metadata = empty_img bs_bits, img_snapdata = empty_img cs_bits\<rparr>"

text \<open>A new \<open>struct superblock\<close>: all fields are zero.\<close>

definition new_sb :: "(sector_t \<Rightarrow> block) \<Rightarrow> disksuper \<Rightarrow> superblock" where
  "new_sb dev super =
     (let space = \<lparr>as_asi = Meta, allocsize = 0, chunk_sectors_bits = 0, alloc_per_node = 0\<rparr>
      in \<lparr>disk = dev, cache = (\<lambda>_. None), dirty_buffers = [], journaled_buffers = [], bad_sector = (\<lambda>_. False),
          image = empty_super 0 0, super_disk = super, metadata = space, snapdata = space, snapmask = 0, runflags = 0,
          copybuf_size = 0, max_commit_blocks = 0, sb_usecount = (\<lambda>_. 0), deferred_alloc = [],
          defer_range = \<lparr>range_chunk = 0, range_barrier = False, range_count = 0\<rparr>\<rparr>)"

definition init_super :: "nat \<Rightarrow> bool \<Rightarrow> dev_sizes \<Rightarrow> nat \<Rightarrow> nat \<Rightarrow> nat \<Rightarrow> 'a superblock_scheme \<Rightarrow>
    (errno option \<times> 'a superblock_scheme) run" where
  "init_super now same ds js_bytes bs_bits cs_bits sb =
     (let sb = sb\<lparr>image := empty_super bs_bits cs_bits\<rparr>
      in case sb_get_device_sizes same ds sb of
           (Some e, sb) \<Rightarrow> Inr (Some e, sb)
         | (None, sb) \<Rightarrow>
             (case setup_sb sb of
                Inl f \<Rightarrow> Inl f
              | Inr sb \<Rightarrow>
                  (let chunk_size = 2 ^ allocsize_bits (asi sb Snap);
                       js_chunks = (js_bytes + chunk_size - 1) div chunk_size;
                       sb = sb\<lparr>image := (image sb)\<lparr>etree_levels := 1, create_time := now, orgoffset := 0,
                              journal_size := js_chunks, journal_next := 0, sequence := word_of_nat js_chunks\<rparr>\<rparr>;
                       sb = set_sb_dirty (init_allocation sb)
                   in case init_tree sb of Inl f \<Rightarrow> Inl f | Inr sb \<Rightarrow> Inr (None, sb))))"

definition init_snapstore :: "nat \<Rightarrow> bool \<Rightarrow> dev_sizes \<Rightarrow> nat \<Rightarrow> nat \<Rightarrow> nat \<Rightarrow> 'a superblock_scheme \<Rightarrow>
    (errno option \<times> 'a superblock_scheme) run" where
  "init_snapstore now same ds bs_bits cs_bits js_bytes sb =
     (case init_super now same ds js_bytes bs_bits cs_bits sb of
        Inr (None, sb) \<Rightarrow> Inr (None, save_sb_check (init_journal sb))
      | r \<Rightarrow> r)"

section \<open>Start and end of the service\<close>

definition activate :: "bool \<Rightarrow> dev_sizes \<Rightarrow> 'a superblock_scheme \<Rightarrow> 'a superblock_scheme run" where
  "activate same ds sb =
     (let sb = sb\<lparr>image := super_disk sb\<rparr>
      in if \<not> valid_sb sb then Inl Exit
         else
           (case setup_sb sb of
              Inl f \<Rightarrow> Inl f
            | Inr sb \<Rightarrow>
                (let sb = sb\<lparr>snapmask := calc_snapmask sb\<rparr>
                 in case sb_get_device_sizes same ds sb of
                      (Some _, sb) \<Rightarrow> Inl Exit
                    | (None, sb) \<Rightarrow>
                        if sb_flags (image sb) AND SB_BUSY \<noteq> 0 then
                          (case replay_journal sb of Inl _ \<Rightarrow> Inl Exit | Inr sb \<Rightarrow> Inr sb)
                        else
                          Inr (save_sb (set_sb_dirty
                                 (sb\<lparr>image := (image sb)\<lparr>sb_flags := sb_flags (image sb) OR SB_BUSY\<rparr>\<rparr>))))))"

definition cleanup :: "'a superblock_scheme \<Rightarrow> 'a superblock_scheme" where
  "cleanup sb =
     (let sb = commit_deferred_allocs sb;
          sb = sb\<lparr>image := (image sb)\<lparr>sb_flags := sb_flags (image sb) AND NOT SB_BUSY\<rparr>\<rparr>
      in save_sb (set_sb_dirty sb))"

end
