(* ===== verification/Server.thy ===== *)
theory Server
  imports Unique Locks Reply Setup Changelist
begin

text \<open>
  The message handlers of the server (\<open>incoming\<close>) and its main loop.  A
  message is a value of \<open>query\<close> with the length from its header.  The
  number of ranges of a read or write request is that of the ranges in the
  message; clients send such messages.
\<close>

section \<open>Messages and state\<close>

datatype query =
    QUERY_WRITE rw_request
  | QUERY_SNAPSHOT_READ rw_request
  | FINISH_SNAPSHOT_READ rw_request
  | IDENTIFY (identify_id: nat) (identify_snap: nat) (identify_off: nat) (identify_len: nat)
  | UPLOAD_LOCK
  | FINISH_UPLOAD_LOCK
  | CREATE_SNAPSHOT nat
  | DELETE_SNAPSHOT nat
  | INITIALIZE_SNAPSTORE
  | DUMP_TREE_RANGE nat nat
  | START_SERVER
  | LIST_SNAPSHOTS
  | PRIORITY nat int
  | USECOUNT nat int
  | STREAM_CHANGELIST nat nat
  | STATUS nat
  | REQUEST_SNAPSHOT_STATE nat
  | REQUEST_SNAPSHOT_SECTORS nat
  | RESIZE nat nat nat
  | SHUTDOWN_SERVER
  | PROTOCOL_ERROR
  | Unknown_code nat

datatype csnap_error = ERROR_SIZE_MISMATCH | ERROR_OFFSET_MISMATCH | ERROR_INVALID_SNAPSHOT | ERROR_USECOUNT
  | ERROR_UNKNOWN_MESSAGE

text \<open>The error number in a \<open>GENERIC_ERROR\<close>; one of the senders gets the sign wrong.\<close>

datatype error_number = Csnap csnap_error | Errno errno | Negated errno

datatype rw_code = SNAPSHOT_WRITE_OK | SNAPSHOT_WRITE_ERROR | SNAPSHOT_READ_OK | SNAPSHOT_READ_ERROR
  | SNAPSHOT_READ_ORIGIN_OK

record snapinfo =
  si_snap :: nat
  si_prio :: int
  si_usecnt :: u16
  si_ctime :: nat

text \<open>A row of the status reply; of a squashed snapshot there is no sharing.\<close>

record snapshot_details =
  sd_info :: snapinfo
  sd_sharing :: "nat list option"

record status_reply =
  st_ctime :: nat
  st_meta :: "nat \<times> nat \<times> nat"
  st_store :: "nat \<times> nat \<times> nat"
  st_details :: "snapshot_details list"

datatype message =
    ORIGIN_WRITE_OK rw_request
  | ORIGIN_WRITE_ERROR rw_request
  | Rw rw_code rw_reply
  | IDENTIFY_OK nat
  | IDENTIFY_ERROR csnap_error
  | GENERIC_ERROR error_number
  | CREATE_SNAPSHOT_OK
  | DELETE_SNAPSHOT_OK
  | SNAPSHOT_LIST "snapinfo list"
  | PRIORITY_OK int
  | USECOUNT_OK u16
  | STREAM_CHANGELIST_OK nat nat "chunk_t list"
  | STATUS_OK status_reply
  | SNAPSHOT_STATE nat nat
  | SNAPSHOT_SECTORS nat nat
  | RESIZED nat nat nat
  | PROTOCOL_ERROR_MSG csnap_error nat

text \<open>The tag \<open>- 1\<close> is the origin.\<close>

record client =
  cl_id :: nat
  cl_sock :: nat
  cl_snaptag :: int
  cl_snapclient :: bool

record server = copier +
  same_dev :: bool
  locks :: "message lockstate"
  clients :: "client list"

definition origin_tag :: nat where "origin_tag = 2 ^ 32 - 1"

definition upd_locks :: "(message lockstate \<Rightarrow> message lockstate) \<Rightarrow> 'a server_scheme \<Rightarrow> 'a server_scheme" where
  "upd_locks f sv = sv\<lparr>locks := f (locks sv)\<rparr>"

definition send :: "nat \<Rightarrow> message \<Rightarrow> 'a server_scheme \<Rightarrow> 'a server_scheme" where
  "send sock msg sv = upd_locks (reply sock msg) sv"

definition outerror :: "nat \<Rightarrow> error_number \<Rightarrow> 'a server_scheme \<Rightarrow> 'a server_scheme" where
  "outerror sock err sv = send sock (GENERIC_ERROR err) sv"

text \<open>The tag of a client is converted to 32 bits; a missing snapshot ends the process.\<close>

definition client_snap :: "client \<Rightarrow> 'a server_scheme \<Rightarrow> nat run" where
  "client_snap client sv =
     (case find_snap sv (nat (cl_snaptag client mod 2 ^ 32)) of None \<Rightarrow> Inl Exit | Some i \<Rightarrow> Inr i)"

section \<open>Writes\<close>

fun origin_write_chunks :: "nat \<Rightarrow> chunk_t list \<Rightarrow> bool \<Rightarrow> nat option \<Rightarrow> 'a server_scheme \<Rightarrow>
    (bool \<times> nat option \<times> 'a server_scheme) run" where
  "origin_write_chunks rounds [] ok pending sv = Inr (ok, pending, sv)"
| "origin_write_chunks rounds (chunk # cs) ok pending sv =
     (case make_unique rounds chunk (-1) sv of
        Inl f \<Rightarrow> Inl f
      | Inr (None, sv) \<Rightarrow> origin_write_chunks rounds cs False pending sv
      | Inr (Some _, sv) \<Rightarrow>
          (let (pending, ls) = waitfor_chunk chunk pending (locks sv)
           in origin_write_chunks rounds cs ok pending (sv\<lparr>locks := ls\<rparr>)))"

definition settle_writes :: "'a server_scheme \<Rightarrow> 'a server_scheme" where
  "settle_writes sv = commit_transaction False (finish_copyout sv)"

definition origin_write :: "nat \<Rightarrow> rw_request \<Rightarrow> client \<Rightarrow> 'a server_scheme \<Rightarrow> 'a server_scheme run" where
  "origin_write rounds body client sv =
     (case origin_write_chunks rounds (request_chunks body) True None sv of
        Inl f \<Rightarrow> Inl f
      | Inr (ok, pending, sv) \<Rightarrow>
          (let sv = settle_writes sv;
               message = (if ok then ORIGIN_WRITE_OK body else ORIGIN_WRITE_ERROR body)
           in Inr (case pending of
                     None \<Rightarrow> send (cl_sock client) message sv
                   | Some p \<Rightarrow>
                       upd_locks (upd_pending p (\<lambda>d. d\<lparr>pd_reply := Some (cl_sock client, message),
                                                        holdcount := holdcount d - 1\<rparr>)) sv)))"

text \<open>
  The code keeps a pointer into the snapshot list while it makes chunks unique,
  which may remove entries of the list.  The pointer is the index \<open>i\<close>; behind
  the end of the list the entry it pointed to before is still there.
\<close>

definition snap_at :: "'a superblock_scheme \<Rightarrow> nat \<Rightarrow> snapshot \<Rightarrow> snapshot" where
  "snap_at sb i old = (if i < length (snaplist (image sb)) then snaplist (image sb) ! i else old)"

fun snapshot_write_chunks :: "nat \<Rightarrow> nat \<Rightarrow> snapshot \<Rightarrow> chunk_t list \<Rightarrow> bool \<Rightarrow> addto \<Rightarrow> 'a server_scheme \<Rightarrow>
    (bool \<times> addto \<times> 'a server_scheme) run" where
  "snapshot_write_chunks rounds i snap [] ok r sv = Inr (ok, r, sv)"
| "snapshot_write_chunks rounds i snap (chunk # cs) ok r sv =
     (let snap = snap_at sv i snap
      in case (if is_squashed snap then Inr (None, sv) else make_unique rounds chunk (int (snap_bit snap)) sv) of
           Inl f \<Rightarrow> Inl f
         | Inr (exc, sv) \<Rightarrow>
             (case add_mapped chunk (case exc of None \<Rightarrow> 2 ^ 64 - 1 | Some e \<Rightarrow> e) r of
                Inl f \<Rightarrow> Inl f
              | Inr r \<Rightarrow> snapshot_write_chunks rounds i snap cs (ok \<and> exc \<noteq> None) r sv))"

definition send_rw :: "client \<Rightarrow> rw_code \<Rightarrow> nat \<Rightarrow> addto \<Rightarrow> 'a server_scheme \<Rightarrow> 'a server_scheme" where
  "send_rw client code i r sv =
     (case finish_reply i r of None \<Rightarrow> sv | Some rp \<Rightarrow> send (cl_sock client) (Rw code rp) sv)"

definition snapshot_write :: "nat \<Rightarrow> rw_request \<Rightarrow> client \<Rightarrow> 'a server_scheme \<Rightarrow> 'a server_scheme run" where
  "snapshot_write rounds body client sv =
     (case client_snap client sv of
        Inl f \<Rightarrow> Inl f
      | Inr i \<Rightarrow>
          (case snapshot_write_chunks rounds i (snaplist (image sv) ! i) (request_chunks body) True addto_init sv of
             Inl f \<Rightarrow> Inl f
           | Inr (ok, r, sv) \<Rightarrow>
               Inr (send_rw client (if ok then SNAPSHOT_WRITE_OK else SNAPSHOT_WRITE_ERROR) (rw_id body) r
                      (settle_writes sv))))"

section \<open>Reads\<close>

fun squashed_read_chunks :: "chunk_t list \<Rightarrow> addto \<Rightarrow> addto run" where
  "squashed_read_chunks [] r = Inr r"
| "squashed_read_chunks (chunk # cs) r =
     (case add_mapped chunk 0 r of Inl f \<Rightarrow> Inl f | Inr r \<Rightarrow> squashed_read_chunks cs r)"

text \<open>Chunks with an exception go to one reply, the others to another one and are locked.\<close>

fun snapshot_read_chunks :: "nat \<Rightarrow> client \<Rightarrow> chunk_t list \<Rightarrow> addto \<Rightarrow> addto \<Rightarrow> 'a server_scheme \<Rightarrow>
    (addto \<times> addto \<times> 'a server_scheme) run" where
  "snapshot_read_chunks snapbit client [] snap org sv = Inr (snap, org, sv)"
| "snapshot_read_chunks snapbit client (chunk # cs) snap org sv =
     (let exc = snd (test_unique sv chunk (int snapbit) 0)
      in if exc \<noteq> 0 then
           (case add_mapped chunk exc snap of
              Inl f \<Rightarrow> Inl f
            | Inr snap \<Rightarrow> snapshot_read_chunks snapbit client cs snap org sv)
         else
           (case addto_response chunk org of
              Inl f \<Rightarrow> Inl f
            | Inr org \<Rightarrow>
                snapshot_read_chunks snapbit client cs snap org
                  (upd_locks (readlock_chunk chunk (cl_sock client)) sv)))"

definition snapshot_read :: "rw_request \<Rightarrow> client \<Rightarrow> 'a server_scheme \<Rightarrow> 'a server_scheme run" where
  "snapshot_read body client sv =
     (case client_snap client sv of
        Inl f \<Rightarrow> Inl f
      | Inr i \<Rightarrow>
          (let snapshot = snaplist (image sv) ! i
           in if is_squashed snapshot then
                (case squashed_read_chunks (request_chunks body) addto_init of
                   Inl f \<Rightarrow> Inl f
                 | Inr r \<Rightarrow> Inr (send_rw client SNAPSHOT_READ_ERROR (rw_id body) r sv))
              else
                (case snapshot_read_chunks (snap_bit snapshot) client (request_chunks body) addto_init addto_init sv of
                   Inl f \<Rightarrow> Inl f
                 | Inr (snap, org, sv) \<Rightarrow>
                     Inr (send_rw client SNAPSHOT_READ_OK (rw_id body) snap
                            (send_rw client SNAPSHOT_READ_ORIGIN_OK (rw_id body) org sv)))))"

definition finish_snapshot_read :: "rw_request \<Rightarrow> client \<Rightarrow> 'a server_scheme \<Rightarrow> 'a server_scheme" where
  "finish_snapshot_read body client sv =
     upd_locks (fold (\<lambda>chunk ls. snd (release_chunk chunk (cl_sock client) ls)) (request_chunks body)) sv"

section \<open>Clients and snapshots\<close>

definition identify_size :: "nat \<Rightarrow> nat \<Rightarrow> nat \<Rightarrow> client \<Rightarrow> 'a server_scheme \<Rightarrow> 'a server_scheme" where
  "identify_size off len sectors client sv =
     (if len \<noteq> sectors then send (cl_sock client) (IDENTIFY_ERROR ERROR_SIZE_MISMATCH) sv
      else if off \<noteq> orgoffset (image sv) then send (cl_sock client) (IDENTIFY_ERROR ERROR_OFFSET_MISMATCH) sv
      else send (cl_sock client) (IDENTIFY_OK (allocsize_bits (asi sv Snap))) sv)"

definition identify :: "nat \<Rightarrow> nat \<Rightarrow> nat \<Rightarrow> nat \<Rightarrow> client \<Rightarrow> 'a server_scheme \<Rightarrow> client \<times> 'a server_scheme" where
  "identify i tag off len client sv =
     (let client = client\<lparr>cl_id := i, cl_snaptag := (if tag = origin_tag then -1 else int tag)\<rparr>
      in if tag \<noteq> origin_tag then
           (case find_snap sv tag of
              None \<Rightarrow> (client, send (cl_sock client) (IDENTIFY_ERROR ERROR_INVALID_SNAPSHOT) sv)
            | Some k \<Rightarrow>
                (let snapshot = snaplist (image sv) ! k
                 in if is_squashed snapshot
                    then (client, send (cl_sock client) (IDENTIFY_ERROR ERROR_INVALID_SNAPSHOT) sv)
                    else if (unat (usecount sv snapshot) + 1) div 2 ^ 16 \<noteq> 0
                    then (client, send (cl_sock client) (IDENTIFY_ERROR ERROR_USECOUNT) sv)
                    else
                      (let b = snap_bit snapshot;
                           sv = sv\<lparr>sb_usecount := (sb_usecount sv)(b := sb_usecount sv b + 1)\<rparr>
                       in (client\<lparr>cl_snapclient := True\<rparr>, identify_size off len (snap_sectors snapshot) client sv))))
         else (client, identify_size off len (orgsectors (image sv)) client sv))"

definition create_handler :: "nat \<Rightarrow> nat \<Rightarrow> nat \<Rightarrow> client \<Rightarrow> 'a server_scheme \<Rightarrow> 'a server_scheme run" where
  "create_handler rounds now tag client sv =
     (case create_snapshot rounds now tag sv of
        Inl f \<Rightarrow> Inl f
      | Inr (Inl e, sv) \<Rightarrow> Inr (outerror (cl_sock client) (Errno e) sv)
      | Inr (Inr _, sv) \<Rightarrow> Inr (send (cl_sock client) CREATE_SNAPSHOT_OK (save_sb_check sv)))"

definition delete_handler :: "nat \<Rightarrow> nat \<Rightarrow> client \<Rightarrow> 'a server_scheme \<Rightarrow> 'a server_scheme run" where
  "delete_handler rounds tag client sv =
     (case find_snap sv tag of
        None \<Rightarrow> Inr (outerror (cl_sock client) (Errno EINVAL) sv)
      | Some i \<Rightarrow>
          if usecount sv (snaplist (image sv) ! i) \<noteq> 0 then Inr (outerror (cl_sock client) (Errno EINVAL) sv)
          else
            (case delete_snap rounds i sv of
               Inl f \<Rightarrow> Inl f
             | Inr (Some e, sv) \<Rightarrow> Inr (outerror (cl_sock client) (Errno e) sv)
             | Inr (None, sv) \<Rightarrow> Inr (send (cl_sock client) DELETE_SNAPSHOT_OK (save_sb_check sv))))"

definition snap_info :: "'a superblock_scheme \<Rightarrow> snapshot \<Rightarrow> snapinfo" where
  "snap_info sb s = \<lparr>si_snap = snap_tag s, si_prio = snap_prio s, si_usecnt = usecount sb s, si_ctime = snap_ctime s\<rparr>"

definition list_handler :: "client \<Rightarrow> 'a server_scheme \<Rightarrow> 'a server_scheme" where
  "list_handler client sv =
     send (cl_sock client) (SNAPSHOT_LIST (map (snap_info sv) (snaplist (image sv)))) sv"

definition upd_snap :: "nat \<Rightarrow> (snapshot \<Rightarrow> snapshot) \<Rightarrow> 'a superblock_scheme \<Rightarrow> 'a superblock_scheme" where
  "upd_snap i f sb = sb\<lparr>image := (image sb)\<lparr>snaplist := (snaplist (image sb))[i := f (snaplist (image sb) ! i)]\<rparr>\<rparr>"

definition priority_handler :: "nat \<Rightarrow> int \<Rightarrow> client \<Rightarrow> 'a server_scheme \<Rightarrow> 'a server_scheme" where
  "priority_handler tag prio client sv =
     (if tag = origin_tag then outerror (cl_sock client) (Csnap ERROR_INVALID_SNAPSHOT) sv
      else
        (case find_snap sv tag of
           None \<Rightarrow> outerror (cl_sock client) (Csnap ERROR_INVALID_SNAPSHOT) sv
         | Some i \<Rightarrow> send (cl_sock client) (PRIORITY_OK prio) (upd_snap i (\<lambda>s. s\<lparr>snap_prio := prio\<rparr>) sv)))"

definition usecount_handler :: "nat \<Rightarrow> int \<Rightarrow> client \<Rightarrow> 'a server_scheme \<Rightarrow> 'a server_scheme" where
  "usecount_handler tag dev client sv =
     (if tag = origin_tag then outerror (cl_sock client) (Csnap ERROR_INVALID_SNAPSHOT) sv
      else
        (case find_snap sv tag of
           None \<Rightarrow> outerror (cl_sock client) (Csnap ERROR_INVALID_SNAPSHOT) sv
         | Some i \<Rightarrow>
             (let snapshot = snaplist (image sv) ! i
              in if dev \<ge> 0 \<and> (uint (usecount sv snapshot) + dev) div 2 ^ 16 \<noteq> 0
                 then outerror (cl_sock client) (Csnap ERROR_USECOUNT) sv
                 else if dev < 0 \<and> (uint (snap_usecount snapshot) + dev) div 2 ^ 16 \<noteq> 0
                 then outerror (cl_sock client) (Csnap ERROR_USECOUNT) sv
                 else
                   (let sv = upd_snap i (\<lambda>s. s\<lparr>snap_usecount := snap_usecount s + word_of_int dev\<rparr>) sv
                    in send (cl_sock client) (USECOUNT_OK (usecount sv (snaplist (image sv) ! i))) sv))))"

section \<open>Enquiries\<close>

text \<open>A shift by 64 places (a squashed snapshot) is undefined in C; here its result is zero.\<close>

definition changelist_handler :: "nat \<Rightarrow> nat \<Rightarrow> nat \<Rightarrow> client \<Rightarrow> 'a server_scheme \<Rightarrow> 'a server_scheme run" where
  "changelist_handler rounds tag1 tag2 client sv =
     (let eek = Inr (outerror (cl_sock client) (Negated EINVAL) sv);
          bits = allocsize_bits (asi sv Snap)
      in case (if tag1 = origin_tag then Some (NOT 0)
               else map_option (\<lambda>i. push_bit (snap_bit (snaplist (image sv) ! i)) 1) (find_snap sv tag1)) of
           None \<Rightarrow> eek
         | Some mask1 \<Rightarrow>
             (case find_snap sv tag2 of
                None \<Rightarrow> eek
              | Some k \<Rightarrow>
                  (let mask2 = push_bit (snap_bit (snaplist (image sv) ! k)) 1
                   in case traverse_tree_range rounds sv 0 (gen_changelist_leaf sv mask1 mask2)
                             (init_change_list bits tag1 tag2) of
                        Inl f \<Rightarrow> Inl f
                      | Inr (Some e, _) \<Rightarrow> Inr (outerror (cl_sock client) (Errno e) sv)
                      | Inr (None, cl) \<Rightarrow>
                          Inr (send (cl_sock client) (STREAM_CHANGELIST_OK (cl_count cl) bits (cl_chunks cl)) sv))))"

definition status_row :: "'a superblock_scheme \<Rightarrow> (nat \<Rightarrow> nat) \<Rightarrow> snapshot \<Rightarrow> snapshot_details" where
  "status_row sb table s =
     \<lparr>sd_info = snap_info sb s,
      sd_sharing = (if is_squashed s then None
                    else Some (map (\<lambda>col. table (MAX_SNAPSHOTS * snap_bit s + col)) [0..<length (snaplist (image sb))]))\<rparr>"

definition space_status :: "allocspace_img \<Rightarrow> nat \<times> nat \<times> nat" where
  "space_status a = (allocsize_bits a, chunks a, freechunks a)"

text \<open>A failed traversal is ignored: the table is then incomplete.\<close>

definition get_status :: "nat \<Rightarrow> client \<Rightarrow> 'a server_scheme \<Rightarrow> 'a server_scheme run" where
  "get_status rounds client sv =
     (case traverse_tree_range rounds sv 0 calc_sharing (Inr (\<lambda>_. 0)) of
        Inl f \<Rightarrow> Inl f
      | Inr (_, Inl f) \<Rightarrow> Inl f
      | Inr (_, Inr table) \<Rightarrow>
          Inr (selfcheck_freespace
             (send (cl_sock client)
                (STATUS_OK \<lparr>st_ctime = create_time (image sv),
                            st_meta = space_status (img_metadata (image sv)),
                            st_store = space_status (img_snapdata (image sv)),
                            st_details = map (status_row sv table) (snaplist (image sv))\<rparr>) sv)))"

definition state_handler :: "nat \<Rightarrow> nat \<Rightarrow> client \<Rightarrow> 'a server_scheme \<Rightarrow> 'a server_scheme" where
  "state_handler len tag client sv =
     (if len \<noteq> 4 then outerror (cl_sock client) (Errno EINVAL) sv
      else
        (let state = (case find_snap sv tag of
               None \<Rightarrow> 1 | Some i \<Rightarrow> if is_squashed (snaplist (image sv) ! i) then 2 else 0)
         in send (cl_sock client) (SNAPSHOT_STATE tag state) sv))"

definition sectors_handler :: "nat \<Rightarrow> client \<Rightarrow> 'a server_scheme \<Rightarrow> 'a server_scheme" where
  "sectors_handler tag client sv =
     (let count = (if tag = origin_tag then orgsectors (image sv)
                   else (case find_snap sv tag of
                           None \<Rightarrow> 0
                         | Some i \<Rightarrow> (let s = snaplist (image sv) ! i in if is_squashed s then 0 else snap_sectors s)))
      in if count = 0 then outerror (cl_sock client) (Errno EINVAL) sv
         else send (cl_sock client) (SNAPSHOT_SECTORS tag count) sv)"

definition resize_handler :: "nat \<Rightarrow> nat \<Rightarrow> nat \<Rightarrow> client \<Rightarrow> 'a server_scheme \<Rightarrow> 'a server_scheme" where
  "resize_handler orgsize snapsize metasize client sv =
     (if same_dev sv \<and> snapsize \<noteq> 0 \<and> metasize \<noteq> 0 \<and> snapsize \<noteq> metasize
      then outerror (cl_sock client) (Errno EINVAL) sv
      else
        (let metasize = (if same_dev sv \<and> metasize = 0 then snapsize else metasize);
             sv = check_freespace (snd (change_device_sizes (same_dev sv) orgsize snapsize metasize sv));
             img = image sv;
             metasize = chunks (img_metadata img) * 2 ^ allocsize_bits (img_metadata img);
             snapsize = (if same_dev sv then metasize
                         else chunks (img_snapdata img) * 2 ^ allocsize_bits (img_snapdata img))
         in send (cl_sock client) (RESIZED (orgsectors img * 2 ^ SECTOR_BITS) snapsize metasize) sv))"

definition start_handler :: "dev_sizes \<Rightarrow> 'a server_scheme \<Rightarrow> 'a server_scheme run" where
  "start_handler ds sv =
     (case activate (same_dev sv) ds sv of
        Inl f \<Rightarrow> Inl f
      | Inr sv \<Rightarrow> Inr (upd_locks (\<lambda>ls. ls\<lparr>snaplock_hash_bits := 8, snaplocks := (\<lambda>_. [])\<rparr>) sv))"

section \<open>Dispatch\<close>

text \<open>
  The result of \<open>incoming\<close>: the returned value (\<open>- 1\<close> drops the client,
  \<open>- 2\<close> ends the service), the client and the state.
\<close>

definition returning :: "client \<Rightarrow> 'a server_scheme run \<Rightarrow> (int \<times> client \<times> 'a server_scheme) run" where
  "returning client r = (case r of Inl f \<Rightarrow> Inl f | Inr sv \<Rightarrow> Inr (0, client, sv))"

fun handle :: "nat \<Rightarrow> nat \<Rightarrow> dev_sizes \<Rightarrow> nat \<Rightarrow> query \<Rightarrow> client \<Rightarrow> 'a server_scheme \<Rightarrow>
    (int \<times> client \<times> 'a server_scheme) run" where
  "handle rounds now ds len (QUERY_WRITE body) client sv =
     (if len < sizeof_rw_request then Inr (-1, client, sv)
      else returning client (if cl_snaptag client = -1 then origin_write rounds body client sv
                      else snapshot_write rounds body client sv))"
| "handle rounds now ds len (QUERY_SNAPSHOT_READ body) client sv =
     (if len < sizeof_rw_request then Inr (-1, client, sv) else returning client (snapshot_read body client sv))"
| "handle rounds now ds len (FINISH_SNAPSHOT_READ body) client sv =
     (if len < sizeof_rw_request then Inr (-1, client, sv)
      else Inr (0, client, finish_snapshot_read body client sv))"
| "handle rounds now ds len (IDENTIFY i tag off vlen) client sv =
     (case identify i tag off vlen client sv of (client, sv) \<Rightarrow> Inr (0, client, sv))"
| "handle rounds now ds len UPLOAD_LOCK client sv = Inr (0, client, sv)"
| "handle rounds now ds len FINISH_UPLOAD_LOCK client sv = Inr (0, client, sv)"
| "handle rounds now ds len (CREATE_SNAPSHOT tag) client sv = returning client (create_handler rounds now tag client sv)"
| "handle rounds now ds len (DELETE_SNAPSHOT tag) client sv = returning client (delete_handler rounds tag client sv)"
| "handle rounds now ds len INITIALIZE_SNAPSTORE client sv = Inr (0, client, sv)"
| "handle rounds now ds len (DUMP_TREE_RANGE _ _) client sv = Inr (0, client, sv)"
| "handle rounds now ds len START_SERVER client sv = returning client (start_handler ds sv)"
| "handle rounds now ds len LIST_SNAPSHOTS client sv = Inr (0, client, list_handler client sv)"
| "handle rounds now ds len (PRIORITY tag prio) client sv = Inr (0, client, priority_handler tag prio client sv)"
| "handle rounds now ds len (USECOUNT tag dev) client sv = Inr (0, client, usecount_handler tag dev client sv)"
| "handle rounds now ds len (STREAM_CHANGELIST tag1 tag2) client sv =
     returning client (changelist_handler rounds tag1 tag2 client sv)"
| "handle rounds now ds len (STATUS _) client sv =
     (if len \<noteq> 4 then Inr (-1, client, sv) else returning client (get_status rounds client sv))"
| "handle rounds now ds len (REQUEST_SNAPSHOT_STATE tag) client sv = Inr (0, client, state_handler len tag client sv)"
| "handle rounds now ds len (REQUEST_SNAPSHOT_SECTORS tag) client sv = Inr (0, client, sectors_handler tag client sv)"
| "handle rounds now ds len (RESIZE orgsize snapsize metasize) client sv =
     Inr (0, client, resize_handler orgsize snapsize metasize client sv)"
| "handle rounds now ds len SHUTDOWN_SERVER client sv = Inr (-2, client, sv)"
| "handle rounds now ds len PROTOCOL_ERROR client sv = Inr (0, client, sv)"
| "handle rounds now ds len (Unknown_code code) client sv =
     Inr (0, client, send (cl_sock client) (PROTOCOL_ERROR_MSG ERROR_UNKNOWN_MESSAGE code) sv)"

text \<open>A message is its length and its contents; \<open>None\<close> is a broken connection.\<close>

definition incoming :: "nat \<Rightarrow> nat \<Rightarrow> dev_sizes \<Rightarrow> (nat \<times> query) option \<Rightarrow> client \<Rightarrow> 'a server_scheme \<Rightarrow>
    (int \<times> client \<times> 'a server_scheme) run" where
  "incoming rounds now ds msg client sv =
     (case msg of
        None \<Rightarrow> Inr (-1, client, sv)
      | Some (len, q) \<Rightarrow>
          if len > maxbody then Inr (-1, client, sv) else handle rounds now ds len q client sv)"

section \<open>The main loop\<close>

definition maxclients :: nat where [simp]: "maxclients = 100"

definition new_client :: "nat \<Rightarrow> 'a server_scheme \<Rightarrow> 'a server_scheme run" where
  "new_client sock sv =
     (if length (clients sv) < maxclients
      then Inr (sv\<lparr>clients := clients sv @ [\<lparr>cl_id = 0, cl_sock = sock, cl_snaptag = 0, cl_snapclient = False\<rparr>]\<rparr>)
      else Inl Exit)"

text \<open>The last client takes the place of the one that goes.\<close>

definition remove_client :: "nat \<Rightarrow> client list \<Rightarrow> client list" where
  "remove_client i cs = (let n = length cs - 1 in take n (cs[i := cs ! n]))"

definition drop_client :: "nat \<Rightarrow> client \<Rightarrow> 'a server_scheme \<Rightarrow> 'a server_scheme run" where
  "drop_client i client sv =
     (let gone = (\<lambda>sv. sv\<lparr>clients := remove_client i (clients sv)\<rparr>)
      in if cl_snapclient client then
           (case client_snap client sv of
              Inl f \<Rightarrow> Inl f
            | Inr k \<Rightarrow>
                (let snapshot = snaplist (image sv) ! k; b = snap_bit snapshot
                 in if is_squashed snapshot then Inr (gone (upd_locks (free_client_locks (cl_sock client)) sv))
                    else if sb_usecount sv b = 0 then Inl Exit
                    else
                      (let sv = sv\<lparr>sb_usecount := (sb_usecount sv)(b := sb_usecount sv b - 1)\<rparr>
                       in Inr (gone (upd_locks (free_client_locks (cl_sock client)) sv)))))
         else Inr (gone sv))"

text \<open>A message (or the end of the connection) from client \<open>i\<close>; the flag tells that the service ends.\<close>

definition client_event :: "nat \<Rightarrow> nat \<Rightarrow> dev_sizes \<Rightarrow> nat \<Rightarrow> (nat \<times> query) option \<Rightarrow> 'a server_scheme \<Rightarrow>
    (bool \<times> 'a server_scheme) run" where
  "client_event rounds now ds i msg sv =
     (case incoming rounds now ds msg (clients sv ! i) sv of
        Inl f \<Rightarrow> Inl f
      | Inr (result, client, sv) \<Rightarrow>
          if result = -1 then (case drop_client i client sv of Inl f \<Rightarrow> Inl f | Inr sv \<Rightarrow> Inr (False, sv))
          else if result = -2 then Inr (True, cleanup sv)
          else Inr (False, sv\<lparr>clients := (clients sv)[i := client]\<rparr>))"

end
