(* ===== verification/Tree_Correct.thy ===== *)
theory Tree_Correct
  imports Tree_Demo Server
begin

text \<open>
  The properties of the exception tree and of the write path over it, each with
  an instance on the store of theory Tree_Demo.
\<close>

section \<open>Search and insertion\<close>

text \<open>
  C4: a search in a well-formed tree succeeds for every chunk number of the
  directory, and the leaf it returns decides the question for the whole tree:
  for every snapshot, the lookup in that leaf is the lookup in the contents of
  all leaves together.  The path has an entry for each level.
\<close>

theorem probe_correct:
  assumes "btree_ok sb" "chunk < 2 ^ 32"
  shows "\<exists>s path. probe sb chunk = Some (s, path) \<and> length path = etree_levels (image sb) \<and>
    s \<in> set (leaf_list (tree_of sb)) \<and> wf_leaf (allocsize (metadata sb)) (leaf_at sb s) \<and>
    (\<forall>b. leaf_lookup (leaf_at sb s) chunk b = aleaf_lookup (btree_map sb) chunk b)"
proof -
  obtain s lo hi ctx leaf where p: "probe sb chunk = Some (s, rev (path_of ctx))" "tree_of sb = plug (Tip s) ctx"
    "view sb s = LeafB leaf" "leaf_ok (allocsize (metadata sb)) lo hi leaf" "lo \<le> chunk" "chunk < hi" "length ctx = etree_levels (image sb)"
    "btree_map sb = tree_map (view sb) (ctx_left ctx) @ leaf_abs leaf @ tree_map (view sb) (ctx_right ctx)"
    "keys_in 0 lo (tree_map (view sb) (ctx_left ctx))" "keys_in hi (2 ^ 32) (tree_map (view sb) (ctx_right ctx))"
    by (rule probe_leaf [OF assms])
  have l: "wf_leaf (allocsize (metadata sb)) leaf" "leaf_target leaf chunk = chunk"
    using p(4) leaf_target_base [OF _ assms(2)] by (simp_all add: leaf_ok_def)
  have "leaf_lookup leaf chunk b = aleaf_lookup (btree_map sb) chunk b" for b
    unfolding leaf_lookup_def aleaf_lookup_def aleaf_get_def l(2) p(8) leaf_of_tree [OF p(9,10,5,6)] ..
  moreover have "s \<in> set (leaf_list (tree_of sb))" by (simp add: p(2) leaf_list_plug)
  moreover have "length (rev (path_of ctx)) = etree_levels (image sb)" by (simp add: path_of_def p(7))
  ultimately show ?thesis using p(1,3) l(1) by (intro exI [of _ s] exI [of _ "rev (path_of ctx)"]) simp
qed

theorem probe_correct_witness:
  "btree_ok (demo_store ()) \<and> (9 :: nat) < 2 ^ 32 \<and>
   (\<exists>s path. probe (demo_store ()) 9 = Some (s, path) \<and> length path = 1 \<and> s \<in> {48, 56} \<and>
      leaf_lookup (leaf_at (demo_store ()) s) 9 0 = Some 101 \<and> leaf_lookup (leaf_at (demo_store ()) s) 9 1 = None)"
proof -
  have "aleaf_lookup (btree_map (demo_store ())) 9 0 = Some 101" "aleaf_lookup (btree_map (demo_store ())) 9 1 = None"
    unfolding demo_tree by code_simp+
  then show ?thesis using probe_correct [of "demo_store ()" 9] by (force simp: demo_tree)
qed

text \<open>
  C3: insertion into the tree does what it means for the contents of the tree.
  Given a free metadata chunk per level and two more, \<open>add_exception_to_tree\<close>
  succeeds, also when the leaf has to be split, when index nodes are split up
  to the root and when the tree grows a level; the new tree is well formed and
  holds the exceptions of the old one with the new exception added as the
  specification says.  All chunks that were in use stay in use.
\<close>

theorem add_exception_to_tree_correct:
  assumes "btree_ok sb" "btree_shares sb" "chunk < 2 ^ 32" "1088 \<le> allocsize (metadata sb)" "2 \<le> alloc_per_node (metadata sb)"
    and "etree_levels (image sb) + 2 \<le> freechunks (asi sb Meta)" "probe sb chunk = Some (leafbuf, path)"
  shows "\<exists>sb'. add_exception_to_tree leafbuf chunk e snapbit path sb = (None, sb') \<and> btree_ok sb' \<and>
    btree_map sb' = add_exception_spec chunk e snapbit (snapmask sb) (btree_map sb) \<and>
    (\<forall>c<chunks (asi sb Meta). in_use sb Meta c \<longrightarrow> in_use sb' Meta c)"
  using add_exception_to_tree_ok [OF assms] unfolding later_def by blast

theorem add_exception_to_tree_correct_witness:
  "\<exists>leafbuf path sb'. probe (demo_store ()) 7 = Some (leafbuf, path) \<and>
     add_exception_to_tree leafbuf 7 150 (- 1) path (demo_store ()) = (None, sb') \<and> btree_ok sb' \<and>
     btree_map sb' = [(5, [\<lparr>ex_share = 3, ex_chunk = 100\<rparr>]), (7, [\<lparr>ex_share = 3, ex_chunk = 150\<rparr>]),
                      (9, [\<lparr>ex_share = 1, ex_chunk = 101\<rparr>])]"
proof -
  obtain leafbuf path where p: "probe (demo_store ()) 7 = Some (leafbuf, path)"
    by (rule probe_leaf [of "demo_store ()" 7]) (auto simp: demo_tree)
  have "add_exception_spec 7 150 (- 1) 3 (btree_map (demo_store ())) =
      [(5, [\<lparr>ex_share = 3, ex_chunk = 100\<rparr>]), (7, [\<lparr>ex_share = 3, ex_chunk = 150\<rparr>]), (9, [\<lparr>ex_share = 1, ex_chunk = 101\<rparr>])]"
    unfolding demo_tree by code_simp
  then show ?thesis using p add_exception_to_tree_correct [OF demo_tree(1) demo_shares _ _ _ _ p, of 150 "- 1"] by auto
qed

section \<open>Traversal\<close>

text \<open>
  C6: the walk over the leaves of a tree with its stack of half-visited nodes
  ends on every well-formed tree, after at most as many rounds as there are
  leaves, without an error; it has then called \<open>visit\<close> once for each leaf in
  the order of the tree, from the leaf on that may hold the chunk \<open>start\<close>; the
  leaves that it leaves out hold smaller chunks only.
\<close>

theorem traverse_tree_range_ends:
  assumes "btree_ok sb" "1 \<le> etree_levels (image sb)" "length (leaf_list (tree_of sb)) \<le> rounds" "start < 2 ^ 32"
  shows "\<exists>pre post. leaf_list (tree_of sb) = pre @ post \<and> keys_in 0 start (tree_map (view sb) pre) \<and>
    traverse_tree_range rounds sb start visit acc = Inr (None, fold visit (map (leaf_at sb) post) acc)"
  by (rule traverse_from [OF assms])

theorem traverse_tree_range_ends_witness:
  "btree_ok (demo_store ()) \<and> (0 :: nat) < 2 ^ 32 \<and>
   traverse_tree_range 2 (demo_store ()) 0 (\<lambda>leaf n. n + leaf_count leaf) 0 = Inr (None, 2)"
proof -
  obtain pre post where t: "leaf_list (tree_of (demo_store ())) = pre @ post" "keys_in 0 0 (tree_map (view (demo_store ())) pre)"
    "traverse_tree_range 2 (demo_store ()) 0 (\<lambda>leaf n. n + leaf_count leaf) 0 =
       Inr (None, fold (\<lambda>leaf n. n + leaf_count leaf) (map (leaf_at (demo_store ())) post) 0)"
    using traverse_tree_range_ends [of "demo_store ()" 2 0 "\<lambda>leaf n. n + leaf_count leaf" 0] by (auto simp: demo_tree)
  have "keys_in 0 0 al \<longleftrightarrow> al = []" for al by (cases al) (auto simp: keys_in_def)
  then have "pre = [] \<and> post = [48, 56]"
    using t(1,2) by (auto simp: demo_tree Cons_eq_append_conv tree_map_def demo_abs)
  with t(3) show ?thesis by (simp add: demo_tree) (simp add: demo_leaf_def init_leaf_def)
qed

section \<open>Writes\<close>

text \<open>
  C1: a write to the origin is invisible to every snapshot, for the server
  state as a whole.  \<open>make_unique\<close> finds the leaf, allocates a chunk, queues the
  copy of the old contents, possibly together with copies queued before, and
  enters the exception in the tree; when the copies are done the origin may be
  overwritten with anything, and each chunk of each snapshot reads as before.
  The store stays well formed, so that the next write is covered as well.
\<close>

theorem origin_write_transparent:
  assumes "store_ok sb" "combined sb" "MAX_NEW_METACHUNKS + 1 \<le> freechunks (asi sb Meta)" "etree_levels (image sb) \<le> 8"
    and "chunk < 2 ^ 32" "pending_ok sb"
  shows "\<exists>e sb'. make_unique rounds chunk (- 1) sb = Inr (Some e, sb') \<and> store_ok sb' \<and> snapmask sb' = snapmask sb \<and>
    (\<forall>b c d. bit (snapmask sb) b \<longrightarrow>
       snap_read (aleaf_lookup (btree_map sb')) ((org_data sb')(chunk := d)) (settled sb') b c =
       snap_read (aleaf_lookup (btree_map sb)) (org_data sb) (settled sb) b c)"
  by (rule make_unique_origin [OF assms])

theorem origin_write_transparent_witness:
  "store_ok (demo_store ()) \<and>
   (\<exists>e sb'. make_unique 0 7 (- 1) (demo_store ()) = Inr (Some e, sb') \<and> store_ok sb' \<and>
      snap_read (aleaf_lookup (btree_map sb')) ((org_data sb')(7 := [42])) (settled sb') 0 7 = [7])"
proof -
  have "aleaf_lookup (btree_map (demo_store ())) 7 0 = None" unfolding demo_tree by code_simp
  then have "snap_read (aleaf_lookup (btree_map (demo_store ()))) (org_data (demo_store ())) (settled (demo_store ())) 0 7 = [7]"
    by (simp add: snap_read_def demo_settled)
  moreover obtain e sb' where w: "make_unique 0 7 (- 1) (demo_store ()) = Inr (Some e, sb')" "store_ok sb'"
    and rd: "\<And>b c d. bit (3 :: u64) b \<Longrightarrow> snap_read (aleaf_lookup (btree_map sb')) ((org_data sb')(7 := d)) (settled sb') b c =
       snap_read (aleaf_lookup (btree_map (demo_store ()))) (org_data (demo_store ())) (settled (demo_store ())) b c"
    using origin_write_transparent [OF demo_store_ok [of "()"] demo_combined _ _ _ demo_pending, where chunk = 7 and rounds = 0]
    by auto
  ultimately show ?thesis
    using rd [of 0 "[42]" 7] demo_store_ok by (intro conjI exI [of _ e] exI [of _ sb'] w) simp_all
qed

text \<open>
  C2: a write to a snapshot reaches only that chunk of that snapshot.
  \<open>make_unique\<close> returns a chunk of the store that holds what the snapshot read
  there before; whatever is then written into it, the snapshot reads it back,
  and every other chunk of this snapshot and every chunk of the other snapshots
  reads as before.
\<close>

theorem snapshot_write_isolated:
  assumes "store_ok sb" "combined sb" "MAX_NEW_METACHUNKS + 1 \<le> freechunks (asi sb Meta)" "etree_levels (image sb) \<le> 8"
    and "chunk < 2 ^ 32" "pending_ok sb" "bit (snapmask sb) n"
  shows "\<exists>e sb'. make_unique rounds chunk (int n) sb = Inr (Some e, sb') \<and> store_ok sb' \<and> snapmask sb' = snapmask sb \<and>
    aleaf_lookup (btree_map sb') chunk n = Some e \<and>
    settled sb' e = snap_read (aleaf_lookup (btree_map sb)) (org_data sb) (settled sb) n chunk \<and>
    (\<forall>b c d. snap_read (aleaf_lookup (btree_map sb')) (org_data sb') ((settled sb')(e := d)) b c =
       (if b = n \<and> c = chunk then d else snap_read (aleaf_lookup (btree_map sb)) (org_data sb) (settled sb) b c))"
  by (rule make_unique_snapshot [OF assms])

theorem snapshot_write_isolated_witness:
  "store_ok (demo_store ()) \<and> bit (snapmask (demo_store ())) 1 \<and>
   (\<exists>e sb'. make_unique 0 9 (int 1) (demo_store ()) = Inr (Some e, sb') \<and> settled sb' e = [9] \<and>
      snap_read (aleaf_lookup (btree_map sb')) (org_data sb') ((settled sb')(e := [42])) 1 9 = [42] \<and>
      snap_read (aleaf_lookup (btree_map sb')) (org_data sb') ((settled sb')(e := [42])) 0 9 = [0])"
proof -
  have n: "bit (snapmask (demo_store ())) 1" by simp
  have "aleaf_lookup (btree_map (demo_store ())) 9 0 = Some 101" "aleaf_lookup (btree_map (demo_store ())) 9 1 = None"
    unfolding demo_tree by code_simp+
  then have r: "snap_read (aleaf_lookup (btree_map (demo_store ()))) (org_data (demo_store ())) (settled (demo_store ())) 0 9 = [0]"
    "snap_read (aleaf_lookup (btree_map (demo_store ()))) (org_data (demo_store ())) (settled (demo_store ())) 1 9 = [9]"
    by (simp_all add: snap_read_def demo_settled)
  obtain e sb' where w: "make_unique 0 9 (int 1) (demo_store ()) = Inr (Some e, sb')"
    "settled sb' e = snap_read (aleaf_lookup (btree_map (demo_store ()))) (org_data (demo_store ())) (settled (demo_store ())) 1 9"
    and rd: "\<And>b c d. snap_read (aleaf_lookup (btree_map sb')) (org_data sb') ((settled sb')(e := d)) b c =
         (if b = 1 \<and> c = 9 then d else
          snap_read (aleaf_lookup (btree_map (demo_store ()))) (org_data (demo_store ())) (settled (demo_store ())) b c)"
    using snapshot_write_isolated [OF demo_store_ok demo_combined _ _ _ demo_pending n, where chunk = 9 and rounds = 0] by auto
  from w(2) r(2) rd [of "[42]" 1 9] rd [of "[42]" 0 9] r(1) demo_store_ok n
  show ?thesis by (intro conjI exI [of _ e] exI [of _ sb'] w(1)) simp_all
qed



section \<open>Change lists\<close>

text \<open>
  C5: the answer to a request for the changes between two snapshots is exact.
  The list of chunks that the server sends is sorted, without duplicates, and
  holds exactly the chunks within the target snapshot for which the two
  snapshots have different exceptions; the count sent with it is its length.
  Copying these chunks thus turns one snapshot into the other.
\<close>

theorem changelist_handler_exact:
  assumes "store_ok sv" "1 \<le> etree_levels (image sv)" "length (leaf_list (tree_of sv)) \<le> rounds"
    and "tag1 \<noteq> origin_tag" "find_snap sv tag1 = Some i" "find_snap sv tag2 = Some k"
    and "b1 = snap_bit (snaplist (image sv) ! i)" "b2 = snap_bit (snaplist (image sv) ! k)" "b1 < 64" "b2 < 64"
  shows "\<exists>cs. changelist_handler rounds tag1 tag2 client sv =
      Inr (send (cl_sock client) (STREAM_CHANGELIST_OK (length cs) (allocsize_bits (asi sv Snap)) cs) sv) \<and>
    sorted_wrt (<) cs \<and>
    set cs = {c. aleaf_lookup (btree_map sv) c b1 \<noteq> aleaf_lookup (btree_map sv) c b2 \<and>
      c * 2 ^ chunk_sectors_bits (snapdata sv) < target_sectors sv tag2}"
proof -
  obtain cl where "traverse_tree_range rounds sv 0 (gen_changelist_leaf sv (push_bit b1 1) (push_bit b2 1))
      (init_change_list (allocsize_bits (asi sv Snap)) tag1 tag2) = Inr (None, cl)"
    "cl_full cl" "sorted_wrt (<) (cl_chunks cl)" "set (cl_chunks cl) = {c. aleaf_lookup (btree_map sv) c b1 \<noteq> aleaf_lookup (btree_map sv) c b2 \<and>
      c * 2 ^ chunk_sectors_bits (snapdata sv) < target_sectors sv tag2}"
    using changelist_tree [OF assms(1-3,9,10)] by blast
  then show ?thesis using assms(4-8) by (intro exI [of _ "cl_chunks cl"]) (simp add: changelist_handler_def cl_full_def)
qed

definition demo_server :: server where
  "demo_server = demo_store \<lparr>same_dev = False,
     locks = \<lparr>snaplock_hash_bits = 8, snaplocks = (\<lambda>_. []), pendings = (\<lambda>_. None), next_pending = 0, sent = []\<rparr>, clients = []\<rparr>"

theorem changelist_handler_exact_witness:
  "store_ok demo_server \<and> find_snap demo_server 7 = Some 0 \<and> find_snap demo_server 8 = Some 1 \<and>
   changelist_handler 2 7 8 \<lparr>cl_id = 0, cl_sock = 4, cl_snaptag = - 1, cl_snapclient = True\<rparr> demo_server =
     Inr (send 4 (STREAM_CHANGELIST_OK 1 12 [9]) demo_server)"
proof -
  let ?client = "\<lparr>cl_id = 0, cl_sock = 4, cl_snaptag = - 1, cl_snapclient = True\<rparr>"
  have f: "find_snap demo_server 7 = Some 0" "find_snap demo_server 8 = Some 1"
    by (simp_all add: find_snap_def demo_server_def demo_snap_def upt_rec)
  have look: "aleaf_lookup (btree_map demo_server) c b =
      (if c = 5 \<and> b < 2 then Some 100 else if c = 9 \<and> b = 0 then Some 101 else None)" if "b < 2" for c b
    using that by (auto simp: demo_server_def demo_tree aleaf_lookup_def aleaf_get_def snap_exception_def less_2_cases_iff)
  obtain cs where cs: "changelist_handler 2 7 8 ?client demo_server =
      Inr (send (cl_sock ?client) (STREAM_CHANGELIST_OK (length cs) (allocsize_bits (asi demo_server Snap)) cs) demo_server)"
    "sorted_wrt (<) cs" "set cs = {c. aleaf_lookup (btree_map demo_server) c 0 \<noteq> aleaf_lookup (btree_map demo_server) c 1 \<and>
      c * 2 ^ chunk_sectors_bits (snapdata demo_server) < target_sectors demo_server 8}"
    using changelist_handler_exact [of demo_server 2 7 0 8 1 0 1 ?client] f
    by (auto simp: demo_server_def demo_store_ok demo_tree origin_tag_def demo_snap_def)
  have "target_sectors demo_server 8 = 8000" "chunk_sectors_bits (snapdata demo_server) = 3"
    by (simp_all add: demo_server_def target_sectors_def demo_snap_def)
  then have "set cs = {9}" unfolding cs(3) by (auto simp: look)
  with cs(2) have "cs = [9]" by (cases cs) (auto simp: subset_singleton_iff)
  with cs(1) f show ?thesis by (simp add: demo_server_def demo_store_ok)
qed

end
