(* ===== verification/Snap_Frame.thy ===== *)
theory Snap_Frame
  imports Unique
begin

text \<open>
  The operations on blocks, on the allocation maps, on the journal and on the
  tree leave the list of snapshots alone; only the deletion of a snapshot takes
  its bit out of the mask of active snapshots.
\<close>

definition snaps :: "'a superblock_scheme \<Rightarrow> snapshot list \<times> u64" where
  "snaps sb = (snaplist (image sb), snapmask sb)"

named_theorems snaps_simps

lemma fold_snaps: "(\<And>x s. snaps (f x s) = snaps s) \<Longrightarrow> snaps (fold f xs sb) = snaps sb"
  by (induction xs arbitrary: sb) simp_all

section \<open>Buffers and allocation\<close>

lemma snaps_store [snaps_simps]:
  "snaps (set_data a b sb) = snaps sb" "snaps (set_buffer_dirty a sb) = snaps sb" "snaps (add_buffer_journaled a sb) = snaps sb"
  "snaps (set_buffer_uptodate a sb) = snaps sb" "snaps (set_buffer_empty a sb) = snaps sb"
  "snaps (write_buffer_to a b' sb) = snaps sb" "snaps (write_buffer a sb) = snaps sb" "snaps (put_dirty a b sb) = snaps sb"
  "snaps (set_sb_dirty sb) = snaps sb" "snaps (save_sb sb) = snaps sb"
  by (simp_all add: snaps_def set_data_def set_buffer_dirty_def add_buffer_journaled_def set_buffer_uptodate_def
      set_buffer_empty_def write_buffer_to_def write_buffer_def put_dirty_def set_sb_dirty_def save_sb_def)

lemma snaps_upd_asi [snaps_simps]: "snaps (upd_asi f sp sb) = snaps sb"
  by (cases "as_asi (get_as sb sp)") (simp_all add: snaps_def upd_asi_def)

lemma snaps_change_bits_loop: "snaps (snd (change_bits_loop shift step flag limit chunk sector sb)) = snaps sb"
proof (induction shift step flag limit chunk sector sb rule: change_bits_loop.induct)
  case (1 shift step flag limit chunk sector sb)
  then show ?case
    by (subst change_bits_loop.simps) (auto simp: snaps_simps Let_def split: option.split)
qed

lemma snaps_alloc [snaps_simps]:
  "snaps (set_allocated chunk count sb) = snaps sb" "snaps (snd (free_chunk sp chunk sb)) = snaps sb"
  "snaps (free_block a sb) = snaps sb" "snaps (free_exception chunk sb) = snaps sb" "snaps (take_chunk sp a bytes chunk sb) = snaps sb"
  "snaps (check_freespace sb) = snaps sb"
proof -
  show "snaps (set_allocated chunk count sb) = snaps sb"
    by (simp add: set_allocated_def change_bits_def Let_def snaps_change_bits_loop)
  show f: "snaps (snd (free_chunk sp chunk sb)) = snaps sb" for sp chunk
    by (simp add: free_chunk_def Let_def snaps_simps split: option.split)
  show "snaps (free_block a sb) = snaps sb" "snaps (free_exception chunk sb) = snaps sb"
    by (simp_all add: free_block_def free_exception_def f)
  have "snaps (mark_chunk a bytes chunk sb) = snaps sb"
    by (simp add: mark_chunk_def Let_def snaps_simps) (simp add: snaps_def)
  then show "snaps (take_chunk sp a bytes chunk sb) = snaps sb" by (simp add: take_chunk_def snaps_simps)
  show "snaps (check_freespace sb) = snaps sb" by (simp add: check_freespace_def Let_def snaps_simps)
qed

lemma snaps_flush [snaps_simps]: "snaps (flush_deferred_allocs sb) = snaps sb"
proof -
  have "snaps (fold (\<lambda>r. set_allocated (range_chunk r) (range_count r)) (deferred_alloc sb) sb) = snaps sb"
    by (intro fold_snaps) (simp add: snaps_simps)
  then show ?thesis by (simp add: flush_deferred_allocs_def snaps_def)
qed

lemma snaps_alloc_scan: "snaps (snd (alloc_scan fuel sp blocknum offset len sb)) = snaps sb"
  by (induction fuel arbitrary: blocknum offset len) (auto simp: snaps_simps Let_def split: option.split)

lemma snaps_alloc_chunk [snaps_simps]: "snaps (snd (alloc_chunk sp sb)) = snaps sb"
proof -
  have r: "snaps (snd (alloc_chunk_from_range sp c n sb)) = snaps sb" for c n and sb :: "'a superblock_scheme"
    unfolding alloc_chunk_from_range_def Let_def by (rule snaps_alloc_scan)
  show ?thesis
    unfolding alloc_chunk_def Let_def
    using r [of "last_alloc (asi sb sp)" "u64_sub (chunks (asi sb sp)) (last_alloc (asi sb sp))" sb]
    by (auto simp: snaps_simps split: prod.split option.split) (metis r snd_conv)+
qed

section \<open>The journal\<close>

lemma snaps_journal_data: "snaps (journal_data b sb) = snaps sb"
  by (simp add: journal_data_def next_journal_block_def Let_def snaps_simps) (simp add: snaps_def)

lemma snaps_write_commit: "snaps (write_commit barrier sb) = snaps sb"
proof -
  have "snaps (fold journal_data (dirty_buffers sb) sb) = snaps sb" by (intro fold_snaps) (rule snaps_journal_data)
  then show ?thesis by (simp add: write_commit_def next_journal_block_def note_deferred_def Let_def snaps_def)
qed

lemma snaps_commit [snaps_simps]:
  "snaps (commit_transaction barrier sb) = snaps sb" "snaps (commit_deferred_allocs sb) = snaps sb"
  "snaps (dirty_buffer_count_check sb) = snaps sb"
proof -
  have j: "snaps (flush_journaled_buffers sb) = snaps sb" for sb :: "'a superblock_scheme"
    unfolding flush_journaled_buffers_def by (intro fold_snaps) (simp add: snaps_simps)
  have w: "snaps (fold write_buffer bs sb) = snaps sb" "snaps (fold add_buffer_journaled bs sb) = snaps sb"
    for bs and sb :: "'a superblock_scheme" by (intro fold_snaps; simp add: snaps_simps)+
  show c: "snaps (commit_transaction barrier sb) = snaps sb" for barrier and sb :: "'a superblock_scheme"
    by (simp add: commit_transaction_def selfcheck_freespace_def Let_def snaps_simps j w snaps_write_commit)
  show "snaps (commit_deferred_allocs sb) = snaps sb" by (simp add: commit_deferred_allocs_def Let_def c j snaps_simps)
  show "snaps (dirty_buffer_count_check sb) = snaps sb" by (simp add: dirty_buffer_count_check_def c)
qed

section \<open>Insertion\<close>

lemma snaps_new [snaps_simps]:
  "snaps (snd (new_block sb)) = snaps sb" "snaps (snd (new_leaf sb)) = snaps sb" "snaps (snd (new_node sb)) = snaps sb"
proof -
  show b: "snaps (snd (new_block sb)) = snaps sb"
    using snaps_alloc_chunk [of Meta sb] by (auto simp: new_block_def alloc_metablock_def split: prod.split option.split)
  then show "snaps (snd (new_leaf sb)) = snaps sb" "snaps (snd (new_node sb)) = snaps sb"
    by (auto simp: new_leaf_def new_node_def snaps_simps split: prod.split option.split)
qed

lemma snaps_insert_up: "snaps (snd (insert_up path child key sb)) = snaps sb"
proof (induction path child key sb rule: insert_up.induct)
  case (1 child key sb)
  obtain r sb1 where n: "new_node sb = (r, sb1)" by fastforce
  with snaps_new(3) [of sb] have "snaps sb1 = snaps sb" by simp
  moreover have "snaps (sb\<lparr>image := (image sb)\<lparr>etree_root := x, etree_levels := l\<rparr>\<rparr>) = snaps sb"
    for x l and sb :: "'a superblock_scheme" by (simp add: snaps_def)
  ultimately show ?case using n by (simp add: new_root_def Let_def snaps_simps split: option.split)
next
  case (2 sector pnext path child key sb)
  show ?case
  proof (cases "node_count (node_at sb sector) < alloc_per_node (metadata sb)")
    case True then show ?thesis by (simp add: snaps_simps)
  next
    case False
    obtain r sb1 where n: "new_node sb = (r, sb1)" by fastforce
    with snaps_new(3) [of sb] have "snaps sb1 = snaps sb" by simp
    then show ?thesis using False n 2 [OF refl False refl refl n [symmetric]]
      by (cases r) (simp_all add: Let_def snaps_simps)
  qed
qed

lemma snaps_add_exception_to_tree [snaps_simps]: "snaps (snd (add_exception_to_tree leafbuf c e i path sb)) = snaps sb"
proof (cases "add_exception_to_leaf (leaf_at sb leafbuf) c e i (snapmask sb)")
  case (Inl a)
  obtain r sb1 where n: "new_leaf sb = (r, sb1)" by fastforce
  with snaps_new(2) [of sb] have "snaps sb1 = snaps sb" by simp
  then show ?thesis
    by (simp add: add_exception_to_tree_def Inl n Let_def snaps_simps snaps_insert_up split: option.split sum.split prod.split)
qed (simp add: add_exception_to_tree_def snaps_simps)

section \<open>Deletion\<close>

lemma snaps_delete_leaf:
  assumes f: "\<And>c s. snaps (freex c s) = snaps s" and d: "\<And>s. snaps (dcheck s) = snaps s"
  shows "snaps (snd (snd (delete_snapshots_from_leaf freex dcheck m leaf sb))) = snaps sb"
proof -
  have step: "snaps (snd (snd (snd (delete_step freex dcheck m p st)))) = snaps (snd (snd (snd st)))" for p st
    by (cases st) (simp add: delete_step_def Let_def f d)
  have steps: "snaps (snd (snd (snd (fold (delete_step freex dcheck m) ps st)))) = snaps (snd (snd (snd st)))" for ps st
    by (induction ps arbitrary: st) (simp_all add: step)
  have entry: "snaps (snd (snd (snd (snd (delete_entry freex dcheck m leaf i st))))) = snaps (snd (snd (snd (snd st))))" for i st
    by (cases st) (simp add: delete_entry_def Let_def steps)
  have entries: "snaps (snd (snd (snd (snd (fold (delete_entry freex dcheck m leaf) is st))))) = snaps (snd (snd (snd (snd st))))" for "is" st
    by (induction "is" arbitrary: st) (simp_all add: entry)
  show ?thesis
    using entries [of "rev [0..<leaf_count leaf]" "(leaf_map leaf, leaf_data leaf, emap leaf (leaf_count leaf), 0, sb)"]
    by (auto simp: delete_snapshots_from_leaf_def delete_snapshots_from_leaf_aux_def Let_def split: prod.split)
qed

lemma snaps_clean_leaf [snaps_simps]: "snaps (clean_leaf m leafbuf sb) = snaps sb"
  using snaps_delete_leaf [of free_exception dirty_buffer_count_check m "leaf_at sb leafbuf" sb]
  by (auto simp: clean_leaf_def Let_def snaps_simps split: prod.split)

lemma snaps_walk [snaps_simps]:
  "snaps (snd (remove_index path level sb)) = snaps sb" "snaps (brelse_free a sb) = snaps sb"
  "snaps (snd (merge_leaf level w sb)) = snaps sb" "snaps (snd (merge_node level w sb)) = snaps sb"
proof -
  show r: "snaps (snd (remove_index path level sb)) = snaps sb" for path level and sb :: "'a superblock_scheme"
    by (auto simp: remove_index_def Let_def snaps_simps split: prod.split option.split)
  show b: "snaps (brelse_free a sb) = snaps sb" for a and sb :: "'a superblock_scheme" by (simp add: brelse_free_def snaps_simps)
  have r': "snaps sb' = snaps sb" if "remove_index path level sb = (path', sb')" for path level path' and sb sb' :: "'a superblock_scheme"
    using r [of path level sb] that by simp
  show "snaps (snd (merge_leaf level w sb)) = snaps sb"
    by (auto simp: merge_leaf_def Let_def snaps_simps b split: option.split prod.split dest!: r')
  show "snaps (snd (merge_node level w sb)) = snaps sb"
    by (auto simp: merge_node_def Let_def snaps_simps b split: option.split prod.split dest!: r')
qed

lemma snaps_pop_nodes: "pop_nodes level w sb = (l, w', sb') \<Longrightarrow> snaps sb' = snaps sb"
proof (induction level arbitrary: w sb)
  case 0 then show ?case using snaps_walk(4) [of 0 w sb] by simp
next
  case (Suc level)
  then show ?case using snaps_walk(4) [of "Suc level" w sb]
    by (auto simp: Let_def split: prod.splits if_splits)
qed

lemma snaps_drop_levels: "snaps (drop_levels hold sb) = snaps sb"
proof (induction hold sb rule: drop_levels.induct)
  case (1 root nxt hold sb)
  have "snaps (sb\<lparr>image := (image sb)\<lparr>etree_root := x\<rparr>\<rparr>) = snaps sb" "snaps (sb\<lparr>image := (image sb)\<lparr>etree_levels := n\<rparr>\<rparr>) = snaps sb"
    for x n and sb :: "'a superblock_scheme" by (simp_all add: snaps_def)
  with 1 show ?case by (simp add: Let_def snaps_simps)
qed simp_all

lemma snaps_finish_delete: "snaps (finish_delete m w sb) = (snaplist (image sb), snapmask sb AND NOT m)"
proof -
  let ?sb = "if dirty_buffers (drop_levels (map the (w_hold w)) sb) \<noteq> [] then commit_transaction False (drop_levels (map the (w_hold w)) sb)
    else drop_levels (map the (w_hold w)) sb"
  have "snaps ?sb = snaps sb" by (simp add: snaps_simps snaps_drop_levels)
  then have "snaplist (image ?sb) = snaplist (image sb)" "snapmask ?sb = snapmask sb" unfolding snaps_def prod.inject by simp_all
  then have "snaps (?sb\<lparr>snapmask := snapmask ?sb AND NOT m\<rparr>) = (snaplist (image sb), snapmask sb AND NOT m)"
    unfolding snaps_def by simp
  then show ?thesis unfolding finish_delete_def Let_def snaps_store .
qed

text \<open>A deletion that ends well removes the bits of the mask; otherwise nothing happens to the mask.\<close>

lemma snaps_delete_round:
  "delete_round m levels w sb = Inl (err, sb') \<Longrightarrow>
     snaps sb' = (snaplist (image sb), if err = None then snapmask sb AND NOT m else snapmask sb)"
  "delete_round m levels w sb = Inr (w', sb') \<Longrightarrow> snaps sb' = snaps sb"
proof -
  obtain w1 sb1 where m: "merge_leaf (levels - Suc 0) w (clean_leaf m (w_leaf w) sb) = (w1, sb1)" by fastforce
  then have s1: "snaps sb1 = snaps sb" using snaps_walk(3) [of "levels - Suc 0" w "clean_leaf m (w_leaf w) sb"] by (simp add: snaps_simps)
  have n: "snaps sb2 = snaps sb1" if "next_leaf level w sb1 = Inr (w2, sb2)" for level w w2 and sb1 sb2 :: "'a superblock_scheme"
    using that by (auto simp: next_leaf_def Let_def snaps_simps split: prod.splits option.splits)
  have p: "snaps sb2 = snaps sb1" if "pop_nodes (levels - Suc 0) w1 sb1 = (l, w2, sb2)" for l w2 sb2
    using snaps_pop_nodes [OF that] .
  have e: "snaps sb = (snaplist (image sb), snapmask sb)" by (simp add: snaps_def)
  show "delete_round m levels w sb = Inr (w', sb') \<Longrightarrow> snaps sb' = snaps sb"
    using s1 by (auto simp: delete_round_def m Let_def split: if_splits prod.splits option.splits sum.splits dest!: n p)
  show "snaps sb' = (snaplist (image sb), if err = None then snapmask sb AND NOT m else snapmask sb)"
    if "delete_round m levels w sb = Inl (err, sb')"
    using s1 that e
    by (auto simp: delete_round_def m Let_def snaps_simps snaps_finish_delete split: if_splits prod.splits option.splits sum.splits dest!: n p)
      (auto simp: snaps_def)
qed

lemma snaps_delete_loop:
  "delete_loop rounds m levels w sb = Inr (err, sb') \<Longrightarrow>
     snaps sb' = (snaplist (image sb), if err = None then snapmask sb AND NOT m else snapmask sb)"
proof (induction rounds arbitrary: w sb)
  case (Suc rounds)
  show ?case
  proof (cases "delete_round m levels w sb")
    case (Inl r)
    then show ?thesis using Suc.prems by (cases r) (auto dest: snaps_delete_round(1))
  next
    case (Inr r)
    then show ?thesis using Suc.prems Suc.IH by (cases r) (fastforce simp: snaps_def dest: snaps_delete_round(2))
  qed
qed simp

lemma snaps_delete_tree_range:
  assumes "delete_tree_range rounds m resume sb = Inr (err, sb')"
  shows "snaps sb' = (snaplist (image sb), if err = None then snapmask sb AND NOT m else snapmask sb)"
proof -
  have "snaplist (image (commit_transaction False sb)) = snaplist (image sb)" "snapmask (commit_transaction False sb) = snapmask sb"
    using snaps_commit(1) [of False sb] by (simp_all add: snaps_def)
  then show ?thesis using assms
    by (auto simp: delete_tree_range_def snaps_def split: option.splits prod.splits dest!: snaps_delete_loop)
qed

end
