(* ===== verification/Snap_Correct.thy ===== *)
theory Snap_Correct
  imports Snap_Frame Tree_Demo
begin

text \<open>
  The type invariant of the list of snapshots, over all sequences of the
  operations that change it.
\<close>

definition snaps_typed :: "snapshot list \<times> u64 \<Rightarrow> bool" where
  "snaps_typed = (\<lambda>(ss, m). length ss \<le> MAX_SNAPSHOTS \<and> distinct (map snap_tag ss) \<and> distinct (active_bits ss) \<and>
     (\<forall>s\<in>set ss. snap_bit s \<le> SNAPSHOT_SQUASHED) \<and> (\<forall>b\<in>set (active_bits ss). bit m b))"

text \<open>Commands that reach the list of snapshots: creation, deletion by tag, and a write, which may have to delete snapshots.\<close>

inductive snap_step :: "'a copier_scheme \<Rightarrow> 'a copier_scheme \<Rightarrow> bool" where
  create: "create_snapshot rounds now tag sb = Inr (r, sb') \<Longrightarrow> snap_step sb sb'"
| delete: "find_snap sb tag = Some i \<Longrightarrow> delete_snap rounds i sb = Inr (err, sb') \<Longrightarrow> snap_step sb sb'"
| make_unique: "make_unique rounds chunk snapbit sb = Inr (e, sb') \<Longrightarrow> snap_step sb sb'"

section \<open>Removing, squashing and adding an entry\<close>

lemma snaps_split: "i < length ss \<Longrightarrow> ss = take i ss @ ss ! i # drop (Suc i) ss"
  by (rule id_take_nth_drop)

lemma active_bits_Cons: "active_bits (s # ss) = (if is_squashed s then [] else [snap_bit s]) @ active_bits ss"
  by (simp add: active_bits_def)

lemma typed_mask:
  assumes "snaps_typed (ss, m)" "b \<notin> set (active_bits ss)"
  shows "snaps_typed (ss, m AND NOT (push_bit b 1))"
proof -
  have "bit (m AND NOT (push_bit b 1)) x" if x: "bit m x" "x \<noteq> b" for x
    using x bit_u64_less [OF x(1)] by (simp add: bit_and_iff bit_not_iff bit_snapbit)
  with assms show ?thesis unfolding snaps_typed_def by auto
qed

lemma typed_remove:
  assumes "snaps_typed (ss, m)" "i < length ss"
  shows "snaps_typed (take i ss @ drop (Suc i) ss, m)"
    "\<not> is_squashed (ss ! i) \<Longrightarrow> snaps_typed (take i ss @ drop (Suc i) ss, m AND NOT (push_bit (snap_bit (ss ! i)) 1))"
proof -
  let ?xs = "take i ss" and ?ys = "drop (Suc i) ss"
  have s: "ss = ?xs @ ss ! i # ?ys" by (rule snaps_split [OF assms(2)])
  have t: "snaps_typed (?xs @ ss ! i # ?ys, m)" using assms(1) s by simp
  then show u: "snaps_typed (?xs @ ?ys, m)" by (auto simp: snaps_typed_def active_bits_Cons)
  show "snaps_typed (?xs @ ?ys, m AND NOT (push_bit (snap_bit (ss ! i)) 1))" if "\<not> is_squashed (ss ! i)"
    using t that by (intro typed_mask [OF u]) (auto simp: snaps_typed_def active_bits_Cons)
qed

lemma typed_squash:
  assumes "snaps_typed (ss, m)" "i < length ss" "\<not> is_squashed (ss ! i)"
  shows "snaps_typed (ss[i := (ss ! i)\<lparr>snap_bit := SNAPSHOT_SQUASHED\<rparr>], m AND NOT (push_bit (snap_bit (ss ! i)) 1))"
    "snaps_typed (ss[i := (ss ! i)\<lparr>snap_bit := SNAPSHOT_SQUASHED\<rparr>], m)"
proof -
  let ?xs = "take i ss" and ?ys = "drop (Suc i) ss" and ?s = "(ss ! i)\<lparr>snap_bit := SNAPSHOT_SQUASHED\<rparr>"
  have t: "snaps_typed (?xs @ ss ! i # ?ys, m)" using assms(1) snaps_split [OF assms(2)] by simp
  have u: "ss[i := ?s] = ?xs @ ?s # ?ys" by (rule upd_conv_take_nth_drop [OF assms(2)])
  show v: "snaps_typed (ss[i := ?s], m)" using t assms(3) unfolding u by (auto simp: snaps_typed_def active_bits_Cons is_squashed_def)
  show "snaps_typed (ss[i := ?s], m AND NOT (push_bit (snap_bit (ss ! i)) 1))"
  proof (rule typed_mask [OF v])
    show "snap_bit (ss ! i) \<notin> set (active_bits (ss[i := ?s]))"
      unfolding u using t assms(3) by (auto simp: snaps_typed_def active_bits_Cons is_squashed_def)
  qed
qed

section \<open>The operations\<close>

lemma typed_delete_snap:
  assumes t: "snaps_typed (snaps sb)" and i: "i < length (snaplist (image sb))" and run: "delete_snap rounds i sb = Inr (err, sb')"
  shows "snaps_typed (snaps sb')"
proof -
  let ?ss = "snaplist (image sb)" and ?s = "snaplist (image sb) ! i"
  have r: "snaps (remove_snap i sb1) = (take i ?ss @ drop (Suc i) ?ss, snapmask sb)" if "snaps sb1 = snaps sb" for sb1 :: "'a superblock_scheme"
    using that by (simp add: remove_snap_def snaps_def)
  show ?thesis
  proof (cases "is_squashed ?s")
    case True
    then show ?thesis using run typed_remove(1) [OF t [unfolded snaps_def] i] r [OF refl] by (auto simp: delete_snap_def snaps_simps)
  next
    case False
    let ?sb1 = "commit_deferred_allocs (set_sb_dirty (remove_snap i (sb\<lparr>sb_usecount := (sb_usecount sb)(snap_bit ?s := 0)\<rparr>)))"
    have "delete_tree_range rounds (push_bit (snap_bit ?s) 1) 0 ?sb1 = Inr (err, sb')"
      using run False by (simp add: delete_snap_def Let_def)
    moreover have "snaps ?sb1 = (take i ?ss @ drop (Suc i) ?ss, snapmask sb)"
      unfolding snaps_commit snaps_store by (rule r) (simp add: snaps_def)
    ultimately have "snaps sb' = (take i ?ss @ drop (Suc i) ?ss, if err = None then snapmask sb AND NOT (push_bit (snap_bit ?s) 1) else snapmask sb)"
      using snaps_delete_tree_range by (fastforce simp: snaps_def)
    then show ?thesis using typed_remove [OF t [unfolded snaps_def] i] False by simp
  qed
qed

lemma typed_auto_delete:
  assumes t: "snaps_typed (snaps sb)" and run: "auto_delete_snapshot rounds sb = Inr (ok, sb')"
  shows "snaps_typed (snaps sb')"
proof -
  let ?ss = "snaplist (image sb)" and ?i = "find_victim sb"
  have ne: "?ss \<noteq> []" using run by (auto simp: auto_delete_snapshot_def)
  then have i: "?i < length ?ss" using find_victim_best [OF ne] by (auto simp: first_best_def Let_def split: if_splits)
  have rc: "snaps (recount_free sb) = snaps sb" by (simp add: recount_free_def Let_def snaps_def)
  consider "sb' = recount_free sb" | err sb1 where "\<not> is_squashed (?ss ! ?i)" "sb' = squash_snap ?i sb1"
      "delete_tree_range rounds (push_bit (snap_bit (?ss ! ?i)) 1) 0 (commit_deferred_allocs sb) = Inr (err, sb1)"
    | err where "delete_snap rounds ?i sb = Inr (err, sb')"
    using run ne by (auto simp: auto_delete_snapshot_def Let_def split: if_splits sum.splits prod.splits)
  then show ?thesis
  proof cases
    case 1 then show ?thesis using t rc by simp
  next
    case 2
    have "snaps (commit_deferred_allocs sb) = snaps sb" by (rule snaps_commit)
    then have "snaps sb1 = (?ss, if err = None then snapmask sb AND NOT (push_bit (snap_bit (?ss ! ?i)) 1) else snapmask sb)"
      using snaps_delete_tree_range [OF 2(3)] by (simp add: snaps_def)
    then have "snaps sb' = (?ss[?i := (?ss ! ?i)\<lparr>snap_bit := SNAPSHOT_SQUASHED\<rparr>],
        if err = None then snapmask sb AND NOT (push_bit (snap_bit (?ss ! ?i)) 1) else snapmask sb)"
      by (simp add: 2(2) squash_snap_def Let_def snaps_def)
    then show ?thesis using typed_squash [OF t [unfolded snaps_def] i 2(1)] by simp
  next
    case 3 then show ?thesis by (rule typed_delete_snap [OF t i])
  qed
qed

lemma typed_ensure_loop: "ensure_loop k rounds sp n sb = Inr (ok, sb') \<Longrightarrow> snaps_typed (snaps sb) \<Longrightarrow> snaps_typed (snaps sb')"
proof (induction k arbitrary: sb)
  case (Suc k)
  then show ?case using typed_auto_delete by (fastforce split: if_splits sum.splits prod.splits)
qed simp

lemma typed_ensure_free: "ensure_free_chunks rounds sp n sb = Inr (ok, sb') \<Longrightarrow> snaps_typed (snaps sb) \<Longrightarrow> snaps_typed (snaps sb')"
  unfolding ensure_free_chunks_def by (rule typed_ensure_loop)

lemma typed_ensure_space: "ensure_space rounds sb = Inr (ok, sb') \<Longrightarrow> snaps_typed (snaps sb) \<Longrightarrow> snaps_typed (snaps sb')"
  by (auto simp: ensure_space_def split: if_splits sum.splits prod.splits dest: typed_ensure_free)

lemma snaps_copyout: "snaps (copyout chunk e sb) = snaps sb"
  by (simp add: copyout_def finish_copyout_def Let_def snaps_def)

lemma snaps_add_unique:
  assumes "add_unique chunk i sb = Inr (r, sb')" shows "snaps sb' = snaps sb"
proof -
  have a: "snaps sb1 = snaps sb" if "alloc_snapblock sb = (x, sb1)" for x sb1
    using snaps_alloc_chunk [of Snap sb] that by (simp add: alloc_snapblock_def)
  have b: "snaps sb2 = snaps sb1" if "add_exception_to_tree l c e j p sb1 = (x, sb2)" for l c e j p x and sb1 sb2 :: "'a copier_scheme"
    using snaps_add_exception_to_tree [of l c e j p sb1] that by simp
  show ?thesis using assms unfolding add_unique_def
    by (auto split: option.splits prod.splits if_splits bool.splits simp: snaps_copyout snaps_simps dest!: a b)
qed

lemma typed_create:
  assumes t: "snaps_typed (snaps sb)" and run: "create_snapshot rounds now tag sb = Inr (r, sb')"
  shows "snaps_typed (snaps sb')"
proof -
  obtain sb1 where m: "make_room_for_snap rounds sb = Inr sb1" using run by (auto simp: create_snapshot_def split: sum.splits)
  have t1: "snaps_typed (snaps sb1)"
  proof (cases "length (snaplist (image sb)) \<ge> MAX_SNAPSHOTS")
    case True
    then have "snaplist (image sb) \<noteq> []" by auto
    then have "find_unused sb < length (snaplist (image sb))" using find_unused_best [of sb] by (auto simp: first_best_def Let_def)
    with m show ?thesis using t typed_delete_snap [OF t]
      by (auto simp: make_room_for_snap_def Let_def split: if_splits sum.splits prod.splits)
  qed (use m t in \<open>simp add: make_room_for_snap_def\<close>)
  show ?thesis
  proof (cases "sb' = sb1")
    case False
    with run m obtain i where i: "length (snaplist (image sb1)) < MAX_SNAPSHOTS" "find_snap sb1 tag = None"
      "free_snapbit (snapmask sb1) = Some i" "sb' = append_snap now tag i sb1"
      by (auto simp: create_snapshot_def not_le split: if_splits option.splits)
    have b: "i < 64" "\<not> bit (snapmask sb1) i" using free_snapbit_Some [OF i(3)] by auto
    have n: "i \<notin> set (active_bits (snaplist (image sb1)))" using t1 b(2) by (auto simp: snaps_typed_def snaps_def)
    have "bit (snapmask sb1 OR push_bit i 1) x \<longleftrightarrow> bit (snapmask sb1) x \<or> x = i" for x
      using b(1) by (auto simp: bit_or_iff bit_snapbit)
    moreover have "tag \<notin> snap_tag ` set (snaplist (image sb1))" using i(2) by (simp add: find_snap_None)
    moreover obtain s where "snaps sb' = (snaplist (image sb1) @ [s], snapmask sb1 OR push_bit i 1)" "snap_tag s = tag" "snap_bit s = i"
      by (simp add: i(4) append_snap_def Let_def set_sb_dirty_def snaps_def)
    ultimately show ?thesis using t1 i(1) b(1) n by (auto simp: snaps_typed_def snaps_def is_squashed_def)
  qed (use t1 in simp)
qed

lemma typed_step: "snap_step sb sb' \<Longrightarrow> snaps_typed (snaps sb) \<Longrightarrow> snaps_typed (snaps sb')"
proof (induction rule: snap_step.induct)
  case (create rounds now tag sb r sb') then show ?case using typed_create by blast
next
  case (delete sb tag i rounds err sb') then show ?case using typed_delete_snap find_snap_Some(1) by blast
next
  case (make_unique rounds chunk snapbit sb e sb')
  then show ?case
    by (auto simp: make_unique_def split: sum.splits prod.splits if_splits dest!: snaps_add_unique typed_ensure_space)
qed

text \<open>
  C8: the list of snapshots stays well typed over every sequence of creations,
  deletions and writes: at most 64 entries, no tag twice, and no bit twice among
  the snapshots that are not squashed, each of which is active in the mask.  In
  particular a new snapshot never gets the bit of another one, neither when an
  entry was deleted to make room nor after a deletion has failed half-way.
\<close>

theorem snapshot_list_typed:
  assumes "snap_step\<^sup>*\<^sup>* sb sb'" "snaps_typed (snaps sb)"
  shows "snaps_typed (snaps sb')"
  using assms by (induction rule: rtranclp_induct) (auto dest: typed_step)

theorem snapshot_list_typed_witness:
  "snaps_typed (snaps (demo_store ())) \<and>
   (\<exists>sb'. snap_step\<^sup>*\<^sup>* (demo_store ()) sb' \<and> map snap_bit (snaplist (image sb')) = [0, 1, 2] \<and> snaps_typed (snaps sb'))"
proof -
  have t: "snaps_typed (snaps (demo_store ()))"
    by (auto simp: snaps_typed_def snaps_def active_bits_def demo_snap_def is_squashed_def)
  have b: "free_snapbit 3 = Some 2" by code_simp
  have "find_snap (demo_store ()) 9 = None" by (simp add: find_snap_None demo_snap_def)
  then have c: "create_snapshot 0 0 9 (demo_store ()) = Inr (Inr 2, append_snap 0 9 2 (demo_store ()))"
    by (simp add: create_snapshot_def make_room_for_snap_def b)
  have "map snap_bit (snaplist (image (append_snap 0 9 2 (demo_store ())))) = [0, 1, 2]"
    by (simp add: append_snap_def set_sb_dirty_def Let_def demo_snap_def)
  moreover have "snap_step\<^sup>*\<^sup>* (demo_store ()) (append_snap 0 9 2 (demo_store ()))"
    by (rule r_into_rtranclp) (rule snap_step.create [OF c])
  ultimately show ?thesis using t snapshot_list_typed by (intro conjI exI [of _ "append_snap 0 9 2 (demo_store ())"])
qed

end
