(* ===== verification/Buffer.thy ===== *)
theory Buffer
  imports Store
begin

text \<open>
  The buffer cache of \<open>src/ddsnap/buffer.c\<close> itself: buffer objects with
  reference counts and states, the hash table over them, the list of buffers in
  the order of their last use, the free list, and the lists of dirty and
  journaled buffers.  A pointer to a buffer is the number of the object, a hash
  chain and a \<open>list_head\<close> list are lists of such numbers.  An assertion that
  fails ends the process.

  Theory Store is what the rest of the server needs to know of it; theory
  Buffer_Correct shows that the cache behaves like that.

  The device and the allocator are outside: which sectors cannot be read or
  written and which request for memory fails are part of the state.
\<close>

datatype bufstate = STATE_INVAL | STATE_CLEAN | STATE_DIRTY | STATE_JOURNALED

record buffer =
  b_count :: nat
  b_state :: bufstate
  b_size :: nat
  b_sector :: sector_t
  b_data :: block
  b_fd :: nat

record bufcache =
  buffers :: "nat \<Rightarrow> buffer"
  buffer_table :: "nat \<Rightarrow> nat list"
  dirty_list :: "nat list"
  dirty_buffer_count :: nat
  lru_buffers :: "nat list"
  buffer_count :: nat
  free_buffers :: "nat list"
  journaled_count :: nat
  journaled_list :: "nat list"
  max_buffers :: nat
  max_evict :: nat
  next_object :: nat
  no_memory :: "nat \<Rightarrow> bool"
  device :: "sector_t \<Rightarrow> block"
  read_fails :: "sector_t \<Rightarrow> bool"
  write_fails :: "sector_t \<Rightarrow> bool"

definition BUFFER_BUCKETS :: nat where "BUFFER_BUCKETS = 9999"

section \<open>States\<close>

definition upd_buffer :: "nat \<Rightarrow> (buffer \<Rightarrow> buffer) \<Rightarrow> bufcache \<Rightarrow> bufcache" where
  "upd_buffer b f c = c\<lparr>buffers := (buffers c)(b := f (buffers c b))\<rparr>"

definition buffer_dirty :: "bufcache \<Rightarrow> nat \<Rightarrow> bool" where
  "buffer_dirty c b \<longleftrightarrow> b_state (buffers c b) = STATE_DIRTY"

definition buffer_uptodate :: "bufcache \<Rightarrow> nat \<Rightarrow> bool" where
  "buffer_uptodate c b \<longleftrightarrow> b_state (buffers c b) = STATE_CLEAN"

definition buffer_journaled :: "bufcache \<Rightarrow> nat \<Rightarrow> bool" where
  "buffer_journaled c b \<longleftrightarrow> b_state (buffers c b) = STATE_JOURNALED"

definition set_state :: "nat \<Rightarrow> bufstate \<Rightarrow> bufcache \<Rightarrow> bufcache" where
  "set_state b st c = upd_buffer b (\<lambda>x. x\<lparr>b_state := st\<rparr>) c"

definition remove_buffer_dirty :: "nat \<Rightarrow> bufcache \<Rightarrow> bufcache" where
  "remove_buffer_dirty b c =
     c\<lparr>dirty_list := remove1 b (dirty_list c), dirty_buffer_count := dirty_buffer_count c - 1\<rparr>"

definition remove_buffer_journaled :: "nat \<Rightarrow> bufcache \<Rightarrow> bufcache" where
  "remove_buffer_journaled b c =
     c\<lparr>journaled_list := remove1 b (journaled_list c), journaled_count := journaled_count c - 1\<rparr>"

definition buf_add_journaled :: "nat \<Rightarrow> bufcache \<Rightarrow> bufcache" where
  "buf_add_journaled b c =
     (let c = (if buffer_dirty c b then remove_buffer_dirty b c else c);
          c = set_state b STATE_JOURNALED c
      in c\<lparr>journaled_list := journaled_list c @ [b], journaled_count := journaled_count c + 1\<rparr>)"

definition buf_set_dirty :: "nat \<Rightarrow> bufcache \<Rightarrow> bufcache" where
  "buf_set_dirty b c =
     (if buffer_dirty c b then c
      else
        (let c = (if buffer_journaled c b then remove_buffer_journaled b c else c);
             c = c\<lparr>dirty_list := dirty_list c @ [b]\<rparr>;
             c = set_state b STATE_DIRTY c
         in c\<lparr>dirty_buffer_count := dirty_buffer_count c + 1\<rparr>))"

definition buf_set_uptodate :: "nat \<Rightarrow> bufcache \<Rightarrow> bufcache" where
  "buf_set_uptodate b c =
     (let c = (if buffer_dirty c b then remove_buffer_dirty b c else c);
          c = (if buffer_journaled c b then remove_buffer_journaled b c else c)
      in set_state b STATE_CLEAN c)"

definition buf_set_empty :: "nat \<Rightarrow> bufcache \<Rightarrow> bufcache" where
  "buf_set_empty b c = set_state b STATE_INVAL (buf_set_uptodate b c)"

definition brelse :: "nat \<Rightarrow> bufcache \<Rightarrow> bufcache run" where
  "brelse b c =
     (if b_count (buffers c b) = 0 then Inl Exit
      else Inr (upd_buffer b (\<lambda>x. x\<lparr>b_count := b_count x - 1\<rparr>) c))"

definition brelse_dirty :: "nat \<Rightarrow> bufcache \<Rightarrow> bufcache run" where
  "brelse_dirty b c = brelse b (buf_set_dirty b c)"

section \<open>Transfer\<close>

text \<open>The flag is true if the transfer has succeeded.\<close>

definition buf_write_to :: "nat \<Rightarrow> sector_t \<Rightarrow> bufcache \<Rightarrow> bool \<times> bufcache" where
  "buf_write_to b sector c =
     (if write_fails c sector then (False, c)
      else (True, c\<lparr>device := (device c)(sector := b_data (buffers c b))\<rparr>))"

definition buf_write :: "nat \<Rightarrow> bufcache \<Rightarrow> bool \<times> bufcache" where
  "buf_write b c =
     (case buf_write_to b (b_sector (buffers c b)) c of
        (False, c) \<Rightarrow> (False, c)
      | (True, c) \<Rightarrow> (True, buf_set_uptodate b c))"

definition read_buffer :: "nat \<Rightarrow> bufcache \<Rightarrow> bool \<times> bufcache" where
  "read_buffer b c =
     (let sector = b_sector (buffers c b)
      in if read_fails c sector then (False, c)
         else (True, buf_set_uptodate b (upd_buffer b (\<lambda>x. x\<lparr>b_data := device c sector\<rparr>) c)))"

section \<open>The lists and the hash table\<close>

definition buffer_hash :: "sector_t \<Rightarrow> nat" where
  "buffer_hash sector = ((sector div 2 ^ 32) XOR sector) * 978317583 mod 2 ^ 64 mod BUFFER_BUCKETS"

definition add_buffer_lru :: "nat \<Rightarrow> bufcache \<Rightarrow> bufcache" where
  "add_buffer_lru b c = c\<lparr>buffer_count := buffer_count c + 1, lru_buffers := lru_buffers c @ [b]\<rparr>"

definition remove_buffer_lru :: "nat \<Rightarrow> bufcache \<Rightarrow> bufcache" where
  "remove_buffer_lru b c = c\<lparr>buffer_count := buffer_count c - 1, lru_buffers := remove1 b (lru_buffers c)\<rparr>"

definition remove_buffer_hash :: "nat \<Rightarrow> bufcache \<Rightarrow> bufcache run" where
  "remove_buffer_hash b c =
     (let i = buffer_hash (b_sector (buffers c b))
      in if b \<in> set (buffer_table c i)
         then Inr (c\<lparr>buffer_table := (buffer_table c)(i := remove1 b (buffer_table c i))\<rparr>)
         else Inl Exit)"

definition add_buffer_free :: "nat \<Rightarrow> bufcache \<Rightarrow> bufcache run" where
  "add_buffer_free b c =
     (if b_state (buffers c b) = STATE_CLEAN \<or> b_state (buffers c b) = STATE_INVAL
      then (let c = set_state b STATE_INVAL c in Inr (c\<lparr>free_buffers := free_buffers c @ [b]\<rparr>))
      else Inl Exit)"

definition remove_buffer_free :: "bufcache \<Rightarrow> nat option \<times> bufcache" where
  "remove_buffer_free c =
     (case free_buffers c of [] \<Rightarrow> (None, c) | b # bs \<Rightarrow> (Some b, c\<lparr>free_buffers := bs\<rparr>))"

definition evict_buffer :: "nat \<Rightarrow> bufcache \<Rightarrow> bufcache run" where
  "evict_buffer b c =
     (case remove_buffer_hash b (remove_buffer_lru b c) of
        Inl f \<Rightarrow> Inl f
      | Inr c \<Rightarrow> add_buffer_free b c)"

section \<open>A buffer for a sector\<close>

text \<open>The loop over the buffers from the one unused for the longest time on, \<open>count\<close> of which are evicted already.\<close>

definition evictable :: "bufcache \<Rightarrow> nat \<Rightarrow> bool" where
  "evictable c b \<longleftrightarrow> b_count (buffers c b) = 0 \<and> \<not> buffer_dirty c b \<and> \<not> buffer_journaled c b"

fun evict_loop :: "nat \<Rightarrow> nat list \<Rightarrow> bufcache \<Rightarrow> bufcache run" where
  "evict_loop count [] c = Inr c"
| "evict_loop count (b # bs) c =
     (if evictable c b then
        (case evict_buffer b c of
           Inl f \<Rightarrow> Inl f
         | Inr c \<Rightarrow> if count + 1 = max_evict c then Inr c else evict_loop (count + 1) bs c)
      else evict_loop count bs c)"

text \<open>From the label \<open>have_buffer\<close> on.\<close>

definition have_buffer :: "nat \<Rightarrow> sector_t \<Rightarrow> nat \<Rightarrow> bufcache \<Rightarrow> (nat option \<times> bufcache) run" where
  "have_buffer b sector bsize c =
     (if b_count (buffers c b) \<noteq> 0 \<or> b_state (buffers c b) \<noteq> STATE_INVAL then Inl Exit
      else
        (let c = upd_buffer b (\<lambda>x. x\<lparr>b_size := bsize, b_sector := sector, b_count := b_count x + 1\<rparr>) c
         in Inr (Some b, add_buffer_lru b c)))"

text \<open>From the label \<open>alloc_buffer\<close> on; the data of a new buffer are not initialised.\<close>

definition alloc_buffer :: "sector_t \<Rightarrow> nat \<Rightarrow> bufcache \<Rightarrow> (nat option \<times> bufcache) run" where
  "alloc_buffer sector bsize c =
     (if buffer_count c = max_buffers c \<or> no_memory c (next_object c) then Inr (None, c)
      else
        (let b = next_object c;
             c = c\<lparr>next_object := b + 1\<rparr>;
             c = upd_buffer b (\<lambda>x. x\<lparr>b_count := 0, b_state := STATE_INVAL, b_size := 0, b_sector := 0, b_fd := 0\<rparr>) c
         in have_buffer b sector bsize c))"

definition new_buffer :: "sector_t \<Rightarrow> nat \<Rightarrow> bufcache \<Rightarrow> (nat option \<times> bufcache) run" where
  "new_buffer sector bsize c =
     (let c = (if max_buffers c < 100 then c\<lparr>max_buffers := 100\<rparr> else c)
      in case remove_buffer_free c of
           (Some b, c) \<Rightarrow> have_buffer b sector bsize c
         | (None, c) \<Rightarrow>
             if buffer_count c < max_buffers c then alloc_buffer sector bsize c
             else
               (case evict_loop 0 (lru_buffers c) c of
                  Inl f \<Rightarrow> Inl f
                | Inr c \<Rightarrow>
                    (case remove_buffer_free c of
                       (Some b, c) \<Rightarrow> have_buffer b sector bsize c
                     | (None, c) \<Rightarrow> alloc_buffer sector bsize c)))"

definition count_buffer :: "bufcache \<Rightarrow> nat" where
  "count_buffer c = length (filter (\<lambda>b. b_count (buffers c b) \<noteq> 0) (lru_buffers c))"

definition find_buffer :: "bufcache \<Rightarrow> sector_t \<Rightarrow> nat option" where
  "find_buffer c sector = find (\<lambda>b. b_sector (buffers c b) = sector) (buffer_table c (buffer_hash sector))"

definition getblk :: "nat \<Rightarrow> sector_t \<Rightarrow> nat \<Rightarrow> bufcache \<Rightarrow> (nat option \<times> bufcache) run" where
  "getblk fd sector bsize c =
     (case find_buffer c sector of
        Some b \<Rightarrow>
          (let c = upd_buffer b (\<lambda>x. x\<lparr>b_count := b_count x + 1\<rparr>) c
           in Inr (Some b, c\<lparr>lru_buffers := remove1 b (lru_buffers c) @ [b]\<rparr>))
      | None \<Rightarrow>
          (case new_buffer sector bsize c of
             Inl f \<Rightarrow> Inl f
           | Inr (None, c) \<Rightarrow> Inr (None, c)
           | Inr (Some b, c) \<Rightarrow>
               (let c = upd_buffer b (\<lambda>x. x\<lparr>b_fd := fd\<rparr>) c; i = buffer_hash sector
                in Inr (Some b, c\<lparr>buffer_table := (buffer_table c)(i := b # buffer_table c i)\<rparr>))))"

definition buf_bread :: "nat \<Rightarrow> sector_t \<Rightarrow> nat \<Rightarrow> bufcache \<Rightarrow> (nat option \<times> bufcache) run" where
  "buf_bread fd sector bsize c =
     (case getblk fd sector bsize c of
        Inl f \<Rightarrow> Inl f
      | Inr (None, c) \<Rightarrow> Inr (None, c)
      | Inr (Some b, c) \<Rightarrow>
          if b_state (buffers c b) \<noteq> STATE_INVAL then Inr (Some b, c)
          else
            (case read_buffer b c of
               (False, c) \<Rightarrow> (case brelse b c of Inl f \<Rightarrow> Inl f | Inr c \<Rightarrow> Inr (None, c))
             | (True, c) \<Rightarrow>
                 if buffer_uptodate c b then Inr (Some b, c)
                 else (case brelse b c of Inl f \<Rightarrow> Inl f | Inr c \<Rightarrow> Inr (None, c))))"

section \<open>The whole cache\<close>

text \<open>
  The test routine \<open>evict_buffers\<close> evicts the unused buffers of each chain and
  then drops the chain, with the buffers in it that are still in use.
\<close>

fun evict_chain :: "nat list \<Rightarrow> bufcache \<Rightarrow> bufcache run" where
  "evict_chain [] c = Inr c"
| "evict_chain (b # bs) c =
     (if b_count (buffers c b) = 0
      then (case evict_buffer b c of Inl f \<Rightarrow> Inl f | Inr c \<Rightarrow> evict_chain bs c)
      else evict_chain bs c)"

fun evict_buckets :: "nat list \<Rightarrow> bufcache \<Rightarrow> bufcache run" where
  "evict_buckets [] c = Inr c"
| "evict_buckets (i # is) c =
     (case evict_chain (buffer_table c i) c of
        Inl f \<Rightarrow> Inl f
      | Inr c \<Rightarrow> evict_buckets is (c\<lparr>buffer_table := (buffer_table c)(i := [])\<rparr>))"

definition evict_buffers :: "bufcache \<Rightarrow> bufcache run" where
  "evict_buffers = evict_buckets [0..<BUFFER_BUCKETS]"

text \<open>Each round writes the first buffer of the list, which takes it off the list; a failed write ends the process.\<close>

fun flush_loop :: "nat list \<Rightarrow> bufcache \<Rightarrow> bufcache run" where
  "flush_loop [] c = Inr c"
| "flush_loop (b # bs) c = (case buf_write b c of (False, c) \<Rightarrow> Inl Exit | (True, c) \<Rightarrow> flush_loop bs c)"

definition flush_buffers :: "bufcache \<Rightarrow> bufcache run" where
  "flush_buffers c = flush_loop (dirty_list c) c"

definition preallocate_buffers :: "nat \<Rightarrow> bufcache \<Rightarrow> bool \<times> bufcache" where
  "preallocate_buffers bufsize c =
     (if no_memory c (next_object c) then (False, c)
      else
        (let bs = [next_object c..<next_object c + max_buffers c];
             fresh = \<lparr>b_count = 0, b_state = STATE_INVAL, b_size = 0, b_sector = 0, b_data = RawB, b_fd = 0\<rparr>
         in (True, c\<lparr>next_object := next_object c + max_buffers c,
                     buffers := (\<lambda>b. if b \<in> set bs then fresh else buffers c b),
                     free_buffers := free_buffers c @ bs\<rparr>)))"

definition init_buffers :: "nat \<Rightarrow> nat \<Rightarrow> bufcache \<Rightarrow> bufcache run" where
  "init_buffers bufsize mem_pool_size c =
     (if bufsize = 0 then Inl Exit
      else
        (let c = c\<lparr>buffer_table := (\<lambda>_. []), dirty_list := [], dirty_buffer_count := 0, lru_buffers := [],
                   buffer_count := 0, free_buffers := [], journaled_count := 0, journaled_list := [],
                   max_buffers := mem_pool_size div bufsize, max_evict := mem_pool_size div bufsize div 10\<rparr>
         in Inr (snd (preallocate_buffers bufsize c))))"

end
