(* ===== verification/Buffer_Lemmas.thy ===== *)
theory Buffer_Lemmas
  imports Buffer
begin

text \<open>
  The invariant of the buffer cache, the contents of a sector as seen through
  it, and what each operation does to them.
\<close>

section \<open>Invariant\<close>

definition in_state :: "bufcache \<Rightarrow> bufstate \<Rightarrow> nat set" where
  "in_state c st = {b \<in> set (lru_buffers c). b_state (buffers c b) = st}"

text \<open>
  The table finds exactly the buffers of the use list, each under its sector;
  a buffer on the free list is unused and holds nothing; a clean buffer agrees
  with the device.
\<close>

definition table_typed :: "bufcache \<Rightarrow> bool" where
  "table_typed c \<longleftrightarrow> distinct (lru_buffers c) \<and> inj_on (\<lambda>b. b_sector (buffers c b)) (set (lru_buffers c)) \<and>
     (\<forall>i b. b \<in> set (buffer_table c i) \<longleftrightarrow> b \<in> set (lru_buffers c) \<and> buffer_hash (b_sector (buffers c b)) = i) \<and>
     (\<forall>i. distinct (buffer_table c i))"

definition lists_typed :: "bufcache \<Rightarrow> bool" where
  "lists_typed c \<longleftrightarrow> distinct (dirty_list c) \<and> set (dirty_list c) = in_state c STATE_DIRTY \<and>
     distinct (journaled_list c) \<and> set (journaled_list c) = in_state c STATE_JOURNALED \<and>
     distinct (free_buffers c) \<and> set (free_buffers c) \<inter> set (lru_buffers c) = {} \<and>
     (\<forall>b\<in>set (free_buffers c). b_count (buffers c b) = 0 \<and> b_state (buffers c b) = STATE_INVAL) \<and>
     (\<forall>b\<in>set (lru_buffers c @ free_buffers c). b < next_object c)"

definition counts_ok :: "bufcache \<Rightarrow> bool" where
  "counts_ok c \<longleftrightarrow> buffer_count c = length (lru_buffers c) \<and> dirty_buffer_count c = length (dirty_list c) \<and>
     journaled_count c = length (journaled_list c)"

definition cache_ok :: "bufcache \<Rightarrow> bool" where
  "cache_ok c \<longleftrightarrow> table_typed c \<and> lists_typed c \<and> counts_ok c \<and>
     (\<forall>b\<in>in_state c STATE_CLEAN. b_data (buffers c b) = device c (b_sector (buffers c b)))"

lemmas cache_ok_defs = cache_ok_def table_typed_def lists_typed_def counts_ok_def

definition cview :: "bufcache \<Rightarrow> sector_t \<Rightarrow> block" where
  "cview c sector =
     (case find_buffer c sector of
        Some b \<Rightarrow> if b_state (buffers c b) = STATE_INVAL then device c sector else b_data (buffers c b)
      | None \<Rightarrow> device c sector)"

lemma find_buffer_Some:
  assumes "table_typed c"
  shows "find_buffer c s = Some b \<longleftrightarrow> b \<in> set (lru_buffers c) \<and> b_sector (buffers c b) = s"
proof
  assume "find_buffer c s = Some b"
  then have "b \<in> set (buffer_table c (buffer_hash s))" "b_sector (buffers c b) = s"
    by (auto simp: find_buffer_def find_Some_iff in_set_conv_nth)
  then show "b \<in> set (lru_buffers c) \<and> b_sector (buffers c b) = s" using assms by (simp add: table_typed_def)
next
  assume b: "b \<in> set (lru_buffers c) \<and> b_sector (buffers c b) = s"
  then have m: "b \<in> set (buffer_table c (buffer_hash s))" using assms by (simp add: table_typed_def)
  show "find_buffer c s = Some b"
  proof (cases "find_buffer c s")
    case None
    then show ?thesis using m b by (auto simp: find_buffer_def find_None_iff)
  next
    case (Some x)
    then have "x \<in> set (buffer_table c (buffer_hash s))" "b_sector (buffers c x) = s"
      by (auto simp: find_buffer_def find_Some_iff in_set_conv_nth)
    then have "x = b" using assms b by (auto simp: table_typed_def inj_on_def)
    with Some show ?thesis by simp
  qed
qed

lemma find_buffer_None:
  assumes "table_typed c" shows "find_buffer c s = None \<longleftrightarrow> (\<forall>b\<in>set (lru_buffers c). b_sector (buffers c b) \<noteq> s)"
  using find_buffer_Some [OF assms] by (metis not_None_eq option.distinct(1))

lemma cview_held:
  assumes "table_typed c" "b \<in> set (lru_buffers c)"
  shows "cview c (b_sector (buffers c b)) =
    (if b_state (buffers c b) = STATE_INVAL then device c (b_sector (buffers c b)) else b_data (buffers c b))"
  using find_buffer_Some [OF assms(1), of "b_sector (buffers c b)" b] assms(2) by (simp add: cview_def)

lemma cview_absent: "table_typed c \<Longrightarrow> (\<And>b. b \<in> set (lru_buffers c) \<Longrightarrow> b_sector (buffers c b) \<noteq> s) \<Longrightarrow> cview c s = device c s"
  using find_buffer_None [of c s] by (simp add: cview_def)

text \<open>Two caches with the same contents: every sector is cached alike, up to buffers that agree with the device.\<close>

lemma cviewI:
  assumes t: "table_typed c" "table_typed c'" and d: "device c' = device c"
    and keep: "\<And>b. b \<in> set (lru_buffers c) \<Longrightarrow> b_state (buffers c b) \<in> {STATE_DIRTY, STATE_JOURNALED} \<Longrightarrow>
      b \<in> set (lru_buffers c') \<and> b_sector (buffers c' b) = b_sector (buffers c b) \<and>
      b_state (buffers c' b) = b_state (buffers c b) \<and> b_data (buffers c' b) = b_data (buffers c b)"
    and clean: "\<And>b. b \<in> set (lru_buffers c) \<Longrightarrow> b_state (buffers c b) = STATE_CLEAN \<Longrightarrow> b_data (buffers c b) = device c (b_sector (buffers c b))"
    and clean': "\<And>b. b \<in> set (lru_buffers c') \<Longrightarrow> b_state (buffers c' b) = STATE_CLEAN \<Longrightarrow> b_data (buffers c' b) = device c' (b_sector (buffers c' b))"
    and conv: "\<And>b. b \<in> set (lru_buffers c') \<Longrightarrow> b_state (buffers c' b) \<in> {STATE_DIRTY, STATE_JOURNALED} \<Longrightarrow>
      b \<in> set (lru_buffers c) \<and> b_sector (buffers c b) = b_sector (buffers c' b) \<and> b_state (buffers c b) = b_state (buffers c' b)"
  shows "cview c' = cview c"
proof
  have own: "cview x s = device x s"
    if "table_typed x" "\<And>b. b \<in> set (lru_buffers x) \<Longrightarrow> b_sector (buffers x b) = s \<Longrightarrow> b_state (buffers x b) \<notin> {STATE_DIRTY, STATE_JOURNALED}"
      "\<And>b. b \<in> set (lru_buffers x) \<Longrightarrow> b_state (buffers x b) = STATE_CLEAN \<Longrightarrow> b_data (buffers x b) = device x (b_sector (buffers x b))" for x s
  proof (cases "find_buffer x s")
    case None then show ?thesis by (simp add: cview_def)
  next
    case (Some b)
    then have b: "b \<in> set (lru_buffers x)" "b_sector (buffers x b) = s" using find_buffer_Some [OF that(1)] by auto
    show ?thesis using that(2,3) [OF b(1)] b(2) Some by (cases "b_state (buffers x b)") (auto simp: cview_def)
  qed
  fix s
  show "cview c' s = cview c s"
  proof (cases "\<exists>b\<in>set (lru_buffers c). b_sector (buffers c b) = s \<and> b_state (buffers c b) \<in> {STATE_DIRTY, STATE_JOURNALED}")
    case True
    then obtain b where b: "b \<in> set (lru_buffers c)" "b_sector (buffers c b) = s" "b_state (buffers c b) \<in> {STATE_DIRTY, STATE_JOURNALED}" by blast
    note k = keep [OF b(1,3)]
    then show ?thesis using cview_held [OF t(1) b(1)] cview_held [OF t(2), of b] b(2,3) by auto
  next
    case False
    then have "cview c s = device c s" by (intro own t clean) auto
    moreover have "cview c' s = device c' s"
    proof (intro own t clean')
      fix b assume b: "b \<in> set (lru_buffers c')" "b_sector (buffers c' b) = s"
      show "b_state (buffers c' b) \<notin> {STATE_DIRTY, STATE_JOURNALED}"
        using False conv [OF b(1)] b(2) by metis
    qed
    ultimately show ?thesis by (simp add: d)
  qed
qed

section \<open>Eviction\<close>

text \<open>What survives: all buffers that are in use, dirty or journaled, and the contents of all sectors.\<close>

definition retains :: "bufcache \<Rightarrow> bufcache \<Rightarrow> bool" where
  "retains c c' \<longleftrightarrow> device c' = device c \<and> read_fails c' = read_fails c \<and> write_fails c' = write_fails c \<and>
     dirty_list c' = dirty_list c \<and> journaled_list c' = journaled_list c \<and> cview c' = cview c \<and>
     (\<forall>b\<in>set (lru_buffers c). \<not> evictable c b \<longrightarrow> b \<in> set (lru_buffers c') \<and> buffers c' b = buffers c b)"

lemma evict_buffer_ok:
  assumes ok: "cache_ok c" and b: "b \<in> set (lru_buffers c)" "evictable c b"
  obtains c' where "evict_buffer b c = Inr c'" "cache_ok c'" "cview c' = cview c"
    "c' = c\<lparr>buffers := (buffers c)(b := (buffers c b)\<lparr>b_state := STATE_INVAL\<rparr>), lru_buffers := remove1 b (lru_buffers c),
      buffer_count := buffer_count c - 1, free_buffers := free_buffers c @ [b],
      buffer_table := (buffer_table c)(buffer_hash (b_sector (buffers c b)) := remove1 b (buffer_table c (buffer_hash (b_sector (buffers c b)))))\<rparr>"
proof -
  let ?i = "buffer_hash (b_sector (buffers c b))"
  let ?c' = "c\<lparr>buffers := (buffers c)(b := (buffers c b)\<lparr>b_state := STATE_INVAL\<rparr>), lru_buffers := remove1 b (lru_buffers c),
      buffer_count := buffer_count c - 1, free_buffers := free_buffers c @ [b],
      buffer_table := (buffer_table c)(?i := remove1 b (buffer_table c ?i))\<rparr>"
  have t: "table_typed c" using ok by (simp add: cache_ok_def)
  have st: "b_state (buffers c b) = STATE_CLEAN \<or> b_state (buffers c b) = STATE_INVAL"
    using b(2) by (cases "b_state (buffers c b)") (auto simp: evictable_def buffer_dirty_def buffer_journaled_def)
  have "b \<in> set (buffer_table c ?i)" using t b(1) by (simp add: table_typed_def)
  then have run: "evict_buffer b c = Inr ?c'" using st
    by (simp add: evict_buffer_def remove_buffer_hash_def remove_buffer_lru_def add_buffer_free_def set_state_def upd_buffer_def Let_def)
  have t': "table_typed ?c'" using t by (auto simp: table_typed_def inj_on_def distinct_remove1)
  have l: "lists_typed ?c'"
    using ok b st by (auto simp: cache_ok_def lists_typed_def in_state_def table_typed_def evictable_def distinct_remove1)
  have "buffer_count c = length (lru_buffers c)" using ok by (simp add: cache_ok_def counts_ok_def)
  then have n: "counts_ok ?c'" using ok b(1) by (simp add: cache_ok_def counts_ok_def length_remove1)
  have ok': "cache_ok ?c'" using t' l n ok by (auto simp: cache_ok_def in_state_def table_typed_def)
  have "cview ?c' = cview c"
    by (rule cviewI [OF t t']) (use ok st in \<open>auto simp: cache_ok_def in_state_def table_typed_def\<close>)
  with run ok' show thesis using that by blast
qed

text \<open>The loop that evicts; afterwards there is a free buffer unless no buffer of the list could go.\<close>

lemma retains_refl [simp]: "retains c c"
  by (simp add: retains_def)

lemma retains_trans:
  assumes "retains c c1" "retains c1 c2" "\<And>b. b \<in> set (lru_buffers c) \<Longrightarrow> \<not> evictable c b \<Longrightarrow> \<not> evictable c1 b"
  shows "retains c c2"
  using assms by (auto simp: retains_def)

lemma evictable_cong: "buffers c' b = buffers c b \<Longrightarrow> evictable c' b = evictable c b"
  by (simp add: evictable_def buffer_dirty_def buffer_journaled_def)

lemma evict_loop_ok:
  assumes "cache_ok c" "set bs \<subseteq> set (lru_buffers c)" "distinct bs"
  shows "\<exists>c'. evict_loop n bs c = Inr c' \<and> cache_ok c' \<and> retains c c' \<and> max_buffers c' = max_buffers c \<and>
    next_object c' = next_object c \<and> no_memory c' = no_memory c \<and> set (lru_buffers c') \<subseteq> set (lru_buffers c) \<and>
    (\<forall>b\<in>set (lru_buffers c'). buffers c' b = buffers c b) \<and>
    (free_buffers c' = [] \<longrightarrow> c' = c \<and> (\<forall>b\<in>set bs. \<not> evictable c b))"
  using assms
proof (induction n bs c rule: evict_loop.induct)
  case (1 n c) then show ?case by simp
next
  case (2 n b bs c)
  have sub: "set bs \<subseteq> set (lru_buffers c)" "distinct bs" "b \<notin> set bs" "b \<in> set (lru_buffers c)" using "2.prems" by auto
  show ?case
  proof (cases "evictable c b")
    case False
    then show ?thesis using "2.IH"(2) [OF False "2.prems"(1) sub(1,2)] by auto
  next
    case True
    obtain c1 where e: "evict_buffer b c = Inr c1" "cache_ok c1" "cview c1 = cview c" and c1:
      "c1 = c\<lparr>buffers := (buffers c)(b := (buffers c b)\<lparr>b_state := STATE_INVAL\<rparr>), lru_buffers := remove1 b (lru_buffers c),
        buffer_count := buffer_count c - 1, free_buffers := free_buffers c @ [b],
        buffer_table := (buffer_table c)(buffer_hash (b_sector (buffers c b)) := remove1 b (buffer_table c (buffer_hash (b_sector (buffers c b)))))\<rparr>"
      by (rule evict_buffer_ok [OF "2.prems"(1) sub(4) True])
    have dis: "distinct (lru_buffers c)" using "2.prems"(1) by (simp add: cache_ok_def table_typed_def)
    have r1: "retains c c1" using True e(3) by (auto simp: c1 retains_def dis)
    have keep: "\<not> evictable c1 x" if "\<not> evictable c x" for x
      using that True by (cases "x = b") (auto simp: c1 evictable_def buffer_dirty_def buffer_journaled_def)
    have l1: "set (lru_buffers c1) = set (lru_buffers c) - {b}" "\<forall>x\<in>set (lru_buffers c1). buffers c1 x = buffers c x"
      "free_buffers c1 \<noteq> []" "max_buffers c1 = max_buffers c" "next_object c1 = next_object c" "no_memory c1 = no_memory c"
      using dis by (auto simp: c1)
    show ?thesis
    proof (cases "n + 1 = max_evict c1")
      case stop: True
      then have "evict_loop n (b # bs) c = Inr c1" using True by (simp add: e(1))
      with e(2) r1 l1 show ?thesis by auto
    next
      case False
      have "set bs \<subseteq> set (lru_buffers c1)" using sub l1(1) by auto
      from "2.IH"(1) [OF True e(1) False e(2) this sub(2)]
      obtain c2 where c2: "evict_loop (n + 1) bs c1 = Inr c2" "cache_ok c2" "retains c1 c2" "max_buffers c2 = max_buffers c1"
        "next_object c2 = next_object c1" "no_memory c2 = no_memory c1" "set (lru_buffers c2) \<subseteq> set (lru_buffers c1)"
        "\<forall>b\<in>set (lru_buffers c2). buffers c2 b = buffers c1 b" "free_buffers c2 = [] \<longrightarrow> c2 = c1"
        by auto
      have "retains c c2" by (rule retains_trans [OF r1 c2(3)]) (rule keep)
      moreover have "evict_loop n (b # bs) c = Inr c2" using True False c2(1) by (simp add: e(1))
      moreover have "free_buffers c2 \<noteq> []" using c2(9) l1(3) by auto
      ultimately show ?thesis using c2 l1 by auto
    qed
  qed
qed

section \<open>A buffer for a sector\<close>

text \<open>A buffer from the free list or a new object enters the use list and the table.\<close>

definition enter :: "nat \<Rightarrow> nat \<Rightarrow> sector_t \<Rightarrow> nat \<Rightarrow> bufcache \<Rightarrow> bufcache" where
  "enter b fd s n c =
     c\<lparr>buffers := (buffers c)(b := (buffers c b)\<lparr>b_size := n, b_sector := s, b_count := 1, b_fd := fd\<rparr>),
       lru_buffers := lru_buffers c @ [b], buffer_count := buffer_count c + 1,
       buffer_table := (buffer_table c)(buffer_hash s := b # buffer_table c (buffer_hash s))\<rparr>"

lemma enter_ok:
  assumes ok: "cache_ok c" and b: "b \<notin> set (lru_buffers c @ free_buffers c)" "b < next_object c" "b_state (buffers c b) = STATE_INVAL"
    and s: "\<forall>x\<in>set (lru_buffers c). b_sector (buffers c x) \<noteq> s"
  shows "cache_ok (enter b fd s n c)" "retains c (enter b fd s n c)"
proof -
  let ?c = "enter b fd s n c"
  have t: "table_typed c" using ok by (simp add: cache_ok_def)
  have t': "table_typed ?c" using t b s by (auto simp: table_typed_def enter_def inj_on_def)
  have "lists_typed ?c" using ok b by (auto simp: cache_ok_def lists_typed_def in_state_def enter_def)
  moreover have "counts_ok ?c" using ok by (simp add: cache_ok_def counts_ok_def enter_def)
  ultimately show "cache_ok ?c" using t' ok b by (auto simp: cache_ok_def in_state_def enter_def)
  have "cview ?c = cview c"
    by (rule cviewI [OF t t']) (use ok b in \<open>auto simp: cache_ok_def in_state_def enter_def split: if_splits\<close>)
  then show "retains c ?c" using b by (auto simp: retains_def enter_def)
qed

text \<open>Giving up and fetching objects leaves the invariant and the contents alone.\<close>

lemma cview_cong:
  assumes "buffer_table c' = buffer_table c" "device c' = device c" "\<And>i b. b \<in> set (buffer_table c i) \<Longrightarrow> buffers c' b = buffers c b"
  shows "cview c' = cview c"
proof
  fix s
  have "find_buffer c' s = find_buffer c s"
    unfolding find_buffer_def assms(1) by (rule find_cong) (auto simp: assms(3))
  moreover have "buffers c' b = buffers c b" if "find_buffer c s = Some b" for b
    using that assms(3) [of b "buffer_hash s"] by (auto simp: find_buffer_def find_Some_iff)
  ultimately show "cview c' s = cview c s" by (auto simp: cview_def assms(2) split: option.split)
qed

lemma free_popped_ok:
  assumes "cache_ok c" "free_buffers c = b # bs"
  shows "cache_ok (c\<lparr>free_buffers := bs\<rparr>)" "b \<notin> set (lru_buffers c @ bs)" "b < next_object c"
    "b_state (buffers c b) = STATE_INVAL" "b_count (buffers c b) = 0"
  using assms by (auto simp: cache_ok_defs in_state_def)

lemma fresh_object_ok:
  assumes "cache_ok c" "b = next_object c"
  shows "cache_ok (c\<lparr>next_object := b + 1, buffers := (buffers c)(b := x)\<rparr>)" "b \<notin> set (lru_buffers c @ free_buffers c)"
    "cview (c\<lparr>next_object := b + 1, buffers := (buffers c)(b := x)\<rparr>) = cview c"
proof -
  have f: "y \<noteq> b" if "y \<in> set (lru_buffers c @ free_buffers c)" for y using assms that by (auto simp: cache_ok_defs)
  then show nb: "b \<notin> set (lru_buffers c @ free_buffers c)" by auto
  have same: "((buffers c)(b := x)) y = buffers c y" if "y \<in> set (lru_buffers c) \<or> y \<in> set (free_buffers c)" for y using f that by auto
  have in_eq: "in_state (c\<lparr>next_object := b + 1, buffers := (buffers c)(b := x)\<rparr>) st = in_state c st" for st
    using nb by (auto simp: in_state_def)
  have tt: "table_typed (c\<lparr>next_object := b + 1, buffers := (buffers c)(b := x)\<rparr>)"
    using assms(1) same nb unfolding cache_ok_def table_typed_def inj_on_def by auto
  then show "cache_ok (c\<lparr>next_object := b + 1, buffers := (buffers c)(b := x)\<rparr>)"
    using assms(1) nb assms(2) unfolding cache_ok_def in_eq lists_typed_def counts_ok_def
    by (auto simp: in_eq less_Suc_eq in_state_def)
  show "cview (c\<lparr>next_object := b + 1, buffers := (buffers c)(b := x)\<rparr>) = cview c"
    by (rule cview_cong) (use assms(1) nb in \<open>auto simp: cache_ok_def table_typed_def\<close>)
qed

text \<open>
  The whole of \<open>new_buffer\<close> and the entry into the table, on a miss.  It fails
  only if memory runs out or if there are as many buffers as are allowed, none
  of which may be evicted.
\<close>

definition miss :: "nat \<Rightarrow> sector_t \<Rightarrow> nat \<Rightarrow> bufcache \<Rightarrow> (nat option \<times> bufcache) run" where
  "miss fd s n c =
     (case new_buffer s n c of
        Inl f \<Rightarrow> Inl f
      | Inr (None, c) \<Rightarrow> Inr (None, c)
      | Inr (Some b, c) \<Rightarrow> Inr (Some b, (upd_buffer b (\<lambda>x. x\<lparr>b_fd := fd\<rparr>) c)\<lparr>buffer_table :=
           (buffer_table c)(buffer_hash s := b # buffer_table c (buffer_hash s))\<rparr>))"

definition pool_exhausted :: "bufcache \<Rightarrow> bool" where
  "pool_exhausted c \<longleftrightarrow> no_memory c (next_object c) \<or>
     max 100 (max_buffers c) \<le> length (lru_buffers c) \<and> (\<forall>b\<in>set (lru_buffers c). \<not> evictable c b)"

definition entered :: "nat \<Rightarrow> sector_t \<Rightarrow> bufcache \<Rightarrow> bufcache \<Rightarrow> bool" where
  "entered b s c c' \<longleftrightarrow> cache_ok c' \<and> retains c c' \<and> b \<in> set (lru_buffers c') \<and> b_sector (buffers c' b) = s \<and>
     b_count (buffers c' b) = 1 \<and> b_state (buffers c' b) = STATE_INVAL"

lemma miss_have:
  assumes ok: "cache_ok c" and b: "b \<notin> set (lru_buffers c @ free_buffers c)" "b < next_object c" "b_state (buffers c b) = STATE_INVAL" "b_count (buffers c b) = 0"
    and s: "\<forall>x\<in>set (lru_buffers c). b_sector (buffers c x) \<noteq> s"
    and r: "retains c0 c" and k: "\<And>b. b \<in> set (lru_buffers c0) \<Longrightarrow> \<not> evictable c0 b \<Longrightarrow> \<not> evictable c b"
    and run: "new_buffer s n c0 = have_buffer b s n c"
  shows "\<exists>c'. miss fd s n c0 = Inr (Some b, c') \<and> entered b s c0 c'"
proof -
  have "miss fd s n c0 = Inr (Some b, enter b fd s n c)"
    using b(3,4) by (simp add: miss_def run have_buffer_def Let_def upd_buffer_def add_buffer_lru_def enter_def)
  moreover have "cache_ok (enter b fd s n c)" "retains c (enter b fd s n c)" using enter_ok [OF ok b(1,2,3) s] by auto
  moreover have "retains c0 (enter b fd s n c)" by (rule retains_trans [OF r calculation(3)]) (rule k)
  moreover have "b \<in> set (lru_buffers (enter b fd s n c))" "b_sector (buffers (enter b fd s n c) b) = s"
    "b_count (buffers (enter b fd s n c) b) = 1" "b_state (buffers (enter b fd s n c) b) = STATE_INVAL"
    using b(3) by (simp_all add: enter_def)
  ultimately show ?thesis unfolding entered_def by blast
qed

lemma evictable_simps [simp]:
  "evictable (c\<lparr>max_buffers := m\<rparr>) b = evictable c b" "evictable (c\<lparr>free_buffers := fs\<rparr>) b = evictable c b"
  by (simp_all add: evictable_def buffer_dirty_def buffer_journaled_def)

lemma cview_simps [simp]:
  "cview (c\<lparr>max_buffers := m\<rparr>) = cview c" "cview (c\<lparr>free_buffers := fs\<rparr>) = cview c"
  by (rule cview_cong; simp)+

lemma cache_ok_max [simp]: "cache_ok (c\<lparr>max_buffers := m\<rparr>) = cache_ok c"
  by (simp add: cache_ok_defs in_state_def)

text \<open>The two ways to a buffer: from the free list, or a new object.\<close>

lemma miss_pop:
  assumes ok: "cache_ok c" and fl: "free_buffers c = b # bs" and s: "\<forall>x\<in>set (lru_buffers c). b_sector (buffers c x) \<noteq> s"
    and r: "retains c0 c" and k: "\<And>b. b \<in> set (lru_buffers c0) \<Longrightarrow> \<not> evictable c0 b \<Longrightarrow> \<not> evictable c b"
    and run: "new_buffer s n c0 = have_buffer b s n (c\<lparr>free_buffers := bs\<rparr>)"
  shows "\<exists>c'. miss fd s n c0 = Inr (Some b, c') \<and> entered b s c0 c'"
proof (rule miss_have [OF free_popped_ok(1) [OF ok fl] _ _ _ _ _ _ _ run])
  show "retains c0 (c\<lparr>free_buffers := bs\<rparr>)" using r by (simp add: retains_def)
qed (use free_popped_ok [OF ok fl] s k in auto)

lemma miss_alloc:
  assumes ok: "cache_ok c" and s: "\<forall>x\<in>set (lru_buffers c). b_sector (buffers c x) \<noteq> s" and r: "retains c0 c"
    and k: "\<And>b. b \<in> set (lru_buffers c0) \<Longrightarrow> \<not> evictable c0 b \<Longrightarrow> \<not> evictable c b"
    and run: "new_buffer s n c0 = alloc_buffer s n c" and room: "buffer_count c \<noteq> max_buffers c" "\<not> no_memory c (next_object c)"
  shows "\<exists>b c'. miss fd s n c0 = Inr (Some b, c') \<and> entered b s c0 c'"
proof -
  let ?b = "next_object c"
  let ?x = "(buffers c ?b)\<lparr>b_count := 0, b_state := STATE_INVAL, b_size := 0, b_sector := 0, b_fd := 0\<rparr>"
  let ?c = "c\<lparr>next_object := ?b + 1, buffers := (buffers c)(?b := ?x)\<rparr>"
  note f = fresh_object_ok(1) [OF ok refl, of ?x] fresh_object_ok(2) [OF ok refl] fresh_object_ok(3) [OF ok refl, of ?x]
  have run': "new_buffer s n c0 = have_buffer ?b s n ?c"
    using run room by (simp add: alloc_buffer_def Let_def upd_buffer_def)
  have "retains c ?c" using f(2,3) by (auto simp: retains_def)
  then have "retains c0 ?c" by (rule retains_trans [OF r]) (rule k)
  moreover have "\<not> evictable ?c b" if "b \<in> set (lru_buffers c0)" "\<not> evictable c0 b" for b
  proof -
    have "b \<in> set (lru_buffers c)" using r that by (auto simp: retains_def)
    then have "buffers ?c b = buffers c b" using f(2) by auto
    then show ?thesis using k [OF that] evictable_cong [of ?c b c] by simp
  qed
  ultimately show ?thesis
    using miss_have [OF f(1) _ _ _ _ _ _ _ run', where fd = fd] f(2) s by fastforce
qed

lemma miss_ok:
  assumes ok: "cache_ok c" and s: "\<forall>x\<in>set (lru_buffers c). b_sector (buffers c x) \<noteq> s"
  shows "(\<exists>b c'. miss fd s n c = Inr (Some b, c') \<and> entered b s c c') \<or>
    (\<exists>c'. miss fd s n c = Inr (None, c') \<and> cache_ok c' \<and> retains c c' \<and> pool_exhausted c)"
proof -
  let ?c = "if max_buffers c < 100 then c\<lparr>max_buffers := 100\<rparr> else c"
  have c1: "cache_ok ?c" "retains c ?c" "\<And>b. evictable ?c b = evictable c b" "lru_buffers ?c = lru_buffers c" "buffers ?c = buffers c"
    "max_buffers ?c = max 100 (max_buffers c)" "free_buffers ?c = free_buffers c" "no_memory ?c = no_memory c" "next_object ?c = next_object c"
    using ok by (auto simp: retains_def)
  have cnt: "buffer_count x = length (lru_buffers x)" if "cache_ok x" for x using that by (simp add: cache_ok_def counts_ok_def)
  show ?thesis
  proof (cases "free_buffers ?c")
    case (Cons b bs)
    then have "new_buffer s n c = have_buffer b s n (?c\<lparr>free_buffers := bs\<rparr>)" by (simp add: new_buffer_def remove_buffer_free_def Let_def)
    then show ?thesis using miss_pop [OF c1(1) Cons _ c1(2)] s c1(3,4,5) by metis
  next
    case Nil
    show ?thesis
    proof (cases "buffer_count ?c < max_buffers ?c")
      case True
      then have run: "new_buffer s n c = alloc_buffer s n ?c" using Nil by (simp add: new_buffer_def remove_buffer_free_def Let_def)
      show ?thesis
      proof (cases "no_memory ?c (next_object ?c)")
        case nm: True
        then have "miss fd s n c = Inr (None, ?c)" unfolding miss_def run by (simp add: alloc_buffer_def)
        then show ?thesis using c1 nm by (auto simp: pool_exhausted_def)
      next
        case False
        then show ?thesis using miss_alloc [OF c1(1) _ c1(2) _ run _ False] True s c1(3,4,5) by (metis less_irrefl)
      qed
    next
      case full: False
      obtain c2 where e: "evict_loop 0 (lru_buffers ?c) ?c = Inr c2" "cache_ok c2" "retains ?c c2" "max_buffers c2 = max_buffers ?c"
        "set (lru_buffers c2) \<subseteq> set (lru_buffers ?c)" "\<forall>b\<in>set (lru_buffers c2). buffers c2 b = buffers ?c b"
        "free_buffers c2 = [] \<longrightarrow> c2 = ?c \<and> (\<forall>b\<in>set (lru_buffers ?c). \<not> evictable ?c b)"
        using evict_loop_ok [OF c1(1) subset_refl, of 0] c1(1) by (auto simp: cache_ok_def table_typed_def)
      have r: "retains c c2" by (rule retains_trans [OF c1(2) e(3)]) (simp add: c1(3))
      have k: "\<not> evictable c2 b" if "b \<in> set (lru_buffers c)" "\<not> evictable c b" for b
        using r that evictable_cong [of c2 b c] by (auto simp: retains_def)
      have s2: "\<forall>x\<in>set (lru_buffers c2). b_sector (buffers c2 x) \<noteq> s" using e(5,6) s c1(4,5) by auto
      show ?thesis
      proof (cases "free_buffers c2")
        case (Cons b bs)
        then have "new_buffer s n c = have_buffer b s n (c2\<lparr>free_buffers := bs\<rparr>)"
          using Nil full e(1) by (simp add: new_buffer_def remove_buffer_free_def Let_def)
        then show ?thesis using miss_pop [OF e(2) Cons s2 r k] by blast
      next
        case none: Nil
        then have "c2 = ?c" and ne: "\<forall>b\<in>set (lru_buffers c). \<not> evictable c b" using e(7) c1(3,4) by auto
        then have run: "new_buffer s n c = alloc_buffer s n ?c"
          using Nil full e(1) by (simp add: new_buffer_def remove_buffer_free_def Let_def)
        show ?thesis
        proof (cases "buffer_count ?c = max_buffers ?c \<or> no_memory ?c (next_object ?c)")
          case True
          then have "miss fd s n c = Inr (None, ?c)" unfolding miss_def run by (simp add: alloc_buffer_def)
          moreover have "pool_exhausted c" using ne full cnt [OF c1(1)] c1(4,6) unfolding pool_exhausted_def by auto
          ultimately show ?thesis using c1 by blast
        next
          case False
          then show ?thesis using miss_alloc [OF c1(1) _ c1(2) _ run] s c1(3,4,5) by metis
        qed
      qed
    qed
  qed
qed

section \<open>Initialisation\<close>

lemma init_buffers_ok:
  assumes "bufsize \<noteq> 0"
  obtains c' where "init_buffers bufsize pool c = Inr c'" "cache_ok c'" "cview c' = device c" "device c' = device c"
    "dirty_list c' = []" "journaled_list c' = []" "lru_buffers c' = []" "read_fails c' = read_fails c"
proof -
  let ?c = "c\<lparr>buffer_table := (\<lambda>_. []), dirty_list := [], dirty_buffer_count := 0, lru_buffers := [],
     buffer_count := 0, free_buffers := [], journaled_count := 0, journaled_list := [],
     max_buffers := pool div bufsize, max_evict := pool div bufsize div 10\<rparr>"
  obtain c' where c': "c' = snd (preallocate_buffers bufsize ?c)" by blast
  have run: "init_buffers bufsize pool c = Inr c'" using assms by (simp add: init_buffers_def c')
  have f: "buffer_table c' = (\<lambda>_. [])" "dirty_list c' = []" "lru_buffers c' = []" "buffer_count c' = 0" "journaled_list c' = []"
    "journaled_count c' = 0" "dirty_buffer_count c' = 0" "device c' = device c" "read_fails c' = read_fails c"
    unfolding c' preallocate_buffers_def Let_def by simp_all
  have free: "distinct (free_buffers c') \<and> (\<forall>b\<in>set (free_buffers c'). b_count (buffers c' b) = 0 \<and> b_state (buffers c' b) = STATE_INVAL \<and> b < next_object c')"
    unfolding c' preallocate_buffers_def Let_def by simp
  then have "cache_ok c'" by (auto simp: cache_ok_defs in_state_def f)
  moreover have "cview c' = device c" by (auto simp: cview_def find_buffer_def f fun_eq_iff)
  ultimately show thesis using that run f by blast
qed

end
