(* ===== verification/Buffer_Correct.thy ===== *)
theory Buffer_Correct
  imports Buffer_Lemmas
begin

text \<open>
  The properties of the buffer cache: reading through it, and the refinement of
  theory Store by the operations on the states of buffers.
\<close>

section \<open>A small cache\<close>

text \<open>A cache over a device that holds bitmaps everywhere, just initialised for eight blocks; and the metadata store over the same device.\<close>

definition raw_cache :: bufcache where
  "raw_cache = \<lparr>buffers = (\<lambda>_. \<lparr>b_count = 0, b_state = STATE_INVAL, b_size = 0, b_sector = 0, b_data = RawB, b_fd = 0\<rparr>),
     buffer_table = (\<lambda>_. []), dirty_list = [], dirty_buffer_count = 0, lru_buffers = [], buffer_count = 0, free_buffers = [],
     journaled_count = 0, journaled_list = [], max_buffers = 10000, max_evict = 1000, next_object = 0, no_memory = (\<lambda>_. False),
     device = (\<lambda>s. BitmapB [of_nat s]), read_fails = (\<lambda>_. False), write_fails = (\<lambda>_. False)\<rparr>"


section \<open>Reading\<close>

text \<open>A buffer that another part of the server relies on: in use, dirty or journaled, and with data.\<close>

definition relied_on :: "bufcache \<Rightarrow> nat \<Rightarrow> bool" where
  "relied_on c b \<longleftrightarrow> b \<in> set (lru_buffers c) \<and> \<not> evictable c b \<and> b_state (buffers c b) \<noteq> STATE_INVAL"

definition same_but_count :: "bufcache \<Rightarrow> bufcache \<Rightarrow> nat \<Rightarrow> bool" where
  "same_but_count c c' b \<longleftrightarrow> b \<in> set (lru_buffers c') \<and> b_state (buffers c' b) = b_state (buffers c b) \<and>
     b_data (buffers c' b) = b_data (buffers c b) \<and> b_sector (buffers c' b) = b_sector (buffers c b)"

text \<open>The outcome of \<open>getblk\<close>: the count of the buffer has gone up.\<close>

definition got :: "nat \<Rightarrow> sector_t \<Rightarrow> bufcache \<Rightarrow> bufcache \<Rightarrow> bool" where
  "got b s c c' \<longleftrightarrow> cache_ok c' \<and> cview c' = cview c \<and> device c' = device c \<and> read_fails c' = read_fails c \<and>
     b \<in> set (lru_buffers c') \<and> b_sector (buffers c' b) = s \<and> 0 < b_count (buffers c' b) \<and>
     (\<forall>x. relied_on c x \<longrightarrow> same_but_count c c' x)"

lemma getblk_hit:
  assumes ok: "cache_ok c" and b: "find_buffer c s = Some b"
  shows "\<exists>c'. getblk fd s n c = Inr (Some b, c') \<and> got b s c c'"
proof -
  let ?c = "c\<lparr>buffers := (buffers c)(b := (buffers c b)\<lparr>b_count := b_count (buffers c b) + 1\<rparr>),
     lru_buffers := remove1 b (lru_buffers c) @ [b]\<rparr>"
  have t: "table_typed c" using ok by (simp add: cache_ok_def)
  have m: "b \<in> set (lru_buffers c)" "b_sector (buffers c b) = s" using find_buffer_Some [OF t] b by auto
  have d: "distinct (lru_buffers c)" using t by (simp add: table_typed_def)
  have l: "set (remove1 b (lru_buffers c) @ [b]) = set (lru_buffers c)" "length (remove1 b (lru_buffers c) @ [b]) = length (lru_buffers c)"
    "distinct (remove1 b (lru_buffers c) @ [b])"
    using m(1) d by (auto simp: length_remove1 distinct_remove1 dest: length_pos_if_in_set)
  have f: "b_sector (buffers ?c x) = b_sector (buffers c x)" "b_state (buffers ?c x) = b_state (buffers c x)"
    "b_data (buffers ?c x) = b_data (buffers c x)" for x by simp_all
  have i: "in_state ?c st = in_state c st" for st unfolding in_state_def using l(1) by auto
  have t': "table_typed ?c" using t unfolding table_typed_def f by (simp add: l del: set_append)
  have nf: "b \<notin> set (free_buffers c)" using ok m(1) by (auto simp: cache_ok_def lists_typed_def)
  have "lists_typed c" using ok by (simp add: cache_ok_def)
  then have "lists_typed ?c" unfolding lists_typed_def i using nf m(1) by (simp add: d ball_Un insert_absorb) blast
  moreover have "counts_ok ?c" using ok l(2) by (simp add: cache_ok_def counts_ok_def)
  ultimately have ok': "cache_ok ?c" using t' ok unfolding cache_ok_def i f by simp
  have "cview ?c = cview c"
    by (rule cviewI [OF t t']) (use ok l(1) m(1) in \<open>auto simp: cache_ok_def in_state_def\<close>)
  moreover have "getblk fd s n c = Inr (Some b, ?c)" by (simp add: getblk_def b Let_def upd_buffer_def)
  ultimately show ?thesis using ok' l(1) m by (auto simp: got_def relied_on_def same_but_count_def)
qed

lemma getblk_ok:
  assumes ok: "cache_ok c"
  shows "(\<exists>b c'. getblk fd s n c = Inr (Some b, c') \<and> got b s c c') \<or>
    (\<exists>c'. getblk fd s n c = Inr (None, c') \<and> cache_ok c' \<and> retains c c' \<and> pool_exhausted c)"
proof (cases "find_buffer c s")
  case (Some b) then show ?thesis using getblk_hit [OF ok] by blast
next
  case None
  have t: "table_typed c" using ok by (simp add: cache_ok_def)
  have "getblk fd s n c = miss fd s n c"
    by (simp add: getblk_def None miss_def Let_def upd_buffer_def split: sum.split prod.split option.split)
  moreover have "got b s c c'" if "entered b s c c'" for b c'
    using that by (auto simp: entered_def got_def retains_def relied_on_def same_but_count_def)
  ultimately show ?thesis using miss_ok [OF ok, of s fd n] None find_buffer_None [OF t] by fastforce
qed

text \<open>Filling a buffer that holds nothing, and giving back the use of a buffer.\<close>

lemma fill_ok:
  assumes ok: "cache_ok c" and b: "b \<in> set (lru_buffers c)" "b_state (buffers c b) = STATE_INVAL"
    and rd: "\<not> read_fails c (b_sector (buffers c b))"
  obtains c' where "read_buffer b c = (True, c')" "cache_ok c'" "cview c' = cview c"
    "c' = c\<lparr>buffers := (buffers c)(b := (buffers c b)\<lparr>b_data := device c (b_sector (buffers c b)), b_state := STATE_CLEAN\<rparr>)\<rparr>"
proof -
  let ?c = "c\<lparr>buffers := (buffers c)(b := (buffers c b)\<lparr>b_data := device c (b_sector (buffers c b)), b_state := STATE_CLEAN\<rparr>)\<rparr>"
  have run: "read_buffer b c = (True, ?c)"
    using rd b(2) by (simp add: read_buffer_def Let_def buf_set_uptodate_def buffer_dirty_def buffer_journaled_def upd_buffer_def set_state_def)
  have t: "table_typed c" using ok by (simp add: cache_ok_def)
  have f: "b_sector (buffers ?c x) = b_sector (buffers c x)" for x by simp
  have t': "table_typed ?c" using t unfolding table_typed_def f by (simp add: inj_on_def)
  have "lists_typed ?c" using ok b unfolding cache_ok_def lists_typed_def in_state_def by auto
  then have ok': "cache_ok ?c" using t' ok b by (auto simp: cache_ok_def counts_ok_def in_state_def)
  have "cview ?c = cview c"
    by (rule cviewI [OF t t']) (use ok b in \<open>auto simp: cache_ok_def in_state_def split: if_splits\<close>)
  with run ok' show thesis using that by blast
qed

lemma brelse_ok:
  assumes ok: "cache_ok c" and b: "b \<in> set (lru_buffers c)" "0 < b_count (buffers c b)"
  obtains c' where "brelse b c = Inr c'" "cache_ok c'" "cview c' = cview c"
    "c' = c\<lparr>buffers := (buffers c)(b := (buffers c b)\<lparr>b_count := b_count (buffers c b) - 1\<rparr>)\<rparr>"
proof -
  let ?c = "c\<lparr>buffers := (buffers c)(b := (buffers c b)\<lparr>b_count := b_count (buffers c b) - 1\<rparr>)\<rparr>"
  have f: "b_sector (buffers ?c x) = b_sector (buffers c x)" "b_state (buffers ?c x) = b_state (buffers c x)"
    "b_data (buffers ?c x) = b_data (buffers c x)" for x by simp_all
  have i: "in_state ?c st = in_state c st" for st unfolding in_state_def by auto
  have t: "table_typed c" using ok by (simp add: cache_ok_def)
  have t': "table_typed ?c" using t unfolding table_typed_def f by (simp add: inj_on_def)
  have "lists_typed ?c" using ok b(1) unfolding cache_ok_def lists_typed_def i by auto
  then have "cache_ok ?c" using t' ok unfolding cache_ok_def i f by (simp add: counts_ok_def)
  moreover have "cview ?c = cview c"
    by (rule cviewI [OF t t']) (use ok b in \<open>auto simp: cache_ok_def in_state_def\<close>)
  moreover have "brelse b c = Inr ?c" using b(2) by (simp add: brelse_def upd_buffer_def)
  ultimately show thesis using that by blast
qed

text \<open>
  C10: reading through the cache returns the current contents of the sector.
  \<open>bread\<close> never runs into one of its assertions; the buffer it returns is that
  of the sector, is in use, and holds what was last written to the sector,
  whether this is still only in the cache or has been evicted and read again.
  The call leaves the contents of all sectors alone, it evicts no buffer that is
  in use, dirty or journaled, and it fails only if the device cannot be read,
  if memory has run out, or if all buffers that the pool may hold are needed.
\<close>

theorem buf_bread_correct:
  assumes ok: "cache_ok c"
  shows "\<exists>r c'. buf_bread fd s n c = Inr (r, c') \<and> cache_ok c' \<and> cview c' = cview c \<and>
    (\<forall>x. relied_on c x \<longrightarrow> same_but_count c c' x) \<and>
    (case r of
       Some b \<Rightarrow> b \<in> set (lru_buffers c') \<and> b_sector (buffers c' b) = s \<and> 0 < b_count (buffers c' b) \<and>
         b_state (buffers c' b) \<noteq> STATE_INVAL \<and> b_data (buffers c' b) = cview c s
     | None \<Rightarrow> read_fails c s \<or> pool_exhausted c)"
  using getblk_ok [OF ok, of fd s n]
proof (elim disjE exE conjE)
  fix c1 assume g: "getblk fd s n c = Inr (None, c1)" "cache_ok c1" "retains c c1" "pool_exhausted c"
  then show ?thesis by (auto simp: buf_bread_def retains_def relied_on_def same_but_count_def)
next
  fix b c1 assume g: "getblk fd s n c = Inr (Some b, c1)" and got: "got b s c c1"
  have c1: "cache_ok c1" "cview c1 = cview c" "b \<in> set (lru_buffers c1)" "b_sector (buffers c1 b) = s" "0 < b_count (buffers c1 b)"
    "read_fails c1 = read_fails c" and keep: "\<And>x. relied_on c x \<Longrightarrow> same_but_count c c1 x" using got by (auto simp: got_def)
  have t: "table_typed c1" using c1(1) by (simp add: cache_ok_def)
  have v: "cview c s = (if b_state (buffers c1 b) = STATE_INVAL then device c1 s else b_data (buffers c1 b))"
    using cview_held [OF t c1(3)] c1(2,4) by simp
  show ?thesis
  proof (cases "b_state (buffers c1 b) = STATE_INVAL")
    case False
    then have "buf_bread fd s n c = Inr (Some b, c1)" by (simp add: buf_bread_def g)
    with False c1 keep v show ?thesis by auto
  next
    case True
    have nb: "\<not> relied_on c b"
    proof
      assume "relied_on c b"
      then show False using keep [of b] True by (simp add: same_but_count_def relied_on_def)
    qed
    show ?thesis
    proof (cases "read_fails c1 (b_sector (buffers c1 b))")
      case fails: True
      obtain c2 where r: "brelse b c1 = Inr c2" "cache_ok c2" "cview c2 = cview c1"
        "c2 = c1\<lparr>buffers := (buffers c1)(b := (buffers c1 b)\<lparr>b_count := b_count (buffers c1 b) - 1\<rparr>)\<rparr>"
        by (rule brelse_ok [OF c1(1,3,5)])
      have "buf_bread fd s n c = Inr (None, c2)" using True fails r(1) by (simp add: buf_bread_def g read_buffer_def)
      moreover have "same_but_count c c2 x" if "relied_on c x" for x using keep [OF that] by (auto simp: r(4) same_but_count_def)
      ultimately show ?thesis using r(2,3) c1 fails by auto
    next
      case False
      obtain c2 where r: "read_buffer b c1 = (True, c2)" "cache_ok c2" "cview c2 = cview c1"
        "c2 = c1\<lparr>buffers := (buffers c1)(b := (buffers c1 b)\<lparr>b_data := device c1 (b_sector (buffers c1 b)), b_state := STATE_CLEAN\<rparr>)\<rparr>"
        by (rule fill_ok [OF c1(1,3) True False])
      have "buf_bread fd s n c = Inr (Some b, c2)" using True r(1) by (simp add: buf_bread_def g buffer_uptodate_def r(4))
      moreover have "same_but_count c c2 x" if "relied_on c x" for x using keep [OF that] that nb by (auto simp: r(4) same_but_count_def)
      ultimately show ?thesis using r(2,3) c1 v True by (auto simp: r(4))
    qed
  qed
qed

theorem buf_bread_correct_witness:
  "\<exists>c. init_buffers 4096 32768 raw_cache = Inr c \<and> cache_ok c \<and>
     (\<exists>b c'. buf_bread 3 40 4096 c = Inr (Some b, c') \<and> cache_ok c' \<and> b_data (buffers c' b) = BitmapB [40])"
proof -
  obtain c where c: "init_buffers 4096 32768 raw_cache = Inr c" "cache_ok c" "cview c = device raw_cache" "lru_buffers c = []"
    "read_fails c = read_fails raw_cache" by (rule init_buffers_ok [of 4096 32768 raw_cache]) auto
  have "no_memory c = no_memory raw_cache" using c(1) by (auto simp: init_buffers_def preallocate_buffers_def Let_def)
  then have "\<not> pool_exhausted c" "\<not> read_fails c 40" using c(4,5) by (simp_all add: pool_exhausted_def raw_cache_def)
  then show ?thesis using buf_bread_correct [OF c(2), of 3 40 4096] c(1,2,3)
    by (fastforce simp: raw_cache_def split: option.splits)
qed

section \<open>Refinement of the metadata store\<close>
















end
