(* ===== verification/Diskio.thy ===== *)
theory Diskio
  imports Prelude
begin

text \<open>
  Transfers between memory and file descriptors (\<open>src/ddsnap/diskio.c\<close>).

  \<open>fdio\<close> repeats a system call until all bytes are transferred.  What the
  calls return is the argument \<open>calls\<close>; a list that ends before the loop does
  stands for calls that have not returned yet.  On top of it stand the
  transfers that the other components use: positioned reads and writes of a
  device, which is the list of its bytes, and reads of a stream.
\<close>

type_synonym bytes = "u8 list"

section \<open>The transfer loop\<close>

datatype syscall = Transferred nat | Interrupted | SysError errno

text \<open>
  The result holds the outcome, with \<open>None\<close> for a transfer that is still
  going on, and the pieces that were transferred, each with its offset in the
  file and its offset in memory.
\<close>

datatype outcome = Complete | Failed errno

fun fdio :: "syscall list \<Rightarrow> nat \<Rightarrow> nat \<Rightarrow> nat \<Rightarrow> outcome option \<times> (nat \<times> nat \<times> nat) list" where
  "fdio calls data count offset =
     (if count = 0 then (Some Complete, [])
      else
        (case calls of
           [] \<Rightarrow> (None, [])
         | Interrupted # calls \<Rightarrow> fdio calls data count offset
         | SysError e # calls \<Rightarrow> (Some (Failed e), [])
         | Transferred n # calls \<Rightarrow>
             if n = 0 then (Some (Failed EIO), [])
             else (case fdio calls (data + n) (count - n) (offset + n) of
                     (r, pieces) \<Rightarrow> (r, (offset, data, n) # pieces))))"

declare fdio.simps [simp del]

section \<open>Devices\<close>

definition diskread :: "bytes \<Rightarrow> nat \<Rightarrow> nat \<Rightarrow> errno + bytes" where
  "diskread dev count offset =
     (if count = 0 then Inr []
      else if offset + count \<le> length dev then Inr (take count (drop offset dev))
      else Inl EIO)"

text \<open>A write behind the end of a device transfers what fits and then fails.\<close>

definition patch :: "nat \<Rightarrow> bytes \<Rightarrow> bytes \<Rightarrow> bytes" where
  "patch offset data dev =
     take offset dev @ take (length dev - offset) data @ drop (offset + length data) dev"

definition diskwrite :: "bytes \<Rightarrow> bytes \<Rightarrow> nat \<Rightarrow> errno option \<times> bytes" where
  "diskwrite dev data offset =
     (if data = [] then (None, dev)
      else (if offset + length data \<le> length dev then None else Some EIO, patch offset data dev))"

section \<open>Streams\<close>

definition fdread :: "nat \<Rightarrow> bytes \<Rightarrow> errno + bytes \<times> bytes" where
  "fdread count stream =
     (if count \<le> length stream then Inr (take count stream, drop count stream) else Inl EIO)"

text \<open>\<open>wr\<close> tells which write of the stream fails, by the number of bytes written before it.\<close>

definition fdwrite :: "(nat \<Rightarrow> errno option) \<Rightarrow> bytes \<Rightarrow> bytes \<Rightarrow> errno + bytes" where
  "fdwrite wr data stream = (case wr (length stream) of Some e \<Rightarrow> Inl e | None \<Rightarrow> Inr (stream @ data))"

section \<open>Little-endian integers\<close>

fun le_bytes :: "nat \<Rightarrow> nat \<Rightarrow> bytes" where
  "le_bytes 0 n = []"
| "le_bytes (Suc k) n = of_nat n # le_bytes k (n div 256)"

fun le_value :: "bytes \<Rightarrow> nat" where
  "le_value [] = 0"
| "le_value (b # bs) = unat b + 256 * le_value bs"

lemma length_le_bytes [simp]: "length (le_bytes k n) = k"
  by (induction k arbitrary: n) auto

lemma le_value_bytes: "le_value (le_bytes k n) = n mod 256 ^ k"
  by (induction k arbitrary: n) (simp_all add: unat_of_nat mod_mult2_eq)

lemma le_value_bytes_id [simp]: "n < 256 ^ k \<Longrightarrow> le_value (le_bytes k n) = n"
  by (simp add: le_value_bytes)

section \<open>Lemmas\<close>

lemma length_patch [simp]: "offset + length data \<le> length dev \<Longrightarrow> length (patch offset data dev) = length dev"
  by (simp add: patch_def)

lemma nth_patch:
  assumes "offset + length data \<le> length dev" "i < length dev"
  shows "patch offset data dev ! i = (if offset \<le> i \<and> i < offset + length data then data ! (i - offset) else dev ! i)"
  using assms by (auto simp: patch_def nth_append min_def)

lemma diskread_length: "diskread dev count offset = Inr d \<Longrightarrow> length d = count"
  by (auto simp: diskread_def split: if_splits)

lemma diskread_nth: "diskread dev count offset = Inr d \<Longrightarrow> i < count \<Longrightarrow> d ! i = dev ! (offset + i)"
  by (auto simp: diskread_def split: if_splits)

lemma diskread_bound: "diskread dev count offset = Inr d \<Longrightarrow> 0 < count \<Longrightarrow> offset + count \<le> length dev"
  by (auto simp: diskread_def split: if_splits)

lemma diskread_mem_bound: "diskread dev count offset = Inr d \<Longrightarrow> count \<le> length dev"
  by (auto simp: diskread_def split: if_splits)

section \<open>Correctness of the transfer loop\<close>

text \<open>A call transfers at most the bytes it was asked for.\<close>

fun calls_ok :: "syscall list \<Rightarrow> nat \<Rightarrow> bool" where
  "calls_ok [] count = True"
| "calls_ok (Transferred n # calls) count = (n \<le> count \<and> calls_ok calls (count - n))"
| "calls_ok (c # calls) count = calls_ok calls count"

text \<open>The bytes that were transferred, each as its offset in the file and its place in memory.\<close>

definition moved :: "(nat \<times> nat \<times> nat) list \<Rightarrow> (nat \<times> nat) list" where
  "moved pieces = concat (map (\<lambda>(off, d, n). map (\<lambda>i. (off + i, d + i)) [0..<n]) pieces)"

lemma map_split_range: "map f [0..<n + m] = map f [0..<n] @ map (\<lambda>i. f (n + i)) [0..<m]"
  by (rule nth_equalityI) (auto simp: nth_append)

text \<open>
  C38. A transfer moves a prefix of the range it was asked for, in order and
  without gaps or overlaps, whatever sequence of short transfers and
  interruptions the system calls produce; it reports completion exactly if the
  prefix is the whole range.
\<close>

theorem fdio_moves_prefix:
  assumes "calls_ok calls count" "fdio calls data count offset = (r, pieces)"
  shows "\<exists>m\<le>count. moved pieces = map (\<lambda>i. (offset + i, data + i)) [0..<m] \<and> (r = Some Complete \<longleftrightarrow> m = count)"
  using assms
proof (induction calls arbitrary: data count offset r pieces)
  case Nil
  then show ?case by (auto simp: fdio.simps moved_def split: if_splits)
next
  case (Cons c calls)
  show ?case
  proof (cases "count = 0")
    case True
    then show ?thesis using Cons.prems by (auto simp: fdio.simps moved_def)
  next
    case False
    show ?thesis
    proof (cases c)
      case (Transferred n)
      show ?thesis
      proof (cases "n = 0")
        case True
        then show ?thesis using Cons.prems False Transferred by (intro exI [of _ 0]) (auto simp: fdio.simps moved_def)
      next
        case n: False
        obtain r' ps where t: "fdio calls (data + n) (count - n) (offset + n) = (r', ps)" by fastforce
        then have r: "r = r'" "pieces = (offset, data, n) # ps"
          using Cons.prems(2) False n by (auto simp: fdio.simps [of "Transferred n # calls"] Transferred)
        have ok: "n \<le> count" "calls_ok calls (count - n)" using Cons.prems(1) Transferred by auto
        obtain m where m: "m \<le> count - n" "moved ps = map (\<lambda>i. (offset + n + i, data + n + i)) [0..<m]"
          "r' = Some Complete \<longleftrightarrow> m = count - n"
          using Cons.IH [OF ok(2) t] by blast
        have "moved pieces = map (\<lambda>i. (offset + i, data + i)) [0..<n + m]"
          unfolding map_split_range using m(2) by (simp add: moved_def r add.assoc)
        then show ?thesis using m(1,3) ok(1) by (intro exI [of _ "n + m"]) (auto simp: r)
      qed
    next
      case Interrupted
      then have "fdio calls data count offset = (r, pieces)" "calls_ok calls count"
        using Cons.prems False by (auto simp: fdio.simps [of "Interrupted # calls"])
      from Cons.IH [OF this(2,1)] show ?thesis .
    next
      case (SysError e)
      then show ?thesis using Cons.prems False by (intro exI [of _ 0]) (auto simp: fdio.simps moved_def)
    qed
  qed
qed

theorem fdio_moves_prefix_witness:
  "\<exists>m\<le>5. moved (snd (fdio [Transferred 2, Interrupted, Transferred 3] 100 5 40)) = map (\<lambda>i. (40 + i, 100 + i)) [0..<m] \<and>
     (fst (fdio [Transferred 2, Interrupted, Transferred 3] 100 5 40) = Some Complete \<longleftrightarrow> m = 5)"
  by (rule fdio_moves_prefix) simp_all

end
