(* ===== verification/Delta_Chunk.thy ===== *)
theory Delta_Chunk
  imports Diskio
begin

text \<open>
  The binding to the xdelta library (\<open>src/ddsnap/delta.c\<close>): a delta is made or
  applied by calling a step function of the library until it reports the end
  of the window, collecting its output in a buffer of fixed size.

  The stream of the library is the type \<open>'s\<close>.  The arguments are the step
  function that \<open>delta_chunk_helper\<close> is given, the output that a stream has
  ready, the function that tells the library that the output was taken, and
  the preparation of a stream for two inputs, which can fail.
\<close>

datatype xd3_code =
  XD3_INPUT | XD3_OUTPUT | XD3_GETSRCBLK | XD3_GOTHEADER | XD3_WINSTART | XD3_WINFINISH | XD3_OTHER

record 's xd3 =
  func :: "'s \<Rightarrow> xd3_code \<times> 's"
  next_out :: "'s \<Rightarrow> bytes"
  consume_output :: "'s \<Rightarrow> 's"
  set_source :: "nat \<Rightarrow> bytes \<Rightarrow> bytes \<Rightarrow> 's option"

definition SUCCESS_DELTA :: int where [simp]: "SUCCESS_DELTA = 0"
definition UNKNOWN_ERROR :: int where [simp]: "UNKNOWN_ERROR = -1"
definition BUFFER_SIZE_ERROR :: int where [simp]: "BUFFER_SIZE_ERROR = -2"

text \<open>A stream that asks for a block of the source is stepped again, as all codes that are no error.\<close>

partial_function (option) delta_loop :: "'s xd3 \<Rightarrow> nat \<Rightarrow> 's \<Rightarrow> bytes \<Rightarrow> (int \<times> bytes) option" where
  "delta_loop lib max_size stream output =
     (let (code, stream) = func lib stream
      in if code = XD3_OUTPUT then
           (if length output + length (next_out lib stream) > max_size then Some (BUFFER_SIZE_ERROR, output)
            else delta_loop lib max_size (consume_output lib stream) (output @ next_out lib stream))
         else if code = XD3_WINFINISH then Some (SUCCESS_DELTA, output)
         else if code = XD3_INPUT \<or> code = XD3_OTHER then Some (UNKNOWN_ERROR, output)
         else delta_loop lib max_size stream output)"

definition delta_chunk_helper :: "'s xd3 \<Rightarrow> bytes \<Rightarrow> bytes \<Rightarrow> nat \<Rightarrow> (int \<times> bytes) option" where
  "delta_chunk_helper lib input1 input2 max_size =
     (case set_source lib max_size input1 input2 of
        None \<Rightarrow> Some (UNKNOWN_ERROR, [])
      | Some stream \<Rightarrow> delta_loop lib max_size stream [])"

definition create_delta_chunk :: "'s xd3 \<Rightarrow> bytes \<Rightarrow> bytes \<Rightarrow> nat \<Rightarrow> (int \<times> bytes) option" where
  "create_delta_chunk encoder buff1 buff2 buff_size = delta_chunk_helper encoder buff1 buff2 buff_size"

definition apply_delta_chunk :: "'s xd3 \<Rightarrow> bytes \<Rightarrow> bytes \<Rightarrow> nat \<Rightarrow> (int \<times> bytes) option" where
  "apply_delta_chunk decoder buff1 delta buff_size =
     (case delta_chunk_helper decoder buff1 delta buff_size of
        None \<Rightarrow> None
      | Some (ret, out) \<Rightarrow> Some (if ret = SUCCESS_DELTA then int (length out) else ret, out))"

section \<open>The output fits\<close>

lemma delta_loop_bound:
  assumes "delta_loop lib max_size stream acc = Some r" "length acc \<le> max_size"
  shows "length (snd r) \<le> max_size"
proof -
  have "length acc \<le> max_size \<longrightarrow> length (snd r) \<le> max_size"
    by (rule delta_loop.raw_induct
        [where P = "\<lambda>lib max_size stream acc r. length acc \<le> max_size \<longrightarrow> length (snd r) \<le> max_size", OF _ assms(1)])
      (auto simp: Let_def split: prod.splits if_splits)
  with assms(2) show ?thesis by simp
qed

lemma delta_chunk_helper_bound:
  "delta_chunk_helper lib input1 input2 max_size = Some (ret, out) \<Longrightarrow> length out \<le> max_size"
  using delta_loop_bound [of lib max_size _ "[]"] by (fastforce simp: delta_chunk_helper_def split: option.splits)

end
