(* ===== verification/Delta.thy ===== *)
theory Delta
  imports Delta_Chunk Changelist
begin

text \<open>
  Replication of a volume (\<open>src/ddsnap/ddsnap.c\<close>): change lists in files, the
  stream of extents that turns one snapshot into another, and its application
  to the downstream volume.

  The compression library and the delta coder are arguments, bundled in a
  record; a routine of them that never returns has the result \<open>None\<close>.  Buffers
  of fixed size are functions from offsets to bytes; what a buffer holds
  before it is first written is an argument too.
\<close>

section \<open>Constants and headers\<close>

definition MAX_MEM_SIZE :: nat where "MAX_MEM_SIZE = 2 ^ 20"
definition MAGIC_NUM :: nat where [simp]: "MAGIC_NUM = 0xbead0023"
definition XDELTA :: nat where [simp]: "XDELTA = 1"
definition RAW :: nat where [simp]: "RAW = 2"
definition BEST_COMP :: nat where [simp]: "BEST_COMP = 4"

record delta_extent_header =
  magic_num :: nat
  de_mode :: nat
  gzip_on :: nat
  extent_addr :: nat
  num_of_chunks :: nat
  extents_delta_length :: nat
  ext1_chksum :: nat
  ext2_chksum :: nat

definition encode_deh :: "delta_extent_header \<Rightarrow> bytes" where
  "encode_deh d =
     le_bytes 4 (magic_num d) @ le_bytes 4 (de_mode d) @ le_bytes 4 (gzip_on d) @ le_bytes 8 (extent_addr d) @
     le_bytes 8 (num_of_chunks d) @ le_bytes 8 (extents_delta_length d) @ le_bytes 8 (ext1_chksum d) @
     le_bytes 8 (ext2_chksum d)"

definition decode_deh :: "bytes \<Rightarrow> delta_extent_header" where
  "decode_deh bs =
     \<lparr>magic_num = le_value (take 4 bs), de_mode = le_value (take 4 (drop 4 bs)),
      gzip_on = le_value (take 4 (drop 8 bs)), extent_addr = le_value (take 8 (drop 12 bs)),
      num_of_chunks = le_value (take 8 (drop 20 bs)), extents_delta_length = le_value (take 8 (drop 28 bs)),
      ext1_chksum = le_value (take 8 (drop 36 bs)), ext2_chksum = le_value (take 8 (drop 44 bs))\<rparr>"

definition sizeof_deh :: nat where [simp]: "sizeof_deh = 52"

definition checksum :: "bytes \<Rightarrow> nat" where
  "checksum data = fold (\<lambda>b result. (result + unat b) mod 2 ^ 64) data 0"

section \<open>Change list files\<close>

definition CHANGELIST_MAGIC_ID :: bytes where
  "CHANGELIST_MAGIC_ID = map (of_nat \<circ> of_char) ''rln'' @ replicate 5 0"

text \<open>The comparison of the magic stops at the first zero.\<close>

definition write_changelist :: "change_list \<Rightarrow> bytes" where
  "write_changelist cl =
     CHANGELIST_MAGIC_ID @ le_bytes 4 (cl_chunksize_bits cl) @ le_bytes 4 (src_snap cl) @ le_bytes 4 (tgt_snap cl) @
     concat (map (le_bytes 8) (take (cl_count cl) (cl_chunks cl))) @ le_bytes 8 (2 ^ 64 - 1)"

fun read_chunks :: "bytes \<Rightarrow> change_list \<Rightarrow> change_list run" where
  "read_chunks stream cl =
     (if stream = [] then Inr cl
      else if length stream < 8 then Inl Exit
      else
        (let chunkaddr = le_value (take 8 stream)
         in if chunkaddr = 2 ^ 64 - 1 then Inr cl
            else read_chunks (drop 8 stream) (append_change_list chunkaddr cl)))"

declare read_chunks.simps [simp del]

definition read_changelist :: "bytes \<Rightarrow> change_list option run" where
  "read_changelist file =
     (case fdread 20 file of
        Inl e \<Rightarrow> Inr None
      | Inr (clh, stream) \<Rightarrow>
          if take 4 clh \<noteq> take 4 CHANGELIST_MAGIC_ID then Inr None
          else
            (case read_chunks stream
                    (init_change_list (le_value (take 4 (drop 8 clh))) (le_value (take 4 (drop 12 clh)))
                       (le_value (take 4 (drop 16 clh)))) of
               Inl f \<Rightarrow> Inl f
             | Inr cl \<Rightarrow> Inr (Some cl)))"

section \<open>Compression and delta coding of an extent\<close>

datatype zres = Z_OK bytes | Z_MEM_ERROR | Z_BUF_ERROR | Z_STREAM_ERROR | Z_DATA_ERROR

record codec =
  compress2 :: "nat \<Rightarrow> bytes \<Rightarrow> int \<Rightarrow> zres"
  uncompress :: "nat \<Rightarrow> bytes \<Rightarrow> zres"
  xd_create :: "bytes \<Rightarrow> bytes \<Rightarrow> nat \<Rightarrow> (int \<times> bytes) option"
  xd_apply :: "bytes \<Rightarrow> bytes \<Rightarrow> nat \<Rightarrow> (int \<times> bytes) option"

text \<open>
  How a routine ends early: it writes or reads past the end of a buffer, a
  library call never returns, or it leaves by \<open>goto out\<close> with the value of
  \<open>err\<close>, which is \<open>None\<close> if \<open>err\<close> is zero.
\<close>

datatype halt = Overrun | Hang | Out "errno option"

definition create_raw_delta :: "delta_extent_header \<Rightarrow> bytes \<Rightarrow> delta_extent_header \<times> bytes \<times> nat" where
  "create_raw_delta deh input =
     (deh\<lparr>de_mode := RAW, extents_delta_length := length input\<rparr>, input, length input)"

text \<open>
  The size of the delta is stored in the lower half of the 64 bit variable
  only; \<open>delta_size\<close> is its value before.
\<close>

definition create_xdelta_delta ::
  "codec \<Rightarrow> delta_extent_header \<Rightarrow> bytes \<Rightarrow> bytes \<Rightarrow> nat \<Rightarrow> halt + delta_extent_header \<times> bytes \<times> nat" where
  "create_xdelta_delta cd deh input1 input2 delta_size =
     (case xd_create cd input1 input2 (length input2) of
        None \<Rightarrow> Inl Hang
      | Some (ret, out) \<Rightarrow>
          (let output_size = delta_size div 2 ^ 32 * 2 ^ 32 + length out;
               deh = deh\<lparr>de_mode := XDELTA, extents_delta_length := output_size\<rparr>
           in if ret = BUFFER_SIZE_ERROR \<or> output_size = length input2 then Inr (create_raw_delta deh input2)
              else if ret < 0 then Inl (Out (Some ERANGE))
              else
                (case xd_apply cd input1 out (length input2) of
                   None \<Rightarrow> Inl Hang
                 | Some (ret, delta_test) \<Rightarrow>
                     if ret \<noteq> int (length input2) then Inl (Out (Some ERANGE))
                     else if delta_test \<noteq> input2 then Inr (create_raw_delta deh input2)
                     else Inr (deh, out, output_size))))"

definition gzip_on_delta :: "codec \<Rightarrow> int \<Rightarrow> delta_extent_header \<Rightarrow> bytes \<Rightarrow> halt + delta_extent_header \<times> bytes" where
  "gzip_on_delta cd level deh input =
     (case compress2 cd (length input + 12 + length input div 2 ^ 9) input level of
        Z_MEM_ERROR \<Rightarrow> Inl (Out (Some ENOMEM))
      | Z_BUF_ERROR \<Rightarrow> Inl (Out (Some ERANGE))
      | Z_STREAM_ERROR \<Rightarrow> Inl (Out (Some ERANGE))
      | Z_DATA_ERROR \<Rightarrow> Inr (deh\<lparr>gzip_on := 0, extents_delta_length := length input\<rparr>, input)
      | Z_OK out \<Rightarrow>
          if length out < length input then Inr (deh\<lparr>gzip_on := 1, extents_delta_length := length out\<rparr>, out)
          else Inr (deh\<lparr>gzip_on := 0, extents_delta_length := length input\<rparr>, input))"

section \<open>Making a stream of extents\<close>

text \<open>\<open>beyond\<close> is what the memory behind the array of chunk addresses holds.\<close>

definition chunk_at :: "(nat \<Rightarrow> nat) \<Rightarrow> change_list \<Rightarrow> nat \<Rightarrow> nat" where
  "chunk_at beyond cl i = (if i < cl_count cl then cl_chunks cl ! i else beyond i)"

function extent_run :: "(nat \<Rightarrow> nat) \<Rightarrow> nat \<Rightarrow> nat \<Rightarrow> nat \<Rightarrow> nat" where
  "extent_run chunk pos limit n =
     (if chunk (pos + n) = (chunk pos + n) mod 2 ^ 64 \<and> n < limit then extent_run chunk pos limit (n + 1) else n)"
  by pat_completeness auto
termination by (relation "measure (\<lambda>(_, _, limit, n). limit - n)") auto

declare extent_run.simps [simp del]

definition chunks_in_extent :: "(nat \<Rightarrow> nat) \<Rightarrow> change_list \<Rightarrow> nat \<Rightarrow> nat \<Rightarrow> nat" where
  "chunks_in_extent beyond cl pos chunk_size = extent_run (chunk_at beyond cl) pos (MAX_MEM_SIZE div chunk_size) 1"

text \<open>Address, number of chunks and size of the extent that starts at an entry of the change list.\<close>

definition next_extent :: "bool \<Rightarrow> (nat \<Rightarrow> nat) \<Rightarrow> change_list \<Rightarrow> nat \<Rightarrow> nat \<times> nat \<times> nat" where
  "next_extent fullvolume beyond cl chunk_num =
     (let chunk_size = 2 ^ cl_chunksize_bits cl
      in if fullvolume then (chunk_num * chunk_size mod 2 ^ 64, 1, chunk_size)
         else
           (let n = (if chunk_num = cl_count cl - 1 then 1 else chunks_in_extent beyond cl chunk_num chunk_size)
            in (chunk_at beyond cl chunk_num * chunk_size mod 2 ^ 64, n, chunk_size * n mod 2 ^ 64)))"

text \<open>The test for the last extent of a volume; the difference is unsigned.\<close>

definition passes_end :: "bytes \<Rightarrow> nat \<Rightarrow> nat \<Rightarrow> bool" where
  "passes_end vol addr sz \<longleftrightarrow> addr > u64_sub (length vol) sz"

definition clip_extent :: "bytes \<Rightarrow> nat \<Rightarrow> nat \<Rightarrow> nat" where
  "clip_extent vol addr sz = (if passes_end vol addr sz then u64_sub (length vol) addr else sz)"

definition overwrite :: "bytes \<Rightarrow> (nat \<Rightarrow> u8) \<Rightarrow> nat \<Rightarrow> u8" where
  "overwrite data buf i = (if i < length data then data ! i else buf i)"

definition contents :: "nat \<Rightarrow> (nat \<Rightarrow> u8) \<Rightarrow> bytes" where
  "contents n buf = map buf [0..<n]"

text \<open>A transfer from a device into a buffer of \<open>MAX_MEM_SIZE\<close> bytes.\<close>

definition read_extent :: "bytes \<Rightarrow> nat \<Rightarrow> nat \<Rightarrow> halt + bytes" where
  "read_extent vol sz addr =
     (if sz > MAX_MEM_SIZE then Inl Overrun
      else case diskread vol sz addr of Inl e \<Rightarrow> Inl (Out (Some e)) | Inr d \<Rightarrow> Inr d)"

record generator =
  dev1_extent :: "nat \<Rightarrow> u8"
  gen_delta_size :: nat
  gen_chksum1 :: nat
  deltafile :: bytes

text \<open>The part of the source snapshot that an extent covers, if any.\<close>

definition source_extent :: "bytes \<Rightarrow> nat \<Rightarrow> nat \<Rightarrow> halt + bytes" where
  "source_extent vol addr sz =
     read_extent vol (if passes_end vol addr sz then length vol - addr else sz) addr"

definition load_source :: "bytes option \<Rightarrow> nat \<Rightarrow> nat \<Rightarrow> generator \<Rightarrow> halt + generator" where
  "load_source source addr sz g =
     (case source of
        None \<Rightarrow> Inr g
      | Some vol \<Rightarrow>
          if length vol > addr then
            (case source_extent vol addr sz of
               Inl h \<Rightarrow> Inl h
             | Inr d \<Rightarrow> Inr (g\<lparr>dev1_extent := overwrite d (dev1_extent g), gen_chksum1 := checksum d\<rparr>))
          else Inr g)"

definition best_compression ::
  "codec \<Rightarrow> nat \<Rightarrow> int \<Rightarrow> bytes \<Rightarrow> delta_extent_header \<times> bytes \<Rightarrow> halt + delta_extent_header \<times> bytes" where
  "best_compression cd mode level data2 r =
     (if mode \<noteq> BEST_COMP then Inr r
      else
        (case gzip_on_delta cd level
                \<lparr>magic_num = MAGIC_NUM, de_mode = RAW, gzip_on = 0, extent_addr = 0, num_of_chunks = 0,
                 extents_delta_length = length data2, ext1_chksum = 0, ext2_chksum = 0\<rparr> data2 of
           Inl h \<Rightarrow> Inl h
         | Inr (deh2, out2) \<Rightarrow>
             (case r of (deh, out) \<Rightarrow>
                if length out2 \<le> length out
                then Inr (deh\<lparr>de_mode := de_mode deh2, gzip_on := gzip_on deh2,
                              extents_delta_length := extents_delta_length deh2\<rparr>, out2)
                else Inr r)))"

text \<open>The header and the data of an extent whose source data is in the buffer.\<close>

definition encode_extent ::
  "codec \<Rightarrow> nat \<Rightarrow> int \<Rightarrow> bytes option \<Rightarrow> delta_extent_header \<Rightarrow> bytes \<Rightarrow> generator \<Rightarrow>
   halt + delta_extent_header \<times> bytes \<times> nat" where
  "encode_extent cd mode level source deh data2 g =
     (if (case source of None \<Rightarrow> True | Some vol \<Rightarrow> passes_end vol (extent_addr deh) (length data2)) then
        (case gzip_on_delta cd level (deh\<lparr>extents_delta_length := length data2, de_mode := RAW\<rparr>) data2 of
           Inl h \<Rightarrow> Inl h
         | Inr (deh, out) \<Rightarrow> Inr (deh, out, gen_delta_size g))
      else
        (case (if mode = RAW then Inr (create_raw_delta deh data2)
               else create_xdelta_delta cd deh (contents (length data2) (dev1_extent g)) data2 (gen_delta_size g)) of
           Inl h \<Rightarrow> Inl h
         | Inr (deh, delta, delta_size) \<Rightarrow>
             if delta_size \<noteq> length delta then Inl Overrun
             else
               (case gzip_on_delta cd level deh delta of
                  Inl h \<Rightarrow> Inl h
                | Inr r \<Rightarrow>
                    (case best_compression cd mode level data2 r of
                       Inl h \<Rightarrow> Inl h
                     | Inr (deh, out) \<Rightarrow> Inr (deh, out, delta_size)))))"

definition emit_extent ::
  "(nat \<Rightarrow> errno option) \<Rightarrow> delta_extent_header \<Rightarrow> bytes \<Rightarrow> generator \<Rightarrow> halt + generator" where
  "emit_extent wr deh out g =
     (case fdwrite wr (encode_deh deh) (deltafile g) of
        Inl e \<Rightarrow> Inl (Out (Some e))
      | Inr file \<Rightarrow>
          (case fdwrite wr (take (extents_delta_length deh) out) file of
             Inl e \<Rightarrow> Inl (Out (Some e))
           | Inr file \<Rightarrow> Inr (g\<lparr>deltafile := file\<rparr>)))"

definition generate_extent ::
  "codec \<Rightarrow> nat \<Rightarrow> int \<Rightarrow> (nat \<Rightarrow> errno option) \<Rightarrow> bytes option \<Rightarrow> bytes \<Rightarrow> nat \<times> nat \<times> nat \<Rightarrow> generator \<Rightarrow>
   halt + generator" where
  "generate_extent cd mode level wr source target ext g =
     (case ext of (addr, n, sz) \<Rightarrow>
        (let sz = clip_extent target addr sz
         in case load_source source addr sz g of
              Inl h \<Rightarrow> Inl h
            | Inr g \<Rightarrow>
                (case read_extent target sz addr of
                   Inl h \<Rightarrow> Inl h
                 | Inr data2 \<Rightarrow>
                     (case encode_extent cd mode level source
                             \<lparr>magic_num = MAGIC_NUM, de_mode = 0, gzip_on = 0, extent_addr = addr, num_of_chunks = n,
                              extents_delta_length = 0, ext1_chksum = gen_chksum1 g, ext2_chksum = checksum data2\<rparr>
                             data2 g of
                        Inl h \<Rightarrow> Inl h
                      | Inr (deh, out, delta_size) \<Rightarrow> emit_extent wr deh out (g\<lparr>gen_delta_size := delta_size\<rparr>)))))"

text \<open>
  \<open>progress\<close> holds for an entry of the change list at which a progress report
  is due and cannot be written.
\<close>

lemma extent_run_ge: "n \<le> extent_run chunk pos limit n"
proof (induction chunk pos limit n rule: extent_run.induct)
  case (1 chunk pos limit n)
  then show ?case unfolding extent_run.simps [of chunk pos limit n] by (auto split: if_split)
qed

lemma next_extent_pos: "next_extent fullvolume beyond cl chunk_num = (addr, n, sz) \<Longrightarrow> 0 < n"
  using extent_run_ge [of 1 "chunk_at beyond cl" chunk_num "MAX_MEM_SIZE div 2 ^ cl_chunksize_bits cl"]
  by (auto simp: next_extent_def chunks_in_extent_def Let_def split: if_splits)

function generate_loop ::
  "codec \<Rightarrow> nat \<Rightarrow> int \<Rightarrow> (nat \<Rightarrow> errno option) \<Rightarrow> (nat \<Rightarrow> bool) \<Rightarrow> (nat \<Rightarrow> nat) \<Rightarrow> bytes option \<Rightarrow> bytes \<Rightarrow> change_list \<Rightarrow>
   nat \<Rightarrow> generator \<Rightarrow> halt + nat \<times> generator" where
  "generate_loop cd mode level wr progress beyond source target cl chunk_num g =
     (if chunk_num < cl_count cl then
        (case generate_extent cd mode level wr source target (next_extent (source = None) beyond cl chunk_num) g of
           Inl h \<Rightarrow> Inl h
         | Inr g \<Rightarrow>
             if progress chunk_num then Inl (Out None)
             else generate_loop cd mode level wr progress beyond source target cl
                    (chunk_num + fst (snd (next_extent (source = None) beyond cl chunk_num))) g)
      else Inr (chunk_num, g))"
  by pat_completeness auto
termination
proof (relation "measure (\<lambda>(cd, mode, level, wr, progress, beyond, source, target, cl, chunk_num, g).
    cl_count cl - chunk_num)", goal_cases)
  case (2 cd mode level wr progress beyond source target cl chunk_num g g')
  then show ?case using next_extent_pos [of "source = None" beyond cl chunk_num]
    by (cases "next_extent (source = None) beyond cl chunk_num") fastforce
qed simp

declare generate_loop.simps [simp del]

definition generate_delta_extents ::
  "codec \<Rightarrow> nat \<Rightarrow> int \<Rightarrow> (nat \<Rightarrow> errno option) \<Rightarrow> (nat \<Rightarrow> bool) \<Rightarrow> (nat \<Rightarrow> nat) \<Rightarrow> bytes option \<Rightarrow> bytes \<Rightarrow> change_list \<Rightarrow>
   nat \<Rightarrow> generator \<Rightarrow> halt + bytes" where
  "generate_delta_extents cd mode level wr progress beyond source target cl start_chunk g =
     (case generate_loop cd mode level wr progress beyond source target cl start_chunk g of
        Inl h \<Rightarrow> Inl h
      | Inr (chunk_num, g) \<Rightarrow>
          if chunk_num \<noteq> cl_count cl then Inl (Out (Some ERANGE))
          else if progress chunk_num then Inl (Out (Some EPERM))
          else Inr (deltafile g))"

section \<open>Applying a stream of extents\<close>

record applier =
  extent_data :: "nat \<Rightarrow> u8"
  delta_data :: "nat \<Rightarrow> u8"
  updated :: "nat \<Rightarrow> u8"
  snapdev2 :: bytes
  instream :: bytes

text \<open>The check that the source snapshot is the same on both sides.\<close>

definition check_source :: "bytes option \<Rightarrow> delta_extent_header \<Rightarrow> nat \<Rightarrow> applier \<Rightarrow> halt + applier" where
  "check_source source deh sz a =
     (case source of
        None \<Rightarrow> Inr a
      | Some vol \<Rightarrow>
          if length vol > extent_addr deh then
            (case source_extent vol (extent_addr deh) sz of
               Inl h \<Rightarrow> Inl h
             | Inr d \<Rightarrow>
                 if ext1_chksum deh \<noteq> checksum d then Inl (Out (Some ERANGE))
                 else Inr (a\<lparr>extent_data := overwrite d (extent_data a)\<rparr>))
          else Inr a)"

text \<open>
  The data of an extent.  A failed decompression leaves by \<open>goto\<close> without
  setting \<open>err\<close>, which is zero after the read that succeeded.
\<close>

definition load_delta :: "codec \<Rightarrow> delta_extent_header \<Rightarrow> nat \<Rightarrow> applier \<Rightarrow> halt + nat \<times> applier" where
  "load_delta cd deh sz a =
     (if extents_delta_length deh > MAX_MEM_SIZE then Inl Overrun
      else
        (case fdread (extents_delta_length deh) (instream a) of
           Inl e \<Rightarrow> Inl (Out (Some e))
         | Inr (data, rest) \<Rightarrow>
             (let a = a\<lparr>instream := rest\<rparr>
              in if gzip_on deh = 1 then
                   (if sz > MAX_MEM_SIZE then Inl Overrun
                    else
                      (case uncompress cd sz data of
                         Z_MEM_ERROR \<Rightarrow> Inl (Out None)
                       | Z_BUF_ERROR \<Rightarrow> Inl (Out None)
                       | Z_DATA_ERROR \<Rightarrow> Inl (Out None)
                       | Z_STREAM_ERROR \<Rightarrow> Inr (sz, a)
                       | Z_OK d \<Rightarrow> Inr (length d, a\<lparr>delta_data := overwrite d (delta_data a)\<rparr>)))
                 else Inr (extents_delta_length deh, a\<lparr>delta_data := overwrite data (delta_data a)\<rparr>))))"

definition update_extent ::
  "codec \<Rightarrow> bytes option \<Rightarrow> delta_extent_header \<Rightarrow> nat \<Rightarrow> nat \<Rightarrow> applier \<Rightarrow> halt + applier" where
  "update_extent cd source deh sz uncomp_size a =
     (if sz > MAX_MEM_SIZE then Inl Overrun
      else
        (let a = (if de_mode deh = RAW then a\<lparr>updated := overwrite (contents sz (delta_data a)) (updated a)\<rparr> else a)
         in if source \<noteq> None \<and> de_mode deh = XDELTA then
              (case xd_apply cd (contents sz (extent_data a)) (contents uncomp_size (delta_data a)) sz of
                 None \<Rightarrow> Inl Hang
               | Some (ret, d) \<Rightarrow>
                   if ret < 0 then Inl (Out (Some ERANGE)) else Inr (a\<lparr>updated := overwrite d (updated a)\<rparr>))
            else Inr a))"

text \<open>
  One extent.  The result is the device as it is left if the routine ends, and
  the number of chunks of the extent otherwise.  \<open>sync\<close> tells how flushing the
  device and reporting progress go at a chunk, if they are due.
\<close>

datatype sync_result = Synced | Unsynced | Unreported

definition apply_extent ::
  "codec \<Rightarrow> (nat \<Rightarrow> sync_result) \<Rightarrow> bytes option \<Rightarrow> nat \<Rightarrow> nat \<Rightarrow> applier \<Rightarrow> (halt \<times> bytes) + nat \<times> applier" where
  "apply_extent cd sync source chunk_size chunk_num a =
     (case fdread sizeof_deh (instream a) of
        Inl e \<Rightarrow> Inl (Out (Some e), snapdev2 a)
      | Inr (h, rest) \<Rightarrow>
          (let deh = decode_deh h; a = a\<lparr>instream := rest\<rparr>;
               sz = clip_extent (snapdev2 a) (extent_addr deh) (num_of_chunks deh * chunk_size mod 2 ^ 64)
           in if magic_num deh \<noteq> MAGIC_NUM then Inl (Out (Some ERANGE), snapdev2 a)
              else
                (case check_source source deh sz a of
                   Inl h \<Rightarrow> Inl (h, snapdev2 a)
                 | Inr a \<Rightarrow>
                     (case load_delta cd deh sz a of
                        Inl h \<Rightarrow> Inl (h, snapdev2 a)
                      | Inr (uncomp_size, a) \<Rightarrow>
                          (case update_extent cd source deh sz uncomp_size a of
                             Inl h \<Rightarrow> Inl (h, snapdev2 a)
                           | Inr a \<Rightarrow>
                               if ext2_chksum deh \<noteq> checksum (contents sz (updated a))
                               then Inl (Out (Some ERANGE), snapdev2 a)
                               else
                                 (case diskwrite (snapdev2 a) (contents sz (updated a)) (extent_addr deh) of
                                    (Some e, dev) \<Rightarrow> Inl (Out (Some e), dev)
                                  | (None, dev) \<Rightarrow>
                                      if sync chunk_num \<noteq> Synced then Inl (Out None, dev)
                                      else Inr (num_of_chunks deh, a\<lparr>snapdev2 := dev\<rparr>)))))))"

lemma check_source_instream: "check_source source deh sz a = Inr a' \<Longrightarrow> instream a' = instream a"
  by (auto simp: check_source_def split: option.splits if_splits sum.splits)

lemma load_delta_instream: "load_delta cd deh sz a = Inr (u, a') \<Longrightarrow> length (instream a') \<le> length (instream a)"
  by (auto simp: load_delta_def fdread_def Let_def split: if_splits zres.splits)

lemma update_extent_instream: "update_extent cd source deh sz u a = Inr a' \<Longrightarrow> instream a' = instream a"
  by (auto simp: update_extent_def Let_def split: if_splits option.splits)

lemma apply_extent_consumes:
  assumes "apply_extent cd sync source chunk_size chunk_num a = Inr (n, a')"
  shows "length (instream a') < length (instream a)"
  using assms
  by (auto simp: apply_extent_def fdread_def Let_def
      dest!: check_source_instream load_delta_instream update_extent_instream
      split: if_splits sum.splits prod.splits option.splits)

function apply_loop ::
  "codec \<Rightarrow> (nat \<Rightarrow> sync_result) \<Rightarrow> bytes option \<Rightarrow> nat \<Rightarrow> nat \<Rightarrow> nat \<Rightarrow> applier \<Rightarrow> (halt \<times> bytes) + nat \<times> applier" where
  "apply_loop cd sync source chunk_size chunk_count chunk_num a =
     (if chunk_num < chunk_count then
        (case apply_extent cd sync source chunk_size chunk_num a of
           Inl h \<Rightarrow> Inl h
         | Inr (n, a) \<Rightarrow> apply_loop cd sync source chunk_size chunk_count ((chunk_num + n) mod 2 ^ 64) a)
      else Inr (chunk_num, a))"
  by pat_completeness auto
termination
  by (relation "measure (\<lambda>(cd, sync, source, chunk_size, chunk_count, chunk_num, a). length (instream a))")
    (auto dest: sym [of "(_, _)"] apply_extent_consumes)

declare apply_loop.simps [simp del]

text \<open>
  The result is the returned error, \<open>None\<close> for none, and the device.  Behind
  the loop the device is flushed; if this fails, \<open>err\<close> is zero.
\<close>

definition apply_delta_extents ::
  "codec \<Rightarrow> (nat \<Rightarrow> sync_result) \<Rightarrow> bytes option \<Rightarrow> nat \<Rightarrow> nat \<Rightarrow> applier \<Rightarrow> halt \<times> bytes" where
  "apply_delta_extents cd sync source chunk_size chunk_count a =
     (case apply_loop cd sync source chunk_size chunk_count 0 a of
        Inl r \<Rightarrow> r
      | Inr (chunk_num, a) \<Rightarrow> (Out (if sync chunk_num = Unreported then Some EPERM else None), snapdev2 a))"

section \<open>Delta files\<close>

record delta_header =
  dh_magic :: bytes
  dh_chunk_num :: nat
  dh_chunk_size :: nat
  dh_src_snap :: nat
  dh_tgt_snap :: nat

definition DELTA_MAGIC_ID :: bytes where
  "DELTA_MAGIC_ID = map (of_nat \<circ> of_char) ''jc'' @ replicate 6 0"

definition sizeof_dh :: nat where [simp]: "sizeof_dh = 28"

definition encode_dh :: "delta_header \<Rightarrow> bytes" where
  "encode_dh dh =
     dh_magic dh @ le_bytes 8 (dh_chunk_num dh) @ le_bytes 4 (dh_chunk_size dh) @ le_bytes 4 (dh_src_snap dh) @
     le_bytes 4 (dh_tgt_snap dh)"

definition decode_dh :: "bytes \<Rightarrow> delta_header" where
  "decode_dh bs =
     \<lparr>dh_magic = take 8 bs, dh_chunk_num = le_value (take 8 (drop 8 bs)), dh_chunk_size = le_value (take 4 (drop 16 bs)),
      dh_src_snap = le_value (take 4 (drop 20 bs)), dh_tgt_snap = le_value (take 4 (drop 24 bs))\<rparr>"

text \<open>\<open>snapdev\<close> finds the device of a snapshot; the number of no snapshot stands for a whole volume.\<close>

definition source_dev :: "(nat \<Rightarrow> bytes) \<Rightarrow> nat \<Rightarrow> bytes option" where
  "source_dev snapdev snap = (if snap = 2 ^ 32 - 1 then None else Some (snapdev snap))"

definition generate_delta ::
  "codec \<Rightarrow> nat \<Rightarrow> int \<Rightarrow> (nat \<Rightarrow> errno option) \<Rightarrow> (nat \<Rightarrow> nat) \<Rightarrow> (nat \<Rightarrow> bytes) \<Rightarrow> change_list \<Rightarrow> generator \<Rightarrow> halt + bytes" where
  "generate_delta cd mode level wr beyond snapdev cl g =
     (case fdwrite wr
             (encode_dh \<lparr>dh_magic = DELTA_MAGIC_ID, dh_chunk_num = cl_count cl, dh_chunk_size = 2 ^ cl_chunksize_bits cl,
                         dh_src_snap = src_snap cl, dh_tgt_snap = tgt_snap cl\<rparr>) (deltafile g) of
        Inl e \<Rightarrow> Inl (Out (Some e))
      | Inr file \<Rightarrow>
          generate_delta_extents cd mode level wr (\<lambda>_. False) beyond (source_dev snapdev (src_snap cl))
            (snapdev (tgt_snap cl)) cl 0 (g\<lparr>deltafile := file\<rparr>))"

text \<open>The comparison of the magic stops at the zero that ends it.\<close>

definition apply_delta :: "codec \<Rightarrow> (nat \<Rightarrow> bytes) \<Rightarrow> applier \<Rightarrow> halt \<times> bytes" where
  "apply_delta cd snapdev a =
     (case fdread sizeof_dh (instream a) of
        Inl e \<Rightarrow> (Out (Some EPERM), snapdev2 a)
      | Inr (h, rest) \<Rightarrow>
          (let dh = decode_dh h
           in if take 3 (dh_magic dh) \<noteq> take 3 DELTA_MAGIC_ID \<or> dh_chunk_size dh = 0 then (Out (Some EPERM), snapdev2 a)
              else
                apply_delta_extents cd (\<lambda>_. Synced) (source_dev snapdev (dh_src_snap dh)) (dh_chunk_size dh)
                  (dh_chunk_num dh) (a\<lparr>instream := rest\<rparr>)))"

section \<open>Sending a delta downstream\<close>

text \<open>The change list of a whole volume has a number of chunks only.\<close>

definition full_changelist :: "nat \<Rightarrow> nat \<Rightarrow> nat \<Rightarrow> change_list" where
  "full_changelist vol_size_bytes bits tgt =
     \<lparr>cl_count = vol_size_bytes div 2 ^ bits + (if vol_size_bytes mod 2 ^ bits = 0 then 0 else 1),
      cl_length = CHUNK_ARRAY_INIT, cl_chunksize_bits = bits, src_snap = 2 ^ 32 - 1, tgt_snap = tgt, cl_chunks = []\<rparr>"

definition skip_full :: "nat \<Rightarrow> nat \<Rightarrow> change_list \<Rightarrow> nat" where
  "skip_full vol_size_bytes start_addr cl =
     u64_sub (cl_count cl) (u64_sub vol_size_bytes start_addr div 2 ^ cl_chunksize_bits cl)"

definition skip_listed :: "nat \<Rightarrow> change_list \<Rightarrow> nat" where
  "skip_listed start_addr cl =
     length (takeWhile (\<lambda>c. c * 2 ^ cl_chunksize_bits cl mod 2 ^ 64 < start_addr) (take (cl_count cl) (cl_chunks cl)))"

datatype delta_reply = SEND_DELTA_PROCEED | SEND_DELTA_DONE | SEND_DELTA_ERROR

text \<open>
  The stream that the upstream side sends once the downstream side agrees:
  the request and the extents.
\<close>

definition replication_send ::
  "codec \<Rightarrow> nat \<Rightarrow> int \<Rightarrow> (nat \<Rightarrow> errno option) \<Rightarrow> (nat \<Rightarrow> bool) \<Rightarrow> (nat \<Rightarrow> nat) \<Rightarrow> (nat \<Rightarrow> bytes) \<Rightarrow> change_list \<Rightarrow> nat \<Rightarrow> nat \<Rightarrow>
   generator \<Rightarrow> halt + delta_header \<times> bytes" where
  "replication_send cd mode level wr progress beyond snapdev cl vol_size_bytes start_addr g =
     (let fullvolume = src_snap cl = 2 ^ 32 - 1;
          skip_chunks = (if fullvolume then skip_full vol_size_bytes start_addr cl else skip_listed start_addr cl);
          dh = \<lparr>dh_magic = DELTA_MAGIC_ID, dh_chunk_num = u64_sub (cl_count cl) skip_chunks,
                dh_chunk_size = 2 ^ cl_chunksize_bits cl, dh_src_snap = src_snap cl, dh_tgt_snap = tgt_snap cl\<rparr>
      in case generate_delta_extents cd mode level wr progress beyond (source_dev snapdev (src_snap cl))
                (snapdev (tgt_snap cl)) cl skip_chunks g of
           Inl h \<Rightarrow> Inl h
         | Inr stream \<Rightarrow> Inr (dh, stream))"

text \<open>
  The child that serves a connection, from the request on.  The replies are
  those that reach the upstream side.
\<close>

definition serve_delta ::
  "codec \<Rightarrow> (nat \<Rightarrow> sync_result) \<Rightarrow> (nat \<Rightarrow> bytes) \<Rightarrow> delta_header \<Rightarrow> applier \<Rightarrow> (delta_reply list \<times> bytes) option" where
  "serve_delta cd sync snapdev body a =
     (if dh_chunk_size body = 0 then Some ([SEND_DELTA_ERROR], snapdev2 a)
      else
        (case apply_delta_extents cd sync (source_dev snapdev (dh_src_snap body)) (dh_chunk_size body)
                (dh_chunk_num body) a of
           (Out None, dev) \<Rightarrow> Some ([SEND_DELTA_PROCEED, SEND_DELTA_DONE], dev)
         | (Out (Some e), dev) \<Rightarrow> Some ([SEND_DELTA_PROCEED, SEND_DELTA_ERROR], dev)
         | (_, dev) \<Rightarrow> None))"

end
