(* ===== verification/Delta_Lemmas.thy ===== *)
theory Delta_Lemmas
  imports Delta
begin

text \<open>
  What the upstream side encodes is what the downstream side decodes: headers,
  the data of one extent, and the whole stream.
\<close>

section \<open>Headers\<close>

definition deh_bounds :: "delta_extent_header \<Rightarrow> bool" where
  "deh_bounds d \<longleftrightarrow> magic_num d < 2 ^ 32 \<and> de_mode d < 2 ^ 32 \<and> gzip_on d < 2 ^ 32 \<and> extent_addr d < 2 ^ 64 \<and>
     num_of_chunks d < 2 ^ 64 \<and> extents_delta_length d < 2 ^ 64 \<and> ext1_chksum d < 2 ^ 64 \<and> ext2_chksum d < 2 ^ 64"

lemma length_encode_deh [simp]: "length (encode_deh d) = 52"
  by (simp add: encode_deh_def)

lemma decode_encode_deh:
  assumes "deh_bounds d"
  shows "decode_deh (encode_deh d) = d"
  using assms by (simp add: decode_deh_def encode_deh_def deh_bounds_def le_value_bytes del: le_bytes.simps)

lemma decode_encode_dh:
  assumes "length (dh_magic d) = 8" "dh_chunk_num d < 2 ^ 64" "dh_chunk_size d < 2 ^ 32" "dh_src_snap d < 2 ^ 32"
    "dh_tgt_snap d < 2 ^ 32"
  shows "decode_dh (encode_dh d) = d"
  using assms by (simp add: decode_dh_def encode_dh_def le_value_bytes del: le_bytes.simps)

lemma checksum_less: "checksum data < 2 ^ 64"
proof -
  have "r < 2 ^ 64 \<Longrightarrow> fold (\<lambda>b result. (result + unat b) mod 2 ^ 64) data r < 2 ^ 64" for r
    by (induction data arbitrary: r) auto
  then show ?thesis by (simp add: checksum_def)
qed

section \<open>Buffers\<close>

lemma length_contents [simp]: "length (contents n buf) = n"
  by (simp add: contents_def)

lemma contents_overwrite [simp]: "length d = n \<Longrightarrow> contents n (overwrite d buf) = d"
  by (rule nth_equalityI) (auto simp: contents_def overwrite_def)

section \<open>The data of an extent\<close>

definition zlib_ok :: "codec \<Rightarrow> bool" where
  "zlib_ok cd \<longleftrightarrow> (\<forall>cap x level out limit.
     compress2 cd cap x level = Z_OK out \<and> length x \<le> limit \<longrightarrow> uncompress cd limit out = Z_OK x)"

definition delta_fits :: "codec \<Rightarrow> bool" where
  "delta_fits cd \<longleftrightarrow> (\<forall>a b n ret out. xd_create cd a b n = Some (ret, out) \<longrightarrow> length out \<le> n)"

text \<open>What an uncompressed payload may be: the data itself, or a delta that gives it.\<close>

definition payload_ok :: "codec \<Rightarrow> bytes option \<Rightarrow> bytes \<Rightarrow> bytes \<Rightarrow> nat \<Rightarrow> bytes \<Rightarrow> bool" where
  "payload_ok cd source in1 data2 mode input \<longleftrightarrow> length input \<le> length data2 \<and>
     (mode = RAW \<and> input = data2 \<or>
      mode = XDELTA \<and> source \<noteq> None \<and> xd_apply cd in1 input (length data2) = Some (int (length data2), data2))"

lemma gzip_on_delta_ok:
  assumes "gzip_on_delta cd level deh input = Inr (deh', out)"
  shows "\<exists>z\<in>{0, 1}. deh' = deh\<lparr>gzip_on := z, extents_delta_length := length out\<rparr>" "length out \<le> length input"
  using assms by (auto simp: gzip_on_delta_def split: zres.splits if_splits)

lemma load_gzip:
  assumes "gzip_on_delta cd level deh input = Inr (deh', out)" "zlib_ok cd" "length input \<le> sz" "sz \<le> MAX_MEM_SIZE"
    and "gzip_on deh'' = gzip_on deh'" "extents_delta_length deh'' = extents_delta_length deh'"
    and "instream a = out @ rest"
  shows "load_delta cd deh'' sz a =
    Inr (length input, a\<lparr>instream := rest, delta_data := overwrite input (delta_data a)\<rparr>)"
proof -
  have "length out \<le> MAX_MEM_SIZE" using gzip_on_delta_ok(2) [OF assms(1)] assms(3,4) by simp
  with assms show ?thesis
    by (auto simp: gzip_on_delta_def load_delta_def fdread_def zlib_ok_def split: zres.splits if_splits)
qed

lemma update_payload:
  assumes "payload_ok cd source in1 data2 (de_mode deh) input" "length data2 = sz" "sz \<le> MAX_MEM_SIZE"
    and "source \<noteq> None \<Longrightarrow> contents sz (extent_data a) = in1" "contents (length input) (delta_data a) = input"
  obtains a' where "update_extent cd source deh sz (length input) a = Inr a'" "contents sz (updated a') = data2"
    "instream a' = instream a" "snapdev2 a' = snapdev2 a"
proof -
  consider "de_mode deh = RAW" "input = data2"
    | "de_mode deh = XDELTA" "source \<noteq> None" "xd_apply cd in1 input sz = Some (int sz, data2)"
    using assms(1,2) by (auto simp: payload_ok_def)
  then show thesis
  proof cases
    case 1
    with assms(2,3,5) show thesis
      by (intro that [of "a\<lparr>updated := overwrite data2 (updated a)\<rparr>"]) (auto simp: update_extent_def)
  next
    case 2
    with assms(2-5) show thesis
      by (intro that [of "a\<lparr>updated := overwrite data2 (updated a)\<rparr>"]) (auto simp: update_extent_def)
  qed
qed

text \<open>The upstream side checks that a delta can be applied before it uses it.\<close>

lemma create_xdelta_ok:
  assumes "create_xdelta_delta cd deh in1 data2 ds = Inr (deh', delta, ds')" "delta_fits cd"
  shows "payload_ok cd (Some vol) in1 data2 (de_mode deh') delta"
    "deh' = deh\<lparr>de_mode := de_mode deh', extents_delta_length := extents_delta_length deh'\<rparr>" "de_mode deh' < 2 ^ 32"
proof -
  obtain ret out where c: "xd_create cd in1 data2 (length data2) = Some (ret, out)"
    using assms(1) by (auto simp: create_xdelta_delta_def split: option.splits)
  then have "length out \<le> length data2" using assms(2) by (auto simp: delta_fits_def)
  then show "payload_ok cd (Some vol) in1 data2 (de_mode deh') delta"
    "deh' = deh\<lparr>de_mode := de_mode deh', extents_delta_length := extents_delta_length deh'\<rparr>" "de_mode deh' < 2 ^ 32"
    using assms(1)
    by (auto simp: create_xdelta_delta_def c create_raw_delta_def payload_ok_def Let_def
        split: if_splits option.splits prod.splits)
qed

lemma best_compression_ok:
  assumes r: "gzip_on_delta cd level deh0 input = Inr r" "payload_ok cd source in1 data2 (de_mode (fst r)) input"
    and b: "best_compression cd mode level data2 r = Inr (deh', out)" and m: "de_mode (fst r) < 2 ^ 32"
  obtains deh1 input' dehz where "gzip_on_delta cd level deh1 input' = Inr (dehz, out)"
    "payload_ok cd source in1 data2 (de_mode deh') input'" "gzip_on deh' = gzip_on dehz"
    "extents_delta_length deh' = extents_delta_length dehz" "extents_delta_length dehz = length out"
    "deh' = (fst r)\<lparr>de_mode := de_mode deh', gzip_on := gzip_on deh', extents_delta_length := length out\<rparr>"
    "de_mode deh' < 2 ^ 32" "gzip_on deh' < 2 ^ 32"
proof -
  obtain deh out1 where r': "r = (deh, out1)" by fastforce
  note g1 = gzip_on_delta_ok [OF r(1) [unfolded r']]
  show thesis
  proof (cases "(deh', out) = r")
    case True
    with r g1 m r' show thesis by (intro that [of deh0 input deh]) auto
  next
    case False
    then obtain deh2 where d: "gzip_on_delta cd level
        \<lparr>magic_num = MAGIC_NUM, de_mode = RAW, gzip_on = 0, extent_addr = 0, num_of_chunks = 0,
         extents_delta_length = length data2, ext1_chksum = 0, ext2_chksum = 0\<rparr> data2 = Inr (deh2, out)"
      "deh' = deh\<lparr>de_mode := de_mode deh2, gzip_on := gzip_on deh2, extents_delta_length := extents_delta_length deh2\<rparr>"
      using b by (auto simp: best_compression_def r' split: if_splits sum.splits)
    from gzip_on_delta_ok [OF d(1)] d(2) show thesis
      by (intro that [OF d(1)]) (auto simp: payload_ok_def r')
  qed
qed

lemma encode_extent_ok:
  assumes e: "encode_extent cd mode level source deh data2 g = Inr (deh', out, ds)"
    and ok: "zlib_ok cd" "delta_fits cd" and in1: "in1 = contents (length data2) (dev1_extent g)"
  obtains dehz deh1 input where "gzip_on_delta cd level deh1 input = Inr (dehz, out)" "gzip_on deh' = gzip_on dehz"
    "extents_delta_length deh' = extents_delta_length dehz" "payload_ok cd source in1 data2 (de_mode deh') input"
    "deh' = deh\<lparr>de_mode := de_mode deh', gzip_on := gzip_on deh', extents_delta_length := length out\<rparr>"
    "length out \<le> length data2" "de_mode deh' < 2 ^ 32" "gzip_on deh' < 2 ^ 32"
proof (cases "case source of None \<Rightarrow> True | Some vol \<Rightarrow> passes_end vol (extent_addr deh) (length data2)")
  case True
  then have gz: "gzip_on_delta cd level (deh\<lparr>extents_delta_length := length data2, de_mode := RAW\<rparr>) data2 = Inr (deh', out)"
    using e by (auto simp: encode_extent_def split: sum.splits)
  from gzip_on_delta_ok [OF gz] gz show thesis by (intro that [OF gz]) (auto simp: payload_ok_def)
next
  case False
  then obtain vol where s: "source = Some vol" by (auto split: option.splits)
  obtain dehx delta dsx where x: "(if mode = RAW then Inr (create_raw_delta deh data2)
      else create_xdelta_delta cd deh in1 data2 (gen_delta_size g)) = Inr (dehx, delta, dsx)"
    and r: "\<exists>r. gzip_on_delta cd level dehx delta = Inr r \<and> best_compression cd mode level data2 r = Inr (deh', out)"
    using e False by (auto simp: encode_extent_def in1 split: sum.splits prod.splits if_splits)
  have p: "payload_ok cd source in1 data2 (de_mode dehx) delta"
    "dehx = deh\<lparr>de_mode := de_mode dehx, extents_delta_length := extents_delta_length dehx\<rparr>" "de_mode dehx < 2 ^ 32"
    using x create_xdelta_ok [OF _ ok(2), of deh in1 data2 "gen_delta_size g" dehx delta dsx]
    by (auto simp: create_raw_delta_def payload_ok_def s split: if_splits)
  from r obtain dehr outr where g: "gzip_on_delta cd level dehx delta = Inr (dehr, outr)"
    "best_compression cd mode level data2 (dehr, outr) = Inr (deh', out)" by auto
  from gzip_on_delta_ok [OF g(1)] have dr: "de_mode dehr = de_mode dehx"
    "dehr = dehx\<lparr>gzip_on := gzip_on dehr, extents_delta_length := extents_delta_length dehr\<rparr>" by auto
  have pr: "payload_ok cd source in1 data2 (de_mode (fst (dehr, outr))) delta" "de_mode (fst (dehr, outr)) < 2 ^ 32"
    using p dr(1) by auto
  obtain deh1 input' dehz where b: "gzip_on_delta cd level deh1 input' = Inr (dehz, out)"
    "payload_ok cd source in1 data2 (de_mode deh') input'" "gzip_on deh' = gzip_on dehz"
    "extents_delta_length deh' = extents_delta_length dehz" "extents_delta_length dehz = length out"
    "deh' = (fst (dehr, outr))\<lparr>de_mode := de_mode deh', gzip_on := gzip_on deh', extents_delta_length := length out\<rparr>"
    "de_mode deh' < 2 ^ 32" "gzip_on deh' < 2 ^ 32"
    by (rule best_compression_ok [OF g(1) pr(1) g(2) pr(2)])
  have "length out \<le> length data2" using gzip_on_delta_ok(2) [OF b(1)] b(2) by (simp add: payload_ok_def)
  moreover have "deh' = deh\<lparr>de_mode := de_mode deh', gzip_on := gzip_on deh', extents_delta_length := length out\<rparr>"
    using b(6) dr(2) p(2) by (metis (no_types, lifting) fst_conv delta_extent_header.surjective
        delta_extent_header.update_convs(2,3,6))
  ultimately show thesis using b by (intro that [OF b(1)]) auto
qed

section \<open>One extent\<close>

lemma u64_sub_nowrap: "b \<le> a \<Longrightarrow> a < 2 ^ 64 \<Longrightarrow> u64_sub a b = a - b"
  by (rule u64_sub_eq)

lemma source_extent_full:
  assumes "source_extent vol addr sz = Inr d" "\<not> passes_end vol addr sz"
  shows "length d = sz"
  using assms by (auto simp: source_extent_def read_extent_def dest: diskread_length split: if_splits sum.splits)

lemma load_check_source:
  assumes "load_source source addr sz g = Inr g1" "extent_addr deh = addr" "ext1_chksum deh = gen_chksum1 g1"
  obtains a1 where "check_source source deh sz a = Inr a1" "a1 = a\<lparr>extent_data := extent_data a1\<rparr>"
    "\<And>vol. source = Some vol \<Longrightarrow> addr < length vol \<Longrightarrow> \<not> passes_end vol addr sz \<Longrightarrow>
       contents sz (extent_data a1) = contents sz (dev1_extent g1)"
proof (cases "\<exists>vol. source = Some vol \<and> addr < length vol")
  case False
  then have "check_source source deh sz a = Inr a" using assms(2) by (auto simp: check_source_def split: option.splits)
  with False show thesis by (intro that) auto
next
  case True
  then obtain vol d where v: "source = Some vol" "addr < length vol" "source_extent vol addr sz = Inr d"
    and g1: "g1 = g\<lparr>dev1_extent := overwrite d (dev1_extent g), gen_chksum1 := checksum d\<rparr>"
    using assms(1) by (auto simp: load_source_def split: sum.splits)
  then have "check_source source deh sz a = Inr (a\<lparr>extent_data := overwrite d (extent_data a)\<rparr>)"
    using assms(2,3) by (simp add: check_source_def)
  then show thesis
    by (rule that) (use v source_extent_full [OF v(3)] g1 in auto)
qed

lemma load_source_simps:
  assumes "load_source source addr sz g = Inr g1"
  shows "deltafile g1 = deltafile g" "gen_delta_size g1 = gen_delta_size g"
    "gen_chksum1 g < 2 ^ 64 \<Longrightarrow> gen_chksum1 g1 < 2 ^ 64"
  using assms checksum_less by (auto simp: load_source_def split: option.splits if_splits sum.splits)

lemma read_extent_ok:
  assumes "read_extent vol sz addr = Inr d"
  shows "length d = sz" "sz \<le> MAX_MEM_SIZE" "0 < sz \<Longrightarrow> addr + sz \<le> length vol" "i < sz \<Longrightarrow> d ! i = vol ! (addr + i)"
  using assms by (auto simp: read_extent_def dest: diskread_length diskread_bound diskread_nth split: if_splits sum.splits)

text \<open>An extent that needs the source snapshot lies inside of it, unless the snapshot is very small.\<close>

lemma source_covered:
  assumes "length target \<le> length vol \<or> MAX_MEM_SIZE \<le> length vol" "length vol < 2 ^ 64"
    and "\<not> passes_end vol addr sz" "0 < sz" "sz \<le> MAX_MEM_SIZE" "addr + sz \<le> length target"
  shows "addr < length vol"
  using assms(1)
proof
  assume "MAX_MEM_SIZE \<le> length vol"
  then have "u64_sub (length vol) sz = length vol - sz" using assms(2,5) by (intro u64_sub_nowrap) auto
  then show ?thesis using assms(3,4,5) \<open>MAX_MEM_SIZE \<le> length vol\<close> by (auto simp: passes_end_def)
qed (use assms in auto)

definition extent_applies ::
  "codec \<Rightarrow> (nat \<Rightarrow> sync_result) \<Rightarrow> bytes option \<Rightarrow> bytes \<Rightarrow> nat \<Rightarrow> nat \<Rightarrow> nat \<Rightarrow> nat \<Rightarrow> bytes \<Rightarrow> bool" where
  "extent_applies cd sync source target chunk_size addr n sz ext \<longleftrightarrow>
     (\<forall>a rest cn. instream a = ext @ rest \<and> length (snapdev2 a) = length target \<and> sync cn = Synced \<longrightarrow>
        (\<exists>a'. apply_extent cd sync source chunk_size cn a = Inr (n, a') \<and> instream a' = rest \<and>
           length (snapdev2 a') = length target \<and>
           (\<forall>i<length target. snapdev2 a' ! i =
              (if addr \<le> i \<and> i < addr + sz then target ! i else snapdev2 a ! i))))"

lemma generate_extent_applies:
  assumes gen: "generate_extent cd mode level wr source target (addr, n, sz0) g = Inr g'"
    and ok: "zlib_ok cd" "delta_fits cd" and sz: "sz = clip_extent target addr sz0" "sz0 = n * chunk_size mod 2 ^ 64"
    and b: "gen_chksum1 g < 2 ^ 64" "addr < 2 ^ 64" "n < 2 ^ 64"
    and src: "\<And>vol. source = Some vol \<Longrightarrow> length vol < 2 ^ 64 \<and> (length target \<le> length vol \<or> MAX_MEM_SIZE \<le> length vol)"
  obtains ext where "deltafile g' = deltafile g @ ext" "gen_chksum1 g' < 2 ^ 64" "sz \<le> MAX_MEM_SIZE"
    "0 < sz \<Longrightarrow> addr + sz \<le> length target" "extent_applies cd sync source target chunk_size addr n sz ext"
proof -
  obtain g1 data2 where l: "load_source source addr sz g = Inr g1" and r: "read_extent target sz addr = Inr data2"
    using gen by (auto simp: generate_extent_def Let_def sz(1) [symmetric] split: sum.splits)
  note ld = load_source_simps [OF l] and rd = read_extent_ok [OF r]
  let ?deh = "\<lparr>magic_num = MAGIC_NUM, de_mode = 0, gzip_on = 0, extent_addr = addr, num_of_chunks = n,
    extents_delta_length = 0, ext1_chksum = gen_chksum1 g1, ext2_chksum = checksum data2\<rparr>"
  obtain deh out ds where e: "encode_extent cd mode level source ?deh data2 g1 = Inr (deh, out, ds)"
    and em: "emit_extent wr deh out (g1\<lparr>gen_delta_size := ds\<rparr>) = Inr g'"
    using gen l r by (auto simp: generate_extent_def Let_def sz(1) [symmetric] split: sum.splits)
  obtain dehz deh1 input where en: "gzip_on_delta cd level deh1 input = Inr (dehz, out)" "gzip_on deh = gzip_on dehz"
    "extents_delta_length deh = extents_delta_length dehz"
    "payload_ok cd source (contents (length data2) (dev1_extent g1)) data2 (de_mode deh) input"
    "deh = ?deh\<lparr>de_mode := de_mode deh, gzip_on := gzip_on deh, extents_delta_length := length out\<rparr>"
    "length out \<le> length data2" "de_mode deh < 2 ^ 32" "gzip_on deh < 2 ^ 32"
    by (rule encode_extent_ok [OF e ok refl])
  have f: "magic_num deh = MAGIC_NUM" "extent_addr deh = addr" "num_of_chunks deh = n"
    "ext1_chksum deh = gen_chksum1 g1" "ext2_chksum deh = checksum data2" "extents_delta_length deh = length out"
    by (subst en(5), simp)+
  have "length out < 2 ^ 64" using en(6) rd(1,2) by (simp add: MAX_MEM_SIZE_def)
  then have db: "deh_bounds deh"
    using f en(7,8) b checksum_less ld(3) [OF b(1)] by (simp add: deh_bounds_def)
  let ?ext = "encode_deh deh @ out"
  have fl: "deltafile g' = deltafile g @ ?ext" "gen_chksum1 g' = gen_chksum1 g1"
    using em ld(1) f(6) by (auto simp: emit_extent_def fdwrite_def split: option.splits)
  have app: "\<exists>a'. apply_extent cd sync source chunk_size cn a = Inr (n, a') \<and> instream a' = rest \<and>
      length (snapdev2 a') = length target \<and>
      (\<forall>i<length target. snapdev2 a' ! i = (if addr \<le> i \<and> i < addr + sz then target ! i else snapdev2 a ! i))"
    if a: "instream a = ?ext @ rest" "length (snapdev2 a) = length target" "sync cn = Synced" for a rest cn
  proof -
    let ?a0 = "a\<lparr>instream := out @ rest\<rparr>"
    have h: "fdread sizeof_deh (instream a) = Inr (encode_deh deh, out @ rest)" using a(1) by (simp add: fdread_def)
    have cl: "clip_extent (snapdev2 a) addr (n * chunk_size mod 18446744073709551616) = sz"
      by (simp add: sz clip_extent_def passes_end_def a(2))
    obtain a1 where c: "check_source source deh sz ?a0 = Inr a1" "a1 = ?a0\<lparr>extent_data := extent_data a1\<rparr>"
      "\<And>vol. source = Some vol \<Longrightarrow> addr < length vol \<Longrightarrow> \<not> passes_end vol addr sz \<Longrightarrow>
         contents sz (extent_data a1) = contents sz (dev1_extent g1)"
      using load_check_source [OF l f(2,4), of ?a0] by blast
    have i1: "instream a1 = out @ rest" "snapdev2 a1 = snapdev2 a" by (subst c(2), simp)+
    let ?a2 = "a1\<lparr>instream := rest, delta_data := overwrite input (delta_data a1)\<rparr>"
    have lin: "length input \<le> sz" using en(4) rd(1) by (simp add: payload_ok_def)
    have ld2: "load_delta cd deh sz a1 = Inr (length input, ?a2)"
      by (rule load_gzip [OF en(1) ok(1) lin rd(2) en(2,3) i1(1)])
    have raw: "de_mode deh = RAW" if "source = Some vol" "passes_end vol addr sz" for vol
      using e that rd(1) gzip_on_delta_ok(1) by (fastforce simp: encode_extent_def split: sum.splits)
    obtain in1 where in1: "payload_ok cd source in1 data2 (de_mode deh) input"
      "source \<noteq> None \<Longrightarrow> contents sz (extent_data ?a2) = in1"
    proof (cases "\<exists>vol. source = Some vol \<and> \<not> passes_end vol addr sz \<and> 0 < sz")
      case True
      then obtain vol where v: "source = Some vol" "\<not> passes_end vol addr sz" "0 < sz" by blast
      have "addr < length vol" using source_covered [OF _ _ v(2,3) rd(2) rd(3) [OF v(3)]] src [OF v(1)] by blast
      then show thesis using en(4) c(3) [OF v(1) _ v(2)] rd(1) by (intro that) auto
    next
      case False
      show thesis
      proof (cases "sz = 0")
        case True
        then show thesis using en(4) rd(1) by (intro that [of "[]"]) (auto simp: contents_def)
      next
        case nz: False
        with False raw en(4) have "de_mode deh = RAW"
          by (cases source) (auto simp: payload_ok_def)
        with en(4) have "payload_ok cd source in1 data2 (de_mode deh) input" for in1 by (auto simp: payload_ok_def)
        then show thesis by (rule that) simp
      qed
    qed
    obtain a3 where u: "update_extent cd source deh sz (length input) ?a2 = Inr a3" "contents sz (updated a3) = data2"
      "instream a3 = instream ?a2" "snapdev2 a3 = snapdev2 ?a2"
      by (rule update_payload [OF in1(1) rd(1,2) in1(2)]) auto
    obtain dev where w: "diskwrite (snapdev2 a) data2 addr = (None, dev)"
      using rd(1,3) a(2) by (cases "data2 = []") (auto simp: diskwrite_def)
    have d: "length dev = length target \<and>
      (\<forall>i<length target. dev ! i = (if addr \<le> i \<and> i < addr + sz then target ! i else snapdev2 a ! i))"
    proof (cases "sz = 0")
      case True then show ?thesis using rd(1) a(2) w by (auto simp: diskwrite_def)
    next
      case False
      then have "addr + length data2 \<le> length (snapdev2 a)" "dev = patch addr data2 (snapdev2 a)"
        using rd(1,3) a(2) w by (auto simp: diskwrite_def)
      then show ?thesis using rd(1,4) a(2) by (auto simp: nth_patch)
    qed
    have "apply_extent cd sync source chunk_size cn a = Inr (n, a3\<lparr>snapdev2 := dev\<rparr>)"
      using h c(1) ld2 u w a(3)
      by (simp add: apply_extent_def Let_def decode_encode_deh [OF db] cl f i1)
    then show ?thesis using d u(3) by auto
  qed
  have "extent_applies cd sync source target chunk_size addr n sz ?ext"
    unfolding extent_applies_def using app by blast
  with fl ld(3) [OF b(1)] rd show thesis by (intro that) auto
qed

section \<open>The extents of a change list\<close>

definition listed :: "bool \<Rightarrow> change_list \<Rightarrow> nat list" where
  "listed fullvolume cl = (if fullvolume then [0..<cl_count cl] else cl_chunks cl)"

definition changes_ok :: "bool \<Rightarrow> change_list \<Rightarrow> bytes \<Rightarrow> bool" where
  "changes_ok fullvolume cl target \<longleftrightarrow> length (listed fullvolume cl) = cl_count cl \<and> cl_chunksize_bits cl < 32 \<and>
     cl_count cl < 2 ^ 64 \<and> length target < 2 ^ 63 \<and>
     (\<forall>c\<in>set (listed fullvolume cl). c * 2 ^ cl_chunksize_bits cl < length target)"

lemma extent_run_spec:
  "extent_run chunk pos limit n \<le> max n limit \<and>
   (\<forall>j. n \<le> j \<and> j < extent_run chunk pos limit n \<longrightarrow> chunk (pos + j) = (chunk pos + j) mod 2 ^ 64)"
proof (induction chunk pos limit n rule: extent_run.induct)
  case (1 chunk pos limit n)
  show ?case
  proof (cases "chunk (pos + n) = (chunk pos + n) mod 2 ^ 64 \<and> n < limit")
    case True
    note ih = 1 [OF True]
    have e: "extent_run chunk pos limit n = extent_run chunk pos limit (n + 1)"
      by (subst extent_run.simps) (rule if_P [OF True])
    have "chunk (pos + j) = (chunk pos + j) mod 2 ^ 64" if "n \<le> j" "j < extent_run chunk pos limit (n + 1)" for j
      using ih True that by (cases "j = n") auto
    then show ?thesis using ih True unfolding e by auto
  next
    case False
    have e: "extent_run chunk pos limit n = n" by (subst extent_run.simps) (rule if_not_P [OF False])
    show ?thesis unfolding e by simp
  qed
qed

lemma chunk_size_le: "cl_chunksize_bits cl < 32 \<Longrightarrow> (2 :: nat) ^ cl_chunksize_bits cl < 2 ^ 32"
  by (rule power_strict_increasing) simp_all

lemma next_extent_ok:
  assumes ne: "next_extent fullvolume beyond cl k = (addr, n, sz0)" and k: "k < cl_count cl"
    and ok: "changes_ok fullvolume cl target" and cs: "cs = 2 ^ cl_chunksize_bits cl"
  shows "addr = listed fullvolume cl ! k * cs" "sz0 = n * cs" "sz0 < 2 ^ 33" "n < 2 ^ 64"
    "\<And>j. j < n \<Longrightarrow> k + j < cl_count cl \<Longrightarrow> listed fullvolume cl ! (k + j) = listed fullvolume cl ! k + j"
proof -
  let ?l = "listed fullvolume cl"
  have cs': "0 < cs" "cs < 2 ^ 32" using ok chunk_size_le [of cl] by (simp_all add: cs changes_ok_def)
  have in_vol: "?l ! j * cs < length target" if "j < cl_count cl" for j
    using ok nth_mem [of j ?l] that unfolding changes_ok_def cs by metis
  have tgt: "length target < 2 ^ 63" using ok by (simp add: changes_ok_def)
  have small: "?l ! j < 2 ^ 63" if "j < cl_count cl" for j
  proof -
    have "?l ! j \<le> ?l ! j * cs" using cs'(1) by (cases cs) auto
    then show ?thesis by (rule le_less_trans [OF _ less_trans [OF in_vol [OF that] tgt]])
  qed
  define m where "m = (if k = cl_count cl - 1 then 1 else chunks_in_extent beyond cl k cs)"
  let ?run = "extent_run (chunk_at beyond cl) k (MAX_MEM_SIZE div cs) 1"
  note rs = extent_run_spec [of "chunk_at beyond cl" k "MAX_MEM_SIZE div cs" 1]
  have m1: "m * cs < 2 ^ 33 \<and> m \<le> 2 ^ 20"
  proof (cases "m \<le> 1")
    case True then show ?thesis using cs' by (cases m) auto
  next
    case False
    then have "m \<le> MAX_MEM_SIZE div cs" using rs by (auto simp: m_def chunks_in_extent_def max_def split: if_splits)
    then have "m * cs \<le> MAX_MEM_SIZE" "m \<le> MAX_MEM_SIZE"
      using cs'(1) le_trans [OF _ div_le_dividend, of m MAX_MEM_SIZE cs] by (simp_all add: less_eq_div_iff_mult_less_eq)
    then show ?thesis by (simp add: MAX_MEM_SIZE_def)
  qed
  have full: "addr = ?l ! k * cs \<and> sz0 = n * cs \<and> n = 1" if "fullvolume"
    using ne that in_vol [OF k] tgt k by (auto simp: next_extent_def Let_def cs listed_def)
  have part: "addr = ?l ! k * cs \<and> sz0 = n * cs \<and> n = m" if "\<not> fullvolume"
  proof -
    have "chunk_at beyond cl k = ?l ! k" using that k by (simp add: chunk_at_def listed_def)
    moreover have "?l ! k * cs mod 2 ^ 64 = ?l ! k * cs" using in_vol [OF k] tgt by simp
    moreover have "cs * m mod 2 ^ 64 = m * cs" using m1 by (simp add: mult.commute)
    moreover have "(if k = cl_count cl - Suc 0 then 1 else chunks_in_extent beyond cl k cs) = m" by (simp add: m_def)
    ultimately show ?thesis using ne that by (auto simp: next_extent_def Let_def cs [symmetric])
  qed
  show "addr = ?l ! k * cs" "sz0 = n * cs" using full part by blast+
  show "n < 2 ^ 64" using full part m1 by (cases fullvolume) auto
  show "sz0 < 2 ^ 33" using full part m1 cs' by (cases fullvolume) auto
  show "?l ! (k + j) = ?l ! k + j" if j: "j < n" "k + j < cl_count cl" for j
  proof (cases "fullvolume \<or> j = 0")
    case True then show ?thesis using full j by (auto simp: listed_def)
  next
    case False
    then have nm: "n = m" using part by simp
    with False j have "m = ?run" by (auto simp: m_def chunks_in_extent_def split: if_splits)
    with False j nm rs have "chunk_at beyond cl (k + j) = (chunk_at beyond cl k + j) mod 2 ^ 64" by simp
    moreover have "j < 2 ^ 20" using j nm m1 by simp
    ultimately show ?thesis using False j k small [OF k] by (simp add: chunk_at_def listed_def)
  qed
qed

lemma extent_covers:
  assumes ok: "changes_ok fullvolume cl target" and addr: "addr = c * cs" "c * cs < length target" and n: "sz0 = n * cs" "sz0 < 2 ^ 33"
    and sz: "sz = clip_extent target addr sz0" and fits: "0 < sz \<Longrightarrow> addr + sz \<le> length target"
    and i: "i < length target" "i div cs = c + j" "j < n" and cs: "0 < cs"
  shows "addr \<le> i \<and> i < addr + sz"
proof -
  have t: "length target < 2 ^ 63" using ok by (simp add: changes_ok_def)
  have lo: "addr \<le> i" using i(2) cs unfolding addr(1) by (metis le_add1 less_eq_div_iff_mult_less_eq)
  have "i div cs < c + n" using i by simp
  then have hi: "i < addr + n * cs" using cs by (simp add: addr(1) div_less_iff_less_mult add_mult_distrib)
  have pos: "0 < sz0" using i(3) cs by (auto simp: n)
  show ?thesis
  proof (cases "sz0 \<le> length target")
    case True
    then have "u64_sub (length target) sz0 = length target - sz0" "u64_sub (length target) addr = length target - addr"
      using t addr by (auto intro!: u64_sub_nowrap)
    then show ?thesis using lo hi i(1) n(1) by (auto simp: sz clip_extent_def passes_end_def)
  next
    case False
    then have "\<not> passes_end target addr sz0"
      using t n(2) addr by (auto simp: passes_end_def u64_sub_def)
    then have "sz = sz0" by (simp add: sz clip_extent_def)
    with fits pos False show ?thesis by simp
  qed
qed

section \<open>The stream\<close>

definition stream_applies ::
  "codec \<Rightarrow> (nat \<Rightarrow> sync_result) \<Rightarrow> bytes option \<Rightarrow> bytes \<Rightarrow> change_list \<Rightarrow> nat \<Rightarrow> nat \<Rightarrow> bytes \<Rightarrow> bool" where
  "stream_applies cd sync source target cl s k stream \<longleftrightarrow>
     (\<forall>a rest. instream a = stream @ rest \<and> length (snapdev2 a) = length target \<longrightarrow>
        (\<exists>a'. apply_loop cd sync source (2 ^ cl_chunksize_bits cl) (cl_count cl - s) (k - s) a = Inr (cl_count cl - s, a') \<and>
           length (snapdev2 a') = length target \<and>
           (\<forall>i<length target. snapdev2 a ! i = target ! i \<or>
              i div 2 ^ cl_chunksize_bits cl \<in> set (drop k (listed (source = None) cl)) \<longrightarrow> snapdev2 a' ! i = target ! i)))"

lemma generate_loop_applies:
  assumes run: "generate_loop cd mode level wr progress beyond source target cl k g = Inr (cl_count cl, g')"
    and ok: "zlib_ok cd" "delta_fits cd" "changes_ok (source = None) cl target" and g: "gen_chksum1 g < 2 ^ 64"
    and src: "\<And>vol. source = Some vol \<Longrightarrow> length vol < 2 ^ 64 \<and> (length target \<le> length vol \<or> MAX_MEM_SIZE \<le> length vol)"
    and sync: "\<And>n. sync n = Synced" and sk: "s \<le> k" "k \<le> cl_count cl"
  shows "\<exists>stream. deltafile g' = deltafile g @ stream \<and> stream_applies cd sync source target cl s k stream"
  using run g sk
proof (induction "cl_count cl - k" arbitrary: k g rule: less_induct)
  case (less k g)
  let ?l = "listed (source = None) cl" and ?cs = "2 ^ cl_chunksize_bits cl :: nat"
  have len: "length ?l = cl_count cl" using ok(3) by (simp add: changes_ok_def)
  have cnt: "cl_count cl < 2 ^ 64" using ok(3) by (simp add: changes_ok_def)
  show ?case
  proof (cases "k < cl_count cl")
    case False
    then have "k = cl_count cl" using less.prems(4) by simp
    then have "g' = g" using less.prems(1) by (auto simp: generate_loop.simps [of _ _ _ _ _ _ _ _ _ "cl_count cl"])
    moreover have "stream_applies cd sync source target cl s k []"
      unfolding stream_applies_def using \<open>k = cl_count cl\<close> len
      by (auto simp: apply_loop.simps [of _ _ _ _ _ "cl_count cl - s"])
    ultimately show ?thesis using \<open>k = cl_count cl\<close> by auto
  next
    case True
    obtain addr n sz0 where ne: "next_extent (source = None) beyond cl k = (addr, n, sz0)" by (metis prod_cases3)
    note x = next_extent_ok [OF ne True ok(3) refl]
    have npos: "0 < n" by (rule next_extent_pos [OF ne])
    obtain g1 where g1: "generate_extent cd mode level wr source target (addr, n, sz0) g = Inr g1"
      and tl: "generate_loop cd mode level wr progress beyond source target cl (k + n) g1 = Inr (cl_count cl, g')"
      using less.prems(1) True
      by (auto simp: generate_loop.simps [of _ _ _ _ _ _ _ _ _ k] ne split: sum.splits if_splits)
    have kn: "k + n \<le> cl_count cl"
      using tl by (auto simp: generate_loop.simps [of _ _ _ _ _ _ _ _ _ "k + n"] split: if_splits)
    have cin: "?l ! k * ?cs < length target" using ok(3) nth_mem [of k ?l] True len unfolding changes_ok_def by metis
    then have ab: "addr < 2 ^ 64" using x(1) ok(3) by (simp add: changes_ok_def)
    have sz0: "sz0 = n * ?cs mod 2 ^ 64" using x(2,3) by simp
    define sz where "sz = clip_extent target addr sz0"
    obtain ext where e: "deltafile g1 = deltafile g @ ext" "gen_chksum1 g1 < 2 ^ 64" "sz \<le> MAX_MEM_SIZE"
      "0 < sz \<Longrightarrow> addr + sz \<le> length target" "extent_applies cd sync source target ?cs addr n sz ext"
      using generate_extent_applies [where sync = sync, OF g1 ok(1,2) sz_def sz0 less.prems(2) ab x(4) src] by blast
    obtain stream where st: "deltafile g' = deltafile g1 @ stream" "stream_applies cd sync source target cl s (k + n) stream"
      using less.hyps [OF _ tl e(2)] npos kn less.prems(3) by fastforce
    have "stream_applies cd sync source target cl s k (ext @ stream)"
      unfolding stream_applies_def
    proof (intro allI impI, elim conjE)
      fix a :: applier and rest :: bytes
      assume a: "instream a = (ext @ stream) @ rest" "length (snapdev2 a) = length target"
      obtain a1 where a1: "apply_extent cd sync source ?cs (k - s) a = Inr (n, a1)" "instream a1 = stream @ rest"
        "length (snapdev2 a1) = length target"
        "\<And>i. i < length target \<Longrightarrow> snapdev2 a1 ! i = (if addr \<le> i \<and> i < addr + sz then target ! i else snapdev2 a ! i)"
        using e(5) a sync unfolding extent_applies_def by (metis append_assoc)
      obtain a' where a': "apply_loop cd sync source ?cs (cl_count cl - s) (k + n - s) a1 = Inr (cl_count cl - s, a')"
        "length (snapdev2 a') = length target"
        "\<And>i. i < length target \<Longrightarrow> snapdev2 a1 ! i = target ! i \<or> i div ?cs \<in> set (drop (k + n) ?l) \<Longrightarrow>
           snapdev2 a' ! i = target ! i"
        using st(2) a1(2,3) unfolding stream_applies_def by blast
      have "(k - s + n) mod 2 ^ 64 = k + n - s" using kn cnt less.prems(3) by simp
      then have "apply_loop cd sync source ?cs (cl_count cl - s) (k - s) a = Inr (cl_count cl - s, a')"
        using a' a1(1) True less.prems(3) by (subst apply_loop.simps) auto
      moreover have "snapdev2 a' ! i = target ! i"
        if i: "i < length target" "snapdev2 a ! i = target ! i \<or> i div ?cs \<in> set (drop k ?l)" for i
      proof -
        have "snapdev2 a1 ! i = target ! i \<or> i div ?cs \<in> set (drop (k + n) ?l)"
        proof (cases "snapdev2 a ! i = target ! i")
          case True then show ?thesis using a1(4) [OF i(1)] by simp
        next
          case False
          then obtain j where "j < length (drop k ?l)" "drop k ?l ! j = i div ?cs"
            using i(2) by (metis in_set_conv_nth)
          then have j: "k + j < cl_count cl" "i div ?cs = ?l ! (k + j)" using len by auto
          show ?thesis
          proof (cases "j < n")
            case True
            then have "addr \<le> i \<and> i < addr + sz"
              using x(5) [OF True j(1)] j(2) by (intro extent_covers [OF ok(3) x(1) cin x(2,3) sz_def e(4) i(1)]) auto
            then show ?thesis using a1(4) [OF i(1)] by simp
          next
            case False
            then have "?l ! (k + j) \<in> set (drop (k + n) ?l)"
              using j(1) len by (auto simp: in_set_conv_nth intro!: exI [of _ "j - n"])
            then show ?thesis using j(2) by simp
          qed
        qed
        then show ?thesis by (rule a'(3) [OF i(1)])
      qed
      ultimately show "\<exists>a'. apply_loop cd sync source ?cs (cl_count cl - s) (k - s) a = Inr (cl_count cl - s, a') \<and>
           length (snapdev2 a') = length target \<and>
           (\<forall>i<length target. snapdev2 a ! i = target ! i \<or> i div ?cs \<in> set (drop k ?l) \<longrightarrow> snapdev2 a' ! i = target ! i)"
        using a'(2) by blast
    qed
    then show ?thesis using e(1) st(1) by auto
  qed
qed

end
