(* ===== verification/Delta_Correct.thy ===== *)
theory Delta_Correct
  imports Delta_Lemmas
begin

text \<open>
  Correctness of replication: a change list survives its file, and the delta
  made upstream turns the downstream volume into the target snapshot.  The
  last properties are about what goes wrong when decompression fails and when
  the size of a whole volume is not a multiple of the chunk size.
\<close>

section \<open>Change list files\<close>

definition cl_wf :: "change_list \<Rightarrow> bool" where
  "cl_wf cl \<longleftrightarrow> cl_count cl = length (cl_chunks cl) \<and> cl_chunksize_bits cl < 2 ^ 32 \<and> src_snap cl < 2 ^ 32 \<and>
     tgt_snap cl < 2 ^ 32 \<and> (\<forall>c\<in>set (cl_chunks cl). c < 2 ^ 64 - 1)"

text \<open>The entries and the numbers in the header; the room of the array is not in the file.\<close>

definition same_changes :: "change_list \<Rightarrow> change_list \<Rightarrow> bool" where
  "same_changes cl cl' \<longleftrightarrow> cl_count cl' = cl_count cl \<and> cl_chunksize_bits cl' = cl_chunksize_bits cl \<and>
     src_snap cl' = src_snap cl \<and> tgt_snap cl' = tgt_snap cl \<and> cl_chunks cl' = cl_chunks cl"

lemma append_change_list_simps:
  assumes "cl_count cl = length (cl_chunks cl)"
  shows "cl_chunks (append_change_list c cl) = cl_chunks cl @ [c]" "cl_count (append_change_list c cl) = cl_count cl + 1"
    "cl_chunksize_bits (append_change_list c cl) = cl_chunksize_bits cl"
    "src_snap (append_change_list c cl) = src_snap cl" "tgt_snap (append_change_list c cl) = tgt_snap cl"
  using assms by (simp_all add: append_change_list_def Let_def)

lemma read_chunks_marker:
  assumes "\<forall>c\<in>set cs. c < 2 ^ 64 - 1" "cl_count cl = length (cl_chunks cl)"
  shows "\<exists>cl'. read_chunks (concat (map (le_bytes 8) cs) @ le_bytes 8 (2 ^ 64 - 1)) cl = Inr cl' \<and>
    cl_chunks cl' = cl_chunks cl @ cs \<and> cl_count cl' = length (cl_chunks cl') \<and>
    cl_chunksize_bits cl' = cl_chunksize_bits cl \<and> src_snap cl' = src_snap cl \<and> tgt_snap cl' = tgt_snap cl"
  using assms
proof (induction cs arbitrary: cl)
  case Nil
  have "le_bytes 8 (2 ^ 64 - 1) \<noteq> []" by (metis length_le_bytes list.size(3) zero_neq_numeral)
  then show ?case using Nil by (subst read_chunks.simps) (simp add: le_value_bytes)
next
  case (Cons c cs)
  let ?rest = "concat (map (le_bytes 8) cs) @ le_bytes 8 (2 ^ 64 - 1)"
  note a = append_change_list_simps [OF Cons.prems(2), of c]
  have "le_bytes 8 c \<noteq> []" by (metis length_le_bytes list.size(3) zero_neq_numeral)
  moreover have "le_value (le_bytes 8 c) = c" using Cons.prems(1) by (simp add: le_value_bytes)
  ultimately have "read_chunks (le_bytes 8 c @ ?rest) cl = read_chunks ?rest (append_change_list c cl)"
    using Cons.prems(1) by (subst read_chunks.simps) simp
  moreover have "cl_count (append_change_list c cl) = length (cl_chunks (append_change_list c cl))"
    using a Cons.prems(2) by simp
  ultimately show ?case using Cons.IH [of "append_change_list c cl"] Cons.prems(1) a by simp
qed

text \<open>
  C35. A change list that is written to a file and read back has the same
  chunks, chunk size and snapshot numbers.  The end marker keeps it apart from
  a list that was cut off.
\<close>

theorem changelist_file_roundtrip:
  assumes "cl_wf cl"
  shows "\<exists>cl'. read_changelist (write_changelist cl) = Inr (Some cl') \<and> same_changes cl cl'"
proof -
  have w: "cl_count cl = length (cl_chunks cl)" "cl_chunksize_bits cl < 2 ^ 32" "src_snap cl < 2 ^ 32" "tgt_snap cl < 2 ^ 32"
    "\<forall>c\<in>set (cl_chunks cl). c < 2 ^ 64 - 1" using assms by (auto simp: cl_wf_def)
  let ?h = "CHANGELIST_MAGIC_ID @ le_bytes 4 (cl_chunksize_bits cl) @ le_bytes 4 (src_snap cl) @ le_bytes 4 (tgt_snap cl)"
  let ?stream = "concat (map (le_bytes 8) (cl_chunks cl)) @ le_bytes 8 (2 ^ 64 - 1)"
  have m: "length CHANGELIST_MAGIC_ID = 8" by (simp add: CHANGELIST_MAGIC_ID_def)
  have fl: "write_changelist cl = ?h @ ?stream" by (simp add: write_changelist_def w(1))
  then have fd: "fdread 20 (write_changelist cl) = Inr (?h, ?stream)" using m by (simp add: fdread_def)
  have tk: "take 4 ?h = take 4 CHANGELIST_MAGIC_ID" using m by simp
  have le: "le_value (take 4 (drop 8 ?h)) = cl_chunksize_bits cl" "le_value (take 4 (drop 12 ?h)) = src_snap cl"
    "le_value (take 4 (drop 16 ?h)) = tgt_snap cl"
    using m w by (simp_all add: le_value_bytes)
  obtain cl' where rd: "read_chunks ?stream (init_change_list (cl_chunksize_bits cl) (src_snap cl) (tgt_snap cl)) = Inr cl'"
    and sc: "same_changes cl cl'"
    using read_chunks_marker [OF w(5), of "init_change_list (cl_chunksize_bits cl) (src_snap cl) (tgt_snap cl)"] w(1)
    by (auto simp: init_change_list_def same_changes_def)
  have "read_changelist (write_changelist cl) = Inr (Some cl')"
    unfolding read_changelist_def fd sum.case prod.case tk le rd by (simp only: not_True_eq_False if_False simp_thms)
  with sc show ?thesis by blast
qed

definition some_changes :: change_list where
  "some_changes = append_change_list 9 (append_change_list 4 (init_change_list 12 7 8))"

theorem changelist_file_roundtrip_witness:
  "\<exists>cl'. read_changelist (write_changelist some_changes) = Inr (Some cl') \<and> same_changes some_changes cl'"
  by (rule changelist_file_roundtrip)
    (simp add: cl_wf_def some_changes_def append_change_list_def init_change_list_def)

section \<open>Delta files\<close>

text \<open>The codec of the program: the compression library and the binding to xdelta.\<close>

definition ddsnap_codec ::
  "(nat \<Rightarrow> bytes \<Rightarrow> int \<Rightarrow> zres) \<Rightarrow> (nat \<Rightarrow> bytes \<Rightarrow> zres) \<Rightarrow> 's xd3 \<Rightarrow> 't xd3 \<Rightarrow> codec" where
  "ddsnap_codec z u encoder decoder =
     \<lparr>compress2 = z, uncompress = u, xd_create = create_delta_chunk encoder, xd_apply = apply_delta_chunk decoder\<rparr>"

lemma ddsnap_codec_fits: "delta_fits (ddsnap_codec z u encoder decoder)"
  by (auto simp: delta_fits_def ddsnap_codec_def create_delta_chunk_def dest: delta_chunk_helper_bound)

lemma ddsnap_codec_zlib:
  assumes "\<And>cap x level out limit. z cap x level = Z_OK out \<Longrightarrow> length x \<le> limit \<Longrightarrow> u limit out = Z_OK x"
  shows "zlib_ok (ddsnap_codec z u encoder decoder)"
  unfolding zlib_ok_def ddsnap_codec_def using assms by auto

lemma apply_generated:
  assumes gen: "generate_delta_extents cd mode level wr progress beyond source target cl s g = Inr stream"
    and g: "deltafile g = pre" "gen_chksum1 g = 0"
    and ok: "zlib_ok cd" "delta_fits cd" "changes_ok (source = None) cl target" and s: "s \<le> cl_count cl"
    and src: "\<And>vol. source = Some vol \<Longrightarrow> length vol < 2 ^ 64 \<and> (length target \<le> length vol \<or> MAX_MEM_SIZE \<le> length vol)"
    and sync: "\<And>n. sync n = Synced"
  obtains exts where "stream = pre @ exts"
    "\<And>a. instream a = exts \<Longrightarrow> length (snapdev2 a) = length target \<Longrightarrow>
      \<forall>i<length target. snapdev2 a ! i = target ! i \<or>
         i div 2 ^ cl_chunksize_bits cl \<in> set (drop s (listed (source = None) cl)) \<Longrightarrow>
      apply_delta_extents cd sync source (2 ^ cl_chunksize_bits cl) (cl_count cl - s) a = (Out None, target)"
proof -
  obtain g' where l: "generate_loop cd mode level wr progress beyond source target cl s g = Inr (cl_count cl, g')"
    and st: "deltafile g' = stream"
    using gen by (auto simp: generate_delta_extents_def split: sum.splits if_splits)
  have "gen_chksum1 g < 2 ^ 64" using g(2) by simp
  from generate_loop_applies [where sync = sync, OF l ok this src sync order_refl s] obtain exts
    where e: "stream = pre @ exts" "stream_applies cd sync source target cl s s exts" using st g(1) by auto
  have "apply_delta_extents cd sync source (2 ^ cl_chunksize_bits cl) (cl_count cl - s) a = (Out None, target)"
    if a: "instream a = exts" "length (snapdev2 a) = length target"
      "\<forall>i<length target. snapdev2 a ! i = target ! i \<or>
         i div 2 ^ cl_chunksize_bits cl \<in> set (drop s (listed (source = None) cl))" for a
  proof -
    have "instream a = exts @ []" using a(1) by simp
    then obtain a' where "apply_loop cd sync source (2 ^ cl_chunksize_bits cl) (cl_count cl - s) (s - s) a =
        Inr (cl_count cl - s, a')" "length (snapdev2 a') = length target"
      "\<forall>i<length target. snapdev2 a ! i = target ! i \<or>
         i div 2 ^ cl_chunksize_bits cl \<in> set (drop s (listed (source = None) cl)) \<longrightarrow> snapdev2 a' ! i = target ! i"
      using e(2) a(2) unfolding stream_applies_def by blast
    moreover from this a(3) have "snapdev2 a' = target" by (intro nth_equalityI) auto
    ultimately show ?thesis by (simp add: apply_delta_extents_def sync)
  qed
  with e(1) show thesis by (rule that)
qed

text \<open>
  C34. The delta file made upstream from two snapshots, applied downstream to a
  volume that differs from the target snapshot in the listed chunks only,
  gives exactly the target snapshot, and the routine reports success.  This
  holds for each of the three delta modes and every compression level, with
  any delta coder whatever, since each delta is tried before it is used; of
  the compression library it needs only that decompression undoes compression.
  Each side has the same source snapshot, which must not be smaller than both
  the target and the largest extent.
\<close>

theorem delta_file_roundtrip:
  fixes encoder :: "'s xd3" and decoder :: "'t xd3"
  assumes "\<And>cap x level out limit. z cap x level = Z_OK out \<Longrightarrow> length x \<le> limit \<Longrightarrow> u limit out = Z_OK x"
    and "generate_delta (ddsnap_codec z u encoder decoder) mode level wr beyond upstream cl
           \<lparr>dev1_extent = buf, gen_delta_size = garbage, gen_chksum1 = 0, deltafile = []\<rparr> = Inr file"
    and "changes_ok (src_snap cl = 2 ^ 32 - 1) cl (upstream (tgt_snap cl))" "src_snap cl < 2 ^ 32" "tgt_snap cl < 2 ^ 32"
    and "src_snap cl \<noteq> 2 ^ 32 - 1 \<Longrightarrow>
           downstream (src_snap cl) = upstream (src_snap cl) \<and> length (upstream (src_snap cl)) < 2 ^ 64 \<and>
           (length (upstream (tgt_snap cl)) \<le> length (upstream (src_snap cl)) \<or>
            MAX_MEM_SIZE \<le> length (upstream (src_snap cl)))"
    and "length dev = length (upstream (tgt_snap cl))"
    and "\<forall>i<length dev. dev ! i = upstream (tgt_snap cl) ! i \<or>
           i div 2 ^ cl_chunksize_bits cl \<in> set (listed (src_snap cl = 2 ^ 32 - 1) cl)"
  shows "apply_delta (ddsnap_codec z u encoder decoder) downstream
    \<lparr>extent_data = buf1, delta_data = buf2, updated = buf3, snapdev2 = dev, instream = file\<rparr> =
    (Out None, upstream (tgt_snap cl))"
proof -
  let ?cd = "ddsnap_codec z u encoder decoder" and ?target = "upstream (tgt_snap cl)"
  let ?source = "source_dev upstream (src_snap cl)" and ?cs = "2 ^ cl_chunksize_bits cl :: nat"
  let ?dh = "\<lparr>dh_magic = DELTA_MAGIC_ID, dh_chunk_num = cl_count cl, dh_chunk_size = ?cs,
    dh_src_snap = src_snap cl, dh_tgt_snap = tgt_snap cl\<rparr>"
  have sn: "(?source = None) = (src_snap cl = 2 ^ 32 - 1)" by (simp add: source_dev_def)
  obtain file0 where gen: "generate_delta_extents ?cd mode level wr (\<lambda>_. False) beyond ?source ?target cl 0
      \<lparr>dev1_extent = buf, gen_delta_size = garbage, gen_chksum1 = 0, deltafile = file0\<rparr> = Inr file"
    and f0: "file0 = encode_dh ?dh"
    using assms(2) by (auto simp: generate_delta_def fdwrite_def split: sum.splits option.splits)
  have src: "length vol < 2 ^ 64 \<and> (length ?target \<le> length vol \<or> MAX_MEM_SIZE \<le> length vol)"
    if "?source = Some vol" for vol
    using that assms(6) by (auto simp: source_dev_def split: if_splits)
  have zok: "zlib_ok ?cd" by (rule ddsnap_codec_zlib) (rule assms(1))
  have ok: "changes_ok (?source = None) cl ?target" using assms(3) by (simp add: sn)
  obtain exts where e: "file = file0 @ exts"
    "\<And>a. instream a = exts \<Longrightarrow> length (snapdev2 a) = length ?target \<Longrightarrow>
      \<forall>i<length ?target. snapdev2 a ! i = ?target ! i \<or> i div ?cs \<in> set (drop 0 (listed (?source = None) cl)) \<Longrightarrow>
      apply_delta_extents ?cd (\<lambda>_. Synced) ?source ?cs (cl_count cl - 0) a = (Out None, ?target)"
    using apply_generated [where sync = "\<lambda>_. Synced", OF gen _ _ zok ddsnap_codec_fits ok _ src] by auto
  have m: "length DELTA_MAGIC_ID = 8" by (simp add: DELTA_MAGIC_ID_def)
  have l: "length (encode_dh ?dh) = 28" by (simp add: encode_dh_def m)
  have "?cs < 2 ^ 32" "cl_count cl < 2 ^ 64" using assms(3) chunk_size_le [of cl] by (simp_all add: changes_ok_def)
  then have dec: "decode_dh (encode_dh ?dh) = ?dh" using assms(4,5) m by (intro decode_encode_dh) simp_all
  have same: "source_dev downstream (src_snap cl) = ?source" using assms(6) by (simp add: source_dev_def)
  have rd: "fdread 28 (file0 @ exts) = Inr (encode_dh ?dh, exts)" using l by (simp add: fdread_def f0)
  show ?thesis
    using e(2) [of "\<lparr>extent_data = buf1, delta_data = buf2, updated = buf3, snapdev2 = dev, instream = exts\<rparr>"] assms(7,8)
    by (simp add: apply_delta_def e(1) rd dec same sn)
qed

text \<open>
  A source snapshot and a larger target of five bytes in chunks of two, and a
  compression that knows one string.
\<close>

definition tiny_compress :: "nat \<Rightarrow> bytes \<Rightarrow> int \<Rightarrow> zres" where
  "tiny_compress cap x level = (if x = [9, 9, 7] then Z_OK [42] else Z_OK (0 # x))"

definition tiny_uncompress :: "nat \<Rightarrow> bytes \<Rightarrow> zres" where
  "tiny_uncompress limit y =
     (let x = (if y = [42] then [9, 9, 7] else tl y) in if length x \<le> limit then Z_OK x else Z_BUF_ERROR)"

definition no_delta :: "unit xd3" where
  "no_delta = \<lparr>func = (\<lambda>s. (XD3_OTHER, s)), next_out = (\<lambda>s. []), consume_output = (\<lambda>s. s), set_source = (\<lambda>_ _ _. None)\<rparr>"

definition tiny_volumes :: "nat \<Rightarrow> bytes" where
  "tiny_volumes n = (if n = 1 then [1, 2, 3, 4, 5, 6] else [1, 2, 9, 9, 7])"

definition tiny_changes :: change_list where
  "tiny_changes = append_change_list 2 (append_change_list 1 (init_change_list 1 1 2))"

definition tiny_delta :: "halt + bytes" where
  "tiny_delta = generate_delta (ddsnap_codec tiny_compress tiny_uncompress no_delta no_delta) RAW 6 (\<lambda>_. None) (\<lambda>_. 0)
     tiny_volumes tiny_changes \<lparr>dev1_extent = (\<lambda>_. 0), gen_delta_size = 0, gen_chksum1 = 0, deltafile = []\<rparr>"

lemma tiny_delta_made: "\<exists>df. tiny_delta = Inr df"
  by (simp add: tiny_delta_def generate_delta_def generate_delta_extents_def fdwrite_def source_dev_def tiny_changes_def
      append_change_list_def init_change_list_def generate_loop.simps generate_extent_def next_extent_def
      chunks_in_extent_def extent_run.simps chunk_at_def MAX_MEM_SIZE_def tiny_volumes_def clip_extent_def passes_end_def
      u64_sub_def load_source_def source_extent_def read_extent_def diskread_def encode_extent_def create_raw_delta_def
      ddsnap_codec_def gzip_on_delta_def tiny_compress_def best_compression_def emit_extent_def Let_def)

theorem delta_file_roundtrip_witness:
  "apply_delta (ddsnap_codec tiny_compress tiny_uncompress no_delta no_delta) tiny_volumes
     \<lparr>extent_data = (\<lambda>_. 1), delta_data = (\<lambda>_. 1), updated = (\<lambda>_. 1), snapdev2 = [1, 2, 3, 4, 5],
      instream = (case tiny_delta of Inr file \<Rightarrow> file | Inl _ \<Rightarrow> [])\<rparr> = (Out None, [1, 2, 9, 9, 7])"
proof -
  obtain df where f: "tiny_delta = Inr df" using tiny_delta_made by blast
  have tc: "tgt_snap tiny_changes = 2" "src_snap tiny_changes = 1" "cl_chunksize_bits tiny_changes = 1"
    "cl_count tiny_changes = 2" "cl_chunks tiny_changes = [1, 2]"
    by (simp_all add: tiny_changes_def append_change_list_def init_change_list_def)
  have z: "tiny_uncompress limit out = Z_OK x" if "tiny_compress cap x level = Z_OK out" "length x \<le> limit" for cap x level out limit
    using that by (auto simp: tiny_compress_def tiny_uncompress_def split: if_splits)
  have ok: "changes_ok (src_snap tiny_changes = 2 ^ 32 - 1) tiny_changes (tiny_volumes (tgt_snap tiny_changes))"
    by (simp add: tc changes_ok_def listed_def tiny_volumes_def)
  have d: "\<forall>i<length [1, 2, 3, 4, 5]. [1, 2, 3, 4, 5] ! i = tiny_volumes (tgt_snap tiny_changes) ! i \<or>
      i div 2 ^ cl_chunksize_bits tiny_changes \<in> set (listed (src_snap tiny_changes = 2 ^ 32 - 1) tiny_changes)"
    by (simp add: tc listed_def tiny_volumes_def All_less_Suc)
  have "apply_delta (ddsnap_codec tiny_compress tiny_uncompress no_delta no_delta) tiny_volumes
     \<lparr>extent_data = (\<lambda>_. 1), delta_data = (\<lambda>_. 1), updated = (\<lambda>_. 1), snapdev2 = [1, 2, 3, 4, 5], instream = df\<rparr> =
     (Out None, tiny_volumes (tgt_snap tiny_changes))"
    by (rule delta_file_roundtrip [OF z f [unfolded tiny_delta_def] ok _ _ _ _ d]) (simp_all add: tc tiny_volumes_def)
  then show ?thesis by (simp add: f tc tiny_volumes_def)
qed

section \<open>Failures\<close>

text \<open>
  C36. Compressed data that cannot be decompressed is acknowledged: the
  downstream side writes nothing and answers that the delta was applied.
\<close>

theorem corrupt_delta_acknowledged:
  assumes "instream a = encode_deh deh @ data @ rest" "deh_bounds deh" "magic_num deh = MAGIC_NUM" "gzip_on deh = 1"
    and "extents_delta_length deh = length data" "length data \<le> MAX_MEM_SIZE"
    and "sz = clip_extent (snapdev2 a) (extent_addr deh) (num_of_chunks deh * dh_chunk_size body mod 2 ^ 64)"
    and "sz \<le> MAX_MEM_SIZE" "uncompress cd sz data = Z_DATA_ERROR"
    and "dh_src_snap body = 2 ^ 32 - 1" "0 < dh_chunk_size body" "0 < dh_chunk_num body"
  shows "serve_delta cd sync snapdev body a = Some ([SEND_DELTA_PROCEED, SEND_DELTA_DONE], snapdev2 a)"
proof -
  have rd: "fdread 52 (instream a) = Inr (encode_deh deh, data @ rest)" by (simp add: assms(1) fdread_def)
  have cl: "clip_extent (snapdev2 a) (extent_addr deh) (num_of_chunks deh * dh_chunk_size body mod 18446744073709551616) = sz"
    by (simp add: assms(7))
  have "load_delta cd deh sz (a\<lparr>instream := data @ rest\<rparr>) = Inl (Out None)"
    using assms(4-6,8,9) by (simp add: load_delta_def fdread_def)
  then have "apply_extent cd sync None (dh_chunk_size body) 0 a = Inl (Out None, snapdev2 a)"
    using rd assms(3) by (simp add: apply_extent_def Let_def decode_encode_deh [OF assms(2)] cl check_source_def)
  then show ?thesis
    using assms(10-12) by (simp add: serve_delta_def source_dev_def apply_delta_extents_def apply_loop.simps)
qed

theorem corrupt_delta_acknowledged_witness:
  "serve_delta \<lparr>compress2 = (\<lambda>_ x _. Z_OK x), uncompress = (\<lambda>_ _. Z_DATA_ERROR), xd_create = (\<lambda>_ _ _. None), xd_apply = (\<lambda>_ _ _. None)\<rparr>
     (\<lambda>_. Synced) (\<lambda>_. []) \<lparr>dh_magic = [], dh_chunk_num = 1, dh_chunk_size = 2, dh_src_snap = 4294967295, dh_tgt_snap = 3\<rparr>
     \<lparr>extent_data = (\<lambda>_. 0), delta_data = (\<lambda>_. 0), updated = (\<lambda>_. 0), snapdev2 = [1, 2, 3, 4],
      instream = encode_deh \<lparr>magic_num = MAGIC_NUM, de_mode = RAW, gzip_on = 1, extent_addr = 2, num_of_chunks = 1,
        extents_delta_length = 1, ext1_chksum = 0, ext2_chksum = 16\<rparr> @ [77] @ []\<rparr> =
   Some ([SEND_DELTA_PROCEED, SEND_DELTA_DONE], [1, 2, 3, 4])"
  using corrupt_delta_acknowledged [where a = "\<lparr>extent_data = (\<lambda>_. 0), delta_data = (\<lambda>_. 0), updated = (\<lambda>_. 0), snapdev2 = [1, 2, 3, 4],
      instream = encode_deh \<lparr>magic_num = MAGIC_NUM, de_mode = RAW, gzip_on = 1, extent_addr = 2, num_of_chunks = 1,
        extents_delta_length = 1, ext1_chksum = 0, ext2_chksum = 16\<rparr> @ [77] @ []\<rparr>" and
      deh = "\<lparr>magic_num = MAGIC_NUM, de_mode = RAW, gzip_on = 1, extent_addr = 2, num_of_chunks = 1,
        extents_delta_length = 1, ext1_chksum = 0, ext2_chksum = 16\<rparr>" and data = "[77]" and rest = "[]" and sz = 2 and
      body = "\<lparr>dh_magic = [], dh_chunk_num = 1, dh_chunk_size = 2, dh_src_snap = 4294967295, dh_tgt_snap = 3\<rparr>" and
      cd = "\<lparr>compress2 = (\<lambda>_ x _. Z_OK x), uncompress = (\<lambda>_ _. Z_DATA_ERROR), xd_create = (\<lambda>_ _ _. None), xd_apply = (\<lambda>_ _ _. None)\<rparr>" and
      sync = "\<lambda>_. Synced" and snapdev = "\<lambda>_. []"]
  by (simp add: deh_bounds_def MAX_MEM_SIZE_def clip_extent_def passes_end_def u64_sub_def)

text \<open>
  C37. Where the replication of a whole volume resumes: at the chunk asked for
  if the volume is a multiple of the chunk size, and one chunk too late
  otherwise.  In particular the first chunk of such a volume is never sent.
\<close>

theorem full_volume_resume:
  assumes "k * 2 ^ bits \<le> vol" "vol < 2 ^ 63" 
  shows "skip_full vol (k * 2 ^ bits) (full_changelist vol bits tgt) = (if vol mod 2 ^ bits = 0 then k else k + 1)"
proof -
  let ?m = "2 ^ bits :: nat" and ?q = "vol div 2 ^ bits"
  have kq: "k \<le> ?q" using assms(1) by (simp add: less_eq_div_iff_mult_less_eq)
  have "vol = ?q * ?m + vol mod ?m" by (rule div_mult_mod_eq [symmetric])
  then have "vol - k * ?m = (?q - k) * ?m + vol mod ?m"
    using kq by (metis Nat.diff_add_assoc2 diff_mult_distrib mult_le_mono1)
  then have d: "(vol - k * ?m) div ?m = ?q - k" by simp
  have q: "?q < 2 ^ 63" by (rule le_less_trans [OF div_le_dividend assms(2)])
  have u: "u64_sub vol (k * ?m) = vol - k * ?m" using assms by (intro u64_sub_eq) auto
  have "u64_sub (?q + b) (?q - k) = k + b" if "b \<le> 1" for b
    using that kq q by (subst u64_sub_eq) auto
  from this [of 0] this [of 1] show ?thesis
    by (simp add: skip_full_def full_changelist_def u d)
qed

theorem full_volume_resume_witness:
  "skip_full 5000 (0 * 2 ^ 12) (full_changelist 5000 12 1) = (if 5000 mod 2 ^ 12 = (0 :: nat) then 0 else 0 + 1)"
  by (rule full_volume_resume) simp_all

end
