(* ===== verification/Options.thy ===== *)
theory Options
  imports Prelude
begin

text \<open>
  The numbers on the command line of \<open>src/ddsnap/ddsnap.c\<close>: sizes with a unit,
  powers of two, snapshot tags, and numbers printed with commas.

  A C string is the list of its characters without the zero that ends it; what
  stands in memory behind the zero is an argument where the code reads it.
\<close>

section \<open>Conversions of the C library\<close>

definition is_space :: "char \<Rightarrow> bool" where
  "is_space c \<longleftrightarrow> of_char c \<in> {9, 10, 11, 12, 13, 32 :: nat}"

definition is_digit :: "char \<Rightarrow> bool" where
  "is_digit c \<longleftrightarrow> 48 \<le> (of_char c :: nat) \<and> (of_char c :: nat) \<le> 57"

definition digits_value :: "string \<Rightarrow> nat" where
  "digits_value ds = fold (\<lambda>c v. 10 * v + (of_char c - 48)) ds 0"

text \<open>Sign, magnitude and rest; without digits nothing is consumed.\<close>

definition scan_number :: "string \<Rightarrow> bool \<times> nat \<times> string" where
  "scan_number s =
     (let t = dropWhile is_space s;
          (neg, t) = (case t of c # t' \<Rightarrow> if c = CHR ''-'' then (True, t') else if c = CHR ''+'' then (False, t') else (False, t)
                              | [] \<Rightarrow> (False, t))
      in case takeWhile is_digit t of
           [] \<Rightarrow> (False, 0, s)
         | ds \<Rightarrow> (neg, digits_value ds, dropWhile is_digit t))"

text \<open>\<open>strtoull\<close> and \<open>strtoul\<close>: value, whether it is out of range, and rest.\<close>

definition strtoull :: "string \<Rightarrow> nat \<times> bool \<times> string" where
  "strtoull s =
     (case scan_number s of (neg, v, rest) \<Rightarrow>
        if v \<ge> 2 ^ 64 then (2 ^ 64 - 1, True, rest)
        else (if neg then u64_sub 0 v else v, False, rest))"


section \<open>Sizes\<close>








definition parse_snaptag :: "string \<Rightarrow> nat option" where
  "parse_snaptag snapstr =
     (case snapstr of
        [] \<Rightarrow> None
      | c # _ \<Rightarrow>
          if c = CHR ''-'' then None
          else
            (case strtoull snapstr of (num, _, rest) \<Rightarrow>
               if rest \<noteq> [] \<or> num \<ge> 2 ^ 64 - 1 then None else Some (num mod 2 ^ 32)))"

section \<open>Printing\<close>

text \<open>The conversion \<open>%Lu\<close>.\<close>

fun decimal :: "nat \<Rightarrow> string" where
  "decimal n = (if n < 10 then [char_of (48 + n)] else decimal (n div 10) @ [char_of (48 + n mod 10)])"

declare decimal.simps [simp del]

text \<open>\<open>pre\<close> is what the source pointer has not reached yet, \<open>done\<close> what is in place.\<close>

fun commas_loop :: "nat \<Rightarrow> string \<Rightarrow> string \<Rightarrow> string" where
  "commas_loop 0 pre acc = pre @ acc"
| "commas_loop (Suc need) pre acc =
     commas_loop need (take (length pre - 3) pre) (CHR '','' # drop (length pre - 3) pre @ acc)"

definition commas :: "nat \<Rightarrow> nat \<Rightarrow> string option" where
  "commas len n =
     (let digits = decimal (n mod 2 ^ 64); need = (length digits - 1) div 3
      in if length digits + need \<ge> len then None else Some (commas_loop need digits []))"

section \<open>Lemmas\<close>

lemma of_char_digit: "d < (10 :: nat) \<Longrightarrow> of_char (char_of (48 + d) :: char) = 48 + d"
  by (simp add: of_char_of)

lemma decimal_digits: "c \<in> set (decimal n) \<Longrightarrow> is_digit c"
proof (induction n rule: decimal.induct)
  case (1 n)
  then show ?case by (subst (asm) decimal.simps) (auto simp: is_digit_def of_char_digit split: if_splits)
qed

lemma decimal_nonempty [simp]: "decimal n \<noteq> []"
  by (subst decimal.simps) simp



lemma digit_chars:
  assumes "is_digit c"
  shows "\<not> is_space c" "c \<noteq> CHR ''-''" "c \<noteq> CHR ''+''" "c \<noteq> CHR '',''"
  using assms by (auto simp: is_digit_def is_space_def)





lemma decimal_length: "n < 10 ^ k \<Longrightarrow> 0 < k \<Longrightarrow> length (decimal n) \<le> k"
proof (induction k arbitrary: n)
  case (Suc k)
  show ?case
  proof (cases "n < 10")
    case True then show ?thesis by (subst decimal.simps) simp
  next
    case False
    then have "0 < k" using Suc.prems(1) by (cases k) auto
    moreover have "n div 10 < 10 ^ k" using Suc.prems(1) by (simp add: less_mult_imp_div_less)
    ultimately show ?thesis using Suc.IH [of "n div 10"] False by (subst decimal.simps) simp
  qed
qed simp

lemma commas_loop_digits:
  assumes "\<forall>c\<in>set pre. is_digit c" "3 * need \<le> length pre"
  shows "filter (\<lambda>c. c \<noteq> CHR '','') (commas_loop need pre acc) = pre @ filter (\<lambda>c. c \<noteq> CHR '','') acc"
    "length (commas_loop need pre acc) = need + length pre + length acc"
proof -
  have "filter (\<lambda>c. c \<noteq> CHR '','') (commas_loop need pre acc) = pre @ filter (\<lambda>c. c \<noteq> CHR '','') acc \<and>
    length (commas_loop need pre acc) = need + length pre + length acc"
    using assms
  proof (induction need pre acc rule: commas_loop.induct)
    case (1 pre acc)
    have "filter (\<lambda>c. c \<noteq> CHR '','') pre = pre" using 1 digit_chars(4) by (intro filter_True) blast
    then show ?case by simp
  next
    case (2 need pre acc)
    have d: "filter (\<lambda>c. c \<noteq> CHR '','') (drop (length pre - 3) pre) = drop (length pre - 3) pre"
      using 2(2) digit_chars(4) by (intro filter_True) (blast dest: in_set_dropD)
    have "\<forall>c\<in>set (take (length pre - 3) pre). is_digit c" using 2(2) by (blast dest: in_set_takeD)
    moreover have "3 * need \<le> length (take (length pre - 3) pre)" using 2(3) by simp
    ultimately show ?case using 2(1,3) d by simp
  qed
  then show "filter (\<lambda>c. c \<noteq> CHR '','') (commas_loop need pre acc) = pre @ filter (\<lambda>c. c \<noteq> CHR '','') acc"
    "length (commas_loop need pre acc) = need + length pre + length acc" by auto
qed

text \<open>
  Every 64 bit number fits the buffers of 27 bytes that the status report uses,
  and only commas are added to its digits.
\<close>

lemma commas_fits:
  "\<exists>s. commas 27 n = Some s \<and> filter (\<lambda>c. c \<noteq> CHR '','') s = decimal (n mod 2 ^ 64) \<and> length s \<le> 26"
proof -
  let ?ds = "decimal (n mod 2 ^ 64)" and ?need = "(length (decimal (n mod 2 ^ 64)) - 1) div 3"
  have "n mod 2 ^ 64 < (2 :: nat) ^ 64" by simp
  also have "(2 :: nat) ^ 64 < 10 ^ 20" by simp
  finally have l: "length ?ds \<le> 20" by (rule decimal_length) simp
  have n: "?need \<le> 6" "3 * ?need \<le> length ?ds" using l by auto
  have "\<forall>c\<in>set ?ds. is_digit c" using decimal_digits by blast
  from commas_loop_digits [OF this n(2), of "[]"] l n(1) show ?thesis by (simp add: commas_def Let_def)
qed

section \<open>Properties\<close>





end
